(* ===== verification/Mesh_Errors.thy ===== *)
theory Mesh_Errors
  imports Mesh_Prelude
begin

text \<open>
  The error vocabulary of the mesh (\<open>shared/protocol/errors.ts\<close>, \<open>src/domain/errors.ts\<close>):
  the reasons with their JSON-RPC codes, the error values a modelled operation can throw, and
  the validation of an error received over the wire. The text of a message is not modelled,
  except where the schema measures it.
\<close>

datatype mesh_error_reason =
    AUTH_REQUIRED | AUTH_FAILED | PROTOCOL_INCOMPATIBLE | RATE_LIMITED
  | WORKSPACE_NOT_FOUND | WORKSPACE_DISABLED | WORKSPACE_BUSY
  | TASK_NOT_FOUND | TASK_ID_CONFLICT | TASK_NOT_CANCELLABLE | INPUT_NOT_PENDING
  | AGENT_UNAVAILABLE | AGENT_AUTH_REQUIRED | TASK_EXECUTION_FAILED | TASK_RECOVERY_UNAVAILABLE
  | WORKER_DRAINING | REMOTE_WORKSPACE_UNSUPPORTED | CLI_UNSUPPORTED | TUNNEL_UNAVAILABLE
  | WORKSPACE_UNTRUSTED | LOCAL_FILE_WORKSPACE_REQUIRED | PORT_CONFLICT | TUNNEL_ACCESS_EXPIRED
  | TASK_CANCELLATION_UNCONFIRMED | DELEGATION_NOT_FOUND
  | PEER_NOT_ALLOWED | PEER_NOT_ACCEPTING | PEER_OFFLINE | PEER_MULTI_WORKSPACE
  | ARTIFACT_NOT_FOUND | ARTIFACT_FORBIDDEN | ARTIFACT_INVALID | ARTIFACT_CORRUPT
  | ARTIFACT_LIMIT_EXCEEDED | WINDOW_NAME_CONFLICT | POLICY_FORBIDDEN | DELEGATION_RECURSION
  | WINDOW_NAME_INVALID | IDEMPOTENCY_CONFLICT

fun mesh_error_code :: "mesh_error_reason \<Rightarrow> int" where
  "mesh_error_code AUTH_REQUIRED = 1000"
| "mesh_error_code AUTH_FAILED = 1001"
| "mesh_error_code PROTOCOL_INCOMPATIBLE = 1002"
| "mesh_error_code RATE_LIMITED = 1003"
| "mesh_error_code WORKSPACE_NOT_FOUND = 1004"
| "mesh_error_code WORKSPACE_DISABLED = 1005"
| "mesh_error_code WORKSPACE_BUSY = 1006"
| "mesh_error_code TASK_NOT_FOUND = 1007"
| "mesh_error_code TASK_ID_CONFLICT = 1008"
| "mesh_error_code TASK_NOT_CANCELLABLE = 1009"
| "mesh_error_code INPUT_NOT_PENDING = 1010"
| "mesh_error_code AGENT_UNAVAILABLE = 1011"
| "mesh_error_code AGENT_AUTH_REQUIRED = 1012"
| "mesh_error_code TASK_EXECUTION_FAILED = 1013"
| "mesh_error_code TASK_RECOVERY_UNAVAILABLE = 1014"
| "mesh_error_code WORKER_DRAINING = 1015"
| "mesh_error_code REMOTE_WORKSPACE_UNSUPPORTED = 1016"
| "mesh_error_code CLI_UNSUPPORTED = 1017"
| "mesh_error_code TUNNEL_UNAVAILABLE = 1018"
| "mesh_error_code WORKSPACE_UNTRUSTED = 1019"
| "mesh_error_code LOCAL_FILE_WORKSPACE_REQUIRED = 1020"
| "mesh_error_code PORT_CONFLICT = 1021"
| "mesh_error_code TUNNEL_ACCESS_EXPIRED = 1022"
| "mesh_error_code TASK_CANCELLATION_UNCONFIRMED = 1023"
| "mesh_error_code DELEGATION_NOT_FOUND = 1024"
| "mesh_error_code PEER_NOT_ALLOWED = 1025"
| "mesh_error_code PEER_NOT_ACCEPTING = 1026"
| "mesh_error_code PEER_OFFLINE = 1027"
| "mesh_error_code PEER_MULTI_WORKSPACE = 1028"
| "mesh_error_code ARTIFACT_NOT_FOUND = 1029"
| "mesh_error_code ARTIFACT_FORBIDDEN = 1030"
| "mesh_error_code ARTIFACT_INVALID = 1031"
| "mesh_error_code ARTIFACT_CORRUPT = 1032"
| "mesh_error_code ARTIFACT_LIMIT_EXCEEDED = 1033"
| "mesh_error_code WINDOW_NAME_CONFLICT = 1034"
| "mesh_error_code POLICY_FORBIDDEN = 1035"
| "mesh_error_code DELEGATION_RECURSION = 1036"
| "mesh_error_code WINDOW_NAME_INVALID = 1037"
| "mesh_error_code IDEMPOTENCY_CONFLICT = 1038"

definition all_mesh_error_reasons :: "mesh_error_reason list" where
  "all_mesh_error_reasons =
     [AUTH_REQUIRED, AUTH_FAILED, PROTOCOL_INCOMPATIBLE, RATE_LIMITED, WORKSPACE_NOT_FOUND,
      WORKSPACE_DISABLED, WORKSPACE_BUSY, TASK_NOT_FOUND, TASK_ID_CONFLICT, TASK_NOT_CANCELLABLE,
      INPUT_NOT_PENDING, AGENT_UNAVAILABLE, AGENT_AUTH_REQUIRED, TASK_EXECUTION_FAILED,
      TASK_RECOVERY_UNAVAILABLE, WORKER_DRAINING, REMOTE_WORKSPACE_UNSUPPORTED, CLI_UNSUPPORTED,
      TUNNEL_UNAVAILABLE, WORKSPACE_UNTRUSTED, LOCAL_FILE_WORKSPACE_REQUIRED, PORT_CONFLICT,
      TUNNEL_ACCESS_EXPIRED, TASK_CANCELLATION_UNCONFIRMED, DELEGATION_NOT_FOUND, PEER_NOT_ALLOWED,
      PEER_NOT_ACCEPTING, PEER_OFFLINE, PEER_MULTI_WORKSPACE, ARTIFACT_NOT_FOUND,
      ARTIFACT_FORBIDDEN, ARTIFACT_INVALID, ARTIFACT_CORRUPT, ARTIFACT_LIMIT_EXCEEDED,
      WINDOW_NAME_CONFLICT, POLICY_FORBIDDEN, DELEGATION_RECURSION, WINDOW_NAME_INVALID,
      IDEMPOTENCY_CONFLICT]"

text \<open>
  What the modelled code throws. \<open>Invalid_Task_Transition\<close> carries the state and the event
  type its message prints; \<open>Zod_Error\<close> is a failed \<open>parse\<close>; \<open>Plain_Error\<close> stands for
  \<open>Error\<close> and \<open>AggregateError\<close>.
\<close>

datatype mesh_error =
    Mesh_Domain_Error mesh_error_reason bool
  | Invalid_Task_Transition string string
  | Type_Error
  | Range_Error
  | Zod_Error
  | Storage_Corruption string
  | Plain_Error

abbreviation mesh_fail :: "mesh_error_reason \<Rightarrow> mesh_error" where
  "mesh_fail r \<equiv> Mesh_Domain_Error r False"

section \<open>Errors on the wire\<close>

definition JSON_RPC_ERROR_CODES :: "int list" where
  "JSON_RPC_ERROR_CODES = [- 32700, - 32600, - 32601, - 32602, - 32603]"

record rpc_error_data =
  red_reason :: mesh_error_reason
  red_retryable :: "bool option"

record rpc_error =
  re_code :: int
  re_message :: string
  re_data :: "rpc_error_data option"

definition rpcErrorSchema :: "rpc_error \<Rightarrow> bool" where
  "rpcErrorSchema e \<longleftrightarrow>
     (re_code e \<in> set JSON_RPC_ERROR_CODES
        \<or> re_code e \<in> mesh_error_code ` set all_mesh_error_reasons)
   \<and> 1 \<le> length (re_message e) \<and> length (re_message e) \<le> 2 * 1024
   \<and> (re_code e \<in> mesh_error_code ` set all_mesh_error_reasons \<longrightarrow>
        (case re_data e of
           None \<Rightarrow> False
         | Some d \<Rightarrow> mesh_error_code (red_reason d) = re_code e))"

lemma all_mesh_error_reasons_complete: "r \<in> set all_mesh_error_reasons"
  by (cases r) (simp_all add: all_mesh_error_reasons_def)

lemma mesh_error_code_range: "1000 \<le> mesh_error_code r \<and> mesh_error_code r \<le> 1038"
  by (cases r) simp_all

lemma distinct_mesh_error_codes: "distinct (map mesh_error_code all_mesh_error_reasons)"
  by (simp add: all_mesh_error_reasons_def)

lemma mesh_error_code_inject: "mesh_error_code r = mesh_error_code s \<Longrightarrow> r = s"
  using distinct_mesh_error_codes all_mesh_error_reasons_complete [of r]
    all_mesh_error_reasons_complete [of s]
  by (auto simp: distinct_map dest: inj_onD)

end
