(* ===== verification/Js_Text.thy ===== *)
theory Js_Text
  imports Mesh_Prelude
begin

text \<open>
  The parts of the JavaScript standard library the program measures and compares values with:
  \<open>JSON.stringify\<close> of strings and flat objects, \<open>Date.parse\<close> on the ISO date-time form
  with a zone, \<open>Date.prototype.toISOString\<close>, and \<open>toLowerCase\<close> on ASCII. Times are
  milliseconds since the epoch as \<open>int\<close>; \<open>NaN\<close> is \<open>None\<close>.
\<close>

section \<open>JSON.stringify\<close>

definition hex_char :: "nat \<Rightarrow> char" where
  "hex_char d = char_of (if d < 10 then 48 + d else 87 + d)"

definition json_escape :: "char \<Rightarrow> string" where
  "json_escape c =
     (let n = (of_char c :: nat) in
      if n = 34 then [CHR 0x5C, CHR 0x22]
      else if n = 92 then [CHR 0x5C, CHR 0x5C]
      else if n = 8 then [CHR 0x5C, CHR ''b'']
      else if n = 9 then [CHR 0x5C, CHR ''t'']
      else if n = 10 then [CHR 0x5C, CHR ''n'']
      else if n = 12 then [CHR 0x5C, CHR ''f'']
      else if n = 13 then [CHR 0x5C, CHR ''r'']
      else if n < 32 then [CHR 0x5C, CHR ''u'', CHR ''0'', CHR ''0'', hex_char (n div 16), hex_char (n mod 16)]
      else [c])"

definition json_string :: "string \<Rightarrow> string" where
  "json_string s = [CHR 0x22] @ concat (map json_escape s) @ [CHR 0x22]"

fun json_join :: "string list \<Rightarrow> string" where
  "json_join [] = []"
| "json_join [x] = x"
| "json_join (x # xs) = x @ [CHR '',''] @ json_join xs"

definition json_array :: "string list \<Rightarrow> string" where
  "json_array xs = [CHR ''['' ] @ json_join xs @ [CHR '']'']"

text \<open>An object with the given members, each an already printed value.\<close>

definition json_object :: "(string \<times> string) list \<Rightarrow> string" where
  "json_object ms =
     [CHR ''{''] @ json_join (map (\<lambda>(k, v). json_string k @ [CHR '':''] @ v) ms) @ [CHR ''}'']"

lemma json_join_Cons: "xs \<noteq> [] \<Longrightarrow> json_join (x # xs) = x @ [CHR '',''] @ json_join xs"
  by (cases xs) simp_all

lemma json_escape_nonempty: "json_escape c \<noteq> []"
  by (simp add: json_escape_def Let_def)

lemma length_json_escape: "1 \<le> length (json_escape c) \<and> length (json_escape c) \<le> 6"
  by (simp add: json_escape_def Let_def)

section \<open>Characters\<close>

definition js_lower_char :: "char \<Rightarrow> char" where
  "js_lower_char c =
     (let n = (of_char c :: nat) in if 65 \<le> n \<and> n \<le> 90 then char_of (n + 32) else c)"

text \<open>\<open>toLowerCase\<close> for strings of ASCII characters.\<close>

definition js_lower :: "string \<Rightarrow> string" where
  "js_lower s = map js_lower_char s"

lemma js_lower_char_idem: "js_lower_char (js_lower_char c) = js_lower_char c"
  by (auto simp: js_lower_char_def Let_def of_char_of)

lemma js_lower_idem [simp]: "js_lower (js_lower s) = js_lower s"
  by (simp add: js_lower_def js_lower_char_idem)

lemma js_lower_Nil [simp]: "js_lower s = [] \<longleftrightarrow> s = []" "js_lower [] = []"
  by (simp_all add: js_lower_def)

lemma length_js_lower [simp]: "length (js_lower s) = length s"
  by (simp add: js_lower_def)

section \<open>Dates\<close>

fun read2 :: "string \<Rightarrow> (nat \<times> string) option" where
  "read2 (a # b # s) =
     (if is_digit a \<and> is_digit b then Some (10 * digit_value a + digit_value b, s) else None)"
| "read2 s = None"

definition read4 :: "string \<Rightarrow> (nat \<times> string) option" where
  "read4 s = do {
     (hi, s1) \<leftarrow> read2 s;
     (lo, s2) \<leftarrow> read2 s1;
     Some (100 * hi + lo, s2)
   }"

fun read_char :: "char \<Rightarrow> string \<Rightarrow> string option" where
  "read_char c [] = None"
| "read_char c (d # s) = (if c = d then Some s else None)"

fun read_fraction :: "nat \<Rightarrow> nat \<Rightarrow> string \<Rightarrow> nat \<times> string" where
  "read_fraction scale acc [] = (acc, [])"
| "read_fraction scale acc (c # s) =
     (if is_digit c then read_fraction (scale div 10) (acc + scale * digit_value c) s
      else (acc, c # s))"

text \<open>Optional seconds and fraction: the result is milliseconds.\<close>

definition read_seconds :: "string \<Rightarrow> (nat \<times> string) option" where
  "read_seconds s =
     (case read_char (CHR '':'') s of
        None \<Rightarrow> Some (0, s)
      | Some s1 \<Rightarrow>
          (case read2 s1 of
             None \<Rightarrow> None
           | Some (sec, s2) \<Rightarrow>
               if 59 < sec then None
               else (case s2 of
                       c # d # s3 \<Rightarrow>
                         if c = CHR ''.'' \<and> is_digit d
                         then (let (ms, r) = read_fraction 100 0 (d # s3) in Some (1000 * sec + ms, r))
                         else Some (1000 * sec, s2)
                     | _ \<Rightarrow> Some (1000 * sec, s2))))"

text \<open>The zone, as milliseconds to subtract.\<close>

definition read_zone :: "string \<Rightarrow> int option" where
  "read_zone s =
     (case s of
        [] \<Rightarrow> None
      | c # r \<Rightarrow>
          if c = CHR ''Z'' then (if r = [] then Some 0 else None)
          else if c = CHR ''+'' \<or> c = CHR ''-'' then
            do {
              (h, r1) \<leftarrow> read2 r;
              r2 \<leftarrow> read_char (CHR '':'') r1;
              (mi, r3) \<leftarrow> read2 r2;
              if r3 = [] \<and> h \<le> 23 \<and> mi \<le> 59
              then Some ((if c = CHR ''-'' then - 1 else 1) * (int h * 60 + int mi) * 60000)
              else None
            }
          else None)"

definition leap_year :: "int \<Rightarrow> bool" where
  "leap_year y \<longleftrightarrow> y mod 4 = 0 \<and> (y mod 100 \<noteq> 0 \<or> y mod 400 = 0)"

definition days_in_month :: "int \<Rightarrow> int \<Rightarrow> int" where
  "days_in_month y m =
     (if m = 2 then (if leap_year y then 29 else 28)
      else if m = 4 \<or> m = 6 \<or> m = 9 \<or> m = 11 then 30 else 31)"

definition days_from_civil :: "int \<Rightarrow> int \<Rightarrow> int \<Rightarrow> int" where
  "days_from_civil y m d =
     (let y1 = (if m \<le> 2 then y - 1 else y);
          era = y1 div 400;
          yoe = y1 mod 400;
          doy = (153 * (if 2 < m then m - 3 else m + 9) + 2) div 5 + d - 1;
          doe = yoe * 365 + yoe div 4 - yoe div 100 + doy
      in era * 146097 + doe - 719468)"

definition date_parse :: "string \<Rightarrow> int option" where
  "date_parse s = do {
     (y, s1) \<leftarrow> read4 s;
     s2 \<leftarrow> read_char (CHR ''-'') s1;
     (m, s3) \<leftarrow> read2 s2;
     s4 \<leftarrow> read_char (CHR ''-'') s3;
     (d, s5) \<leftarrow> read2 s4;
     s6 \<leftarrow> read_char (CHR ''T'') s5;
     (h, s7) \<leftarrow> read2 s6;
     s8 \<leftarrow> read_char (CHR '':'') s7;
     (mi, s9) \<leftarrow> read2 s8;
     (ms, s10) \<leftarrow> read_seconds s9;
     zone \<leftarrow> read_zone s10;
     if 1 \<le> m \<and> m \<le> 12 \<and> 1 \<le> d \<and> int d \<le> days_in_month (int y) (int m)
        \<and> (h \<le> 23 \<or> h = 24 \<and> mi = 0 \<and> ms = 0) \<and> mi \<le> 59
     then Some (days_from_civil (int y) (int m) (int d) * 86400000
                + int ((h * 60 + mi) * 60000 + ms) - zone)
     else None
   }"

lemmas date_eval = date_parse_def read4_def is_digit_def digit_value_def read_seconds_def
  read_zone_def days_in_month_def days_from_civil_def leap_year_def Let_def

fun pad_left :: "nat \<Rightarrow> string \<Rightarrow> string" where
  "pad_left n s = replicate (n - length s) (CHR ''0'') @ s"

definition civil_from_days :: "int \<Rightarrow> int \<times> int \<times> int" where
  "civil_from_days z0 =
     (let z = z0 + 719468;
          era = z div 146097;
          doe = z mod 146097;
          yoe = (doe - doe div 1460 + doe div 36524 - doe div 146096) div 365;
          y = yoe + era * 400;
          doy = doe - (365 * yoe + yoe div 4 - yoe div 100);
          mp = (5 * doy + 2) div 153;
          d = doy - (153 * mp + 2) div 5 + 1;
          m = (if mp < 10 then mp + 3 else mp - 9)
      in (if m \<le> 2 then y + 1 else y, m, d))"

definition to_iso_string :: "int \<Rightarrow> string" where
  "to_iso_string t =
     (let (y, m, d) = civil_from_days (t div 86400000);
          ms = t mod 86400000;
          num = (\<lambda>n x. pad_left n (show_nat (nat x)));
          year = (if 0 \<le> y \<and> y \<le> 9999 then num 4 y
                  else (if y < 0 then ''-'' else ''+'') @ num 6 \<bar>y\<bar>)
      in year @ ''-'' @ num 2 m @ ''-'' @ num 2 d @ ''T''
         @ num 2 (ms div 3600000) @ '':'' @ num 2 (ms div 60000 mod 60) @ '':''
         @ num 2 (ms div 1000 mod 60) @ ''.'' @ num 3 (ms mod 1000) @ ''Z'')"

end
