(* ===== verification/Task_Protocol.thy ===== *)
theory Task_Protocol
  imports Mesh_Errors Js_Text
begin

text \<open>
  The persisted task record and the start requests with their validation
  (\<open>shared/protocol/models.ts\<close>, \<open>limits.ts\<close>, \<open>constants.ts\<close>, \<open>methods.ts\<close>,
  \<open>nodes.ts\<close>). A record type here is the shape \<open>z.strictObject\<close> demands; the checks that
  go beyond the shape are the Boolean definitions, and a \<open>Schema\<close> function is
  \<open>safeParse\<close>: \<open>None\<close> on failure, else the transformed value.

  The formats that the third-party validator owns, UUIDs and ISO date-times, are the two
  components of the parameter \<open>formats\<close>.
\<close>

section \<open>Limits and formats\<close>

definition taskEventJournalBytes_limit :: nat where "taskEventJournalBytes_limit = 640 * 1024"
definition frameBytes_limit :: nat where "frameBytes_limit = 1048576"

definition utf8String :: "nat \<Rightarrow> nat \<Rightarrow> string \<Rightarrow> bool" where
  "utf8String maxBytes minimumBytes s \<longleftrightarrow> minimumBytes \<le> length s \<and> length s \<le> maxBytes"

record formats =
  fmt_uuid :: "string \<Rightarrow> bool"
  fmt_datetime :: "string \<Rightarrow> bool"

definition uuidSchema :: "formats \<Rightarrow> string \<Rightarrow> string option" where
  "uuidSchema fmt s = (if fmt_uuid fmt s then Some (js_lower s) else None)"

definition is_hex_char :: "char \<Rightarrow> bool" where
  "is_hex_char c \<longleftrightarrow> is_digit c \<or> (97 \<le> (of_char c :: nat) \<and> (of_char c :: nat) \<le> 102)"

definition is_base64url_char :: "char \<Rightarrow> bool" where
  "is_base64url_char c \<longleftrightarrow>
     (let n = (of_char c :: nat) in
        is_digit c \<or> (65 \<le> n \<and> n \<le> 90) \<or> (97 \<le> n \<and> n \<le> 122) \<or> n = 95 \<or> n = 45)"

text \<open>\<open>/^[a-f0-9]{64}$/\<close> and \<open>/^sha256:[A-Za-z0-9_-]{43}$/\<close>.\<close>

definition hash_format :: "string \<Rightarrow> bool" where
  "hash_format s \<longleftrightarrow> length s = 64 \<and> list_all is_hex_char s"

definition workspaceIdentitySchema :: "string \<Rightarrow> bool" where
  "workspaceIdentitySchema s \<longleftrightarrow>
     take 7 s = ''sha256:'' \<and> length s = 50 \<and> list_all is_base64url_char (drop 7 s)"

section \<open>Task records\<close>

datatype task_status =
    Accepted | StartingAgent | Running | NeedsInput | Recovering | Cancelling
  | Completed | Failed | Cancelled | TimedOut

fun status_name :: "task_status \<Rightarrow> string" where
  "status_name Accepted = ''accepted''"
| "status_name StartingAgent = ''startingAgent''"
| "status_name Running = ''running''"
| "status_name NeedsInput = ''needsInput''"
| "status_name Recovering = ''recovering''"
| "status_name Cancelling = ''cancelling''"
| "status_name Completed = ''completed''"
| "status_name Failed = ''failed''"
| "status_name Cancelled = ''cancelled''"
| "status_name TimedOut = ''timedOut''"

definition ACTIVE_TASK_STATUSES :: "task_status list" where
  "ACTIVE_TASK_STATUSES = [Accepted, StartingAgent, Running, NeedsInput, Recovering, Cancelling]"

definition TERMINAL_TASK_STATUSES :: "task_status list" where
  "TERMINAL_TASK_STATUSES = [Completed, Failed, Cancelled, TimedOut]"

abbreviation is_terminal :: "task_status \<Rightarrow> bool" where
  "is_terminal st \<equiv> st \<in> set TERMINAL_TASK_STATUSES"

abbreviation is_active :: "task_status \<Rightarrow> bool" where
  "is_active st \<equiv> st \<in> set ACTIVE_TASK_STATUSES"

lemma active_iff_not_terminal: "is_active st \<longleftrightarrow> \<not> is_terminal st"
  by (cases st) (simp_all add: ACTIVE_TASK_STATUSES_def TERMINAL_TASK_STATUSES_def)

record recovery_descriptor =
  rd_adapter :: string
  rd_sessionId :: string
  rd_conversationId :: "string option"

record pending_input =
  pi_inputId :: string
  pi_prompt :: string

record task_failure =
  tf_code :: string
  tf_message :: string
  tf_retryable :: bool

record event_record =
  ev_eventSeq :: nat
  ev_at :: string
  ev_type :: string
  ev_summary :: "string option"

record routing_target =
  rt_deviceId :: string
  rt_workspaceId :: string
  rt_nodeId :: "string option"
  rt_nodeInstanceId :: "string option"

record v2_fields =
  v2_continueFromTaskId :: "string option"
  v2_target :: routing_target
  v2_sourceNodeId :: "string option"
  v2_sourceWorkspaceIdentity :: "string option"
  v2_timeoutMinutes :: "nat option"

datatype task_schema = SchemaV1 | SchemaV2 v2_fields

record task_record =
  tr_schema :: task_schema
  tr_taskId :: string
  tr_delegationRequestId :: string
  tr_requestHash :: string
  tr_peerId :: string
  tr_workspaceId :: string
  tr_workspaceLeaseKey :: string
  tr_title :: string
  tr_state :: task_status
  tr_createdAt :: string
  tr_updatedAt :: string
  tr_eventSeq :: nat
  tr_workerDeadline :: string
  tr_cancellationDeadline :: "string option"
  tr_pendingInput :: "pending_input option"
  tr_answeredInputs :: "(string, string) jsmap"
  tr_recoveryDescriptor :: "recovery_descriptor option"
  tr_summary :: "string option"
  tr_failure :: "task_failure option"
  tr_events :: "event_record list"
  tr_earliestAvailableEventSeq :: "nat option"
  tr_eventsTruncated :: bool

section \<open>Field checks\<close>

definition opt_all :: "('a \<Rightarrow> bool) \<Rightarrow> 'a option \<Rightarrow> bool" where
  "opt_all P x = (case x of None \<Rightarrow> True | Some a \<Rightarrow> P a)"

definition taskFailureSchema :: "task_failure \<Rightarrow> bool" where
  "taskFailureSchema f \<longleftrightarrow> utf8String 128 1 (tf_code f) \<and> utf8String 2048 1 (tf_message f)"

definition pendingInputSchema :: "formats \<Rightarrow> pending_input \<Rightarrow> bool" where
  "pendingInputSchema fmt p \<longleftrightarrow> fmt_uuid fmt (pi_inputId p) \<and> utf8String 32768 1 (pi_prompt p)"

definition taskEventRecordSchema :: "formats \<Rightarrow> event_record \<Rightarrow> bool" where
  "taskEventRecordSchema fmt e \<longleftrightarrow>
     0 < ev_eventSeq e \<and> fmt_datetime fmt (ev_at e) \<and> utf8String 64 1 (ev_type e)
     \<and> opt_all (utf8String 16384 0) (ev_summary e)"

definition recoveryDescriptorSchema :: "recovery_descriptor \<Rightarrow> bool" where
  "recoveryDescriptorSchema d \<longleftrightarrow>
     utf8String 64 1 (rd_adapter d) \<and> utf8String 128 1 (rd_sessionId d)
     \<and> opt_all (utf8String 128 1) (rd_conversationId d)"

definition persistedTaskRoutingTargetSchema :: "formats \<Rightarrow> routing_target \<Rightarrow> bool" where
  "persistedTaskRoutingTargetSchema fmt t \<longleftrightarrow>
     fmt_uuid fmt (rt_deviceId t) \<and> fmt_uuid fmt (rt_workspaceId t)
     \<and> opt_all (fmt_uuid fmt) (rt_nodeId t) \<and> opt_all (fmt_uuid fmt) (rt_nodeInstanceId t)
     \<and> (rt_nodeId t = None \<longleftrightarrow> rt_nodeInstanceId t = None)"

definition v2_fields_ok :: "formats \<Rightarrow> v2_fields \<Rightarrow> bool" where
  "v2_fields_ok fmt v \<longleftrightarrow>
     opt_all (fmt_uuid fmt) (v2_continueFromTaskId v)
     \<and> persistedTaskRoutingTargetSchema fmt (v2_target v)
     \<and> opt_all (fmt_uuid fmt) (v2_sourceNodeId v)
     \<and> opt_all (utf8String 1024 1) (v2_sourceWorkspaceIdentity v)
     \<and> opt_all (\<lambda>n. 1 \<le> n \<and> n \<le> 60) (v2_timeoutMinutes v)"

definition persistedTaskRecordCommonFields :: "formats \<Rightarrow> task_record \<Rightarrow> bool" where
  "persistedTaskRecordCommonFields fmt r \<longleftrightarrow>
     fmt_uuid fmt (tr_taskId r) \<and> fmt_uuid fmt (tr_delegationRequestId r)
     \<and> hash_format (tr_requestHash r) \<and> fmt_uuid fmt (tr_peerId r)
     \<and> fmt_uuid fmt (tr_workspaceId r) \<and> utf8String 1024 1 (tr_workspaceLeaseKey r)
     \<and> utf8String 256 1 (tr_title r)
     \<and> fmt_datetime fmt (tr_createdAt r) \<and> fmt_datetime fmt (tr_updatedAt r)
     \<and> fmt_datetime fmt (tr_workerDeadline r)
     \<and> opt_all (fmt_datetime fmt) (tr_cancellationDeadline r)
     \<and> opt_all (pendingInputSchema fmt) (tr_pendingInput r)
     \<and> list_all (\<lambda>(k, v). fmt_uuid fmt k \<and> fmt_uuid fmt v) (tr_answeredInputs r)
     \<and> opt_all recoveryDescriptorSchema (tr_recoveryDescriptor r)
     \<and> opt_all (utf8String 16384 0) (tr_summary r)
     \<and> opt_all taskFailureSchema (tr_failure r)
     \<and> list_all (taskEventRecordSchema fmt) (tr_events r)
     \<and> opt_all (\<lambda>n. 0 < n) (tr_earliestAvailableEventSeq r)"

section \<open>State and journal checks\<close>

definition validateTaskState :: "task_record \<Rightarrow> bool" where
  "validateTaskState r \<longleftrightarrow>
     \<not> (tr_state r = NeedsInput \<and> tr_pendingInput r = None)
     \<and> \<not> (tr_pendingInput r \<noteq> None \<and> tr_state r \<noteq> NeedsInput \<and> tr_state r \<noteq> Recovering)
     \<and> (tr_state r = Cancelling \<or> tr_state r = Cancelled) = (tr_cancellationDeadline r \<noteq> None)
     \<and> (tr_state r = Failed \<or> tr_state r = TimedOut) = (tr_failure r \<noteq> None)
     \<and> \<not> (tr_state r = Completed \<and> tr_summary r = None)
     \<and> \<not> (tr_summary r \<noteq> None \<and> tr_state r \<noteq> Completed \<and> tr_state r \<noteq> Cancelled)"

definition event_json :: "event_record \<Rightarrow> string" where
  "event_json e =
     json_object
       ([(''eventSeq'', show_nat (ev_eventSeq e)), (''at'', json_string (ev_at e)),
         (''type'', json_string (ev_type e))]
        @ (case ev_summary e of None \<Rightarrow> [] | Some s \<Rightarrow> [(''summary'', json_string s)]))"

definition events_json :: "event_record list \<Rightarrow> string" where
  "events_json es = json_array (map event_json es)"

definition first_sequence :: "task_record \<Rightarrow> nat" where
  "first_sequence r = (case tr_events r of [] \<Rightarrow> tr_eventSeq r + 1 | e # _ \<Rightarrow> ev_eventSeq e)"

definition validateFullJournal :: "task_record \<Rightarrow> bool" where
  "validateFullJournal r \<longleftrightarrow>
     (if tr_eventsTruncated r then tr_earliestAvailableEventSeq r else Some 1)
        = Some (first_sequence r)
     \<and> \<not> (\<not> tr_eventsTruncated r \<and> tr_earliestAvailableEventSeq r \<noteq> None)
     \<and> \<not> (tr_eventsTruncated r
            \<and> (case tr_earliestAvailableEventSeq r of None \<Rightarrow> 0 | Some n \<Rightarrow> n) \<le> 1)
     \<and> map ev_eventSeq (tr_events r)
         = map (\<lambda>i. first_sequence r + i) [0..<length (tr_events r)]
     \<and> (tr_events r \<noteq> [] \<longrightarrow> ev_eventSeq (last (tr_events r)) = tr_eventSeq r)
     \<and> length (events_json (tr_events r)) \<le> taskEventJournalBytes_limit"

text \<open>The transformation the schema performs: every UUID in lower case.\<close>

definition lower_pending :: "pending_input \<Rightarrow> pending_input" where
  "lower_pending p = p\<lparr>pi_inputId := js_lower (pi_inputId p)\<rparr>"

definition lower_target :: "routing_target \<Rightarrow> routing_target" where
  "lower_target t =
     t\<lparr>rt_deviceId := js_lower (rt_deviceId t), rt_workspaceId := js_lower (rt_workspaceId t),
       rt_nodeId := map_option js_lower (rt_nodeId t),
       rt_nodeInstanceId := map_option js_lower (rt_nodeInstanceId t)\<rparr>"

definition lower_v2 :: "v2_fields \<Rightarrow> v2_fields" where
  "lower_v2 v =
     v\<lparr>v2_continueFromTaskId := map_option js_lower (v2_continueFromTaskId v),
       v2_target := lower_target (v2_target v),
       v2_sourceNodeId := map_option js_lower (v2_sourceNodeId v)\<rparr>"

fun lower_schema :: "task_schema \<Rightarrow> task_schema" where
  "lower_schema SchemaV1 = SchemaV1"
| "lower_schema (SchemaV2 v) = SchemaV2 (lower_v2 v)"

definition lower_answers :: "(string, string) jsmap \<Rightarrow> (string, string) jsmap" where
  "lower_answers m = fold (\<lambda>(k, v). js_set (js_lower k) (js_lower v)) m []"

definition lower_record :: "task_record \<Rightarrow> task_record" where
  "lower_record r =
     r\<lparr>tr_schema := lower_schema (tr_schema r), tr_taskId := js_lower (tr_taskId r),
       tr_delegationRequestId := js_lower (tr_delegationRequestId r),
       tr_peerId := js_lower (tr_peerId r), tr_workspaceId := js_lower (tr_workspaceId r),
       tr_pendingInput := map_option lower_pending (tr_pendingInput r),
       tr_answeredInputs := lower_answers (tr_answeredInputs r)\<rparr>"

definition target_matches_workspace :: "task_record \<Rightarrow> bool" where
  "target_matches_workspace r =
     (case tr_schema r of
        SchemaV1 \<Rightarrow> True
      | SchemaV2 v \<Rightarrow> tr_workspaceId r = rt_workspaceId (v2_target v))"

definition persistedTaskRecordSchema :: "formats \<Rightarrow> task_record \<Rightarrow> task_record option" where
  "persistedTaskRecordSchema fmt r =
     (if persistedTaskRecordCommonFields fmt r
         \<and> (case tr_schema r of SchemaV1 \<Rightarrow> True | SchemaV2 v \<Rightarrow> v2_fields_ok fmt v)
         \<and> validateTaskState (lower_record r) \<and> validateFullJournal (lower_record r)
         \<and> target_matches_workspace (lower_record r)
      then Some (lower_record r) else None)"

section \<open>Start requests\<close>

record task_start =
  ts_delegationRequestId :: string
  ts_taskId :: string
  ts_workspaceId :: string
  ts_title :: string
  ts_prompt :: string
  ts_acceptanceCriteria :: "string list"
  ts_workerDeadline :: string

record task_target =
  tt_deviceId :: string
  tt_nodeId :: string
  tt_nodeInstanceId :: string
  tt_workspaceId :: string

record routed_start =
  rs_delegationRequestId :: string
  rs_taskId :: string
  rs_continueFromTaskId :: "string option"
  rs_target :: task_target
  rs_sourceNodeId :: "string option"
  rs_sourceWorkspaceIdentity :: "string option"
  rs_title :: string
  rs_prompt :: string
  rs_acceptanceCriteria :: "string list"
  rs_timeoutMinutes :: "nat option"
  rs_workerDeadline :: string

definition taskStartParamsSchema :: "formats \<Rightarrow> task_start \<Rightarrow> task_start option" where
  "taskStartParamsSchema fmt p =
     (if fmt_uuid fmt (ts_delegationRequestId p) \<and> fmt_uuid fmt (ts_taskId p)
         \<and> fmt_uuid fmt (ts_workspaceId p)
         \<and> utf8String 256 1 (ts_title p) \<and> utf8String 131072 1 (ts_prompt p)
         \<and> length (ts_acceptanceCriteria p) \<le> 32
         \<and> list_all (utf8String 4096 1) (ts_acceptanceCriteria p)
         \<and> fmt_datetime fmt (ts_workerDeadline p)
      then Some (p\<lparr>ts_delegationRequestId := js_lower (ts_delegationRequestId p),
                   ts_taskId := js_lower (ts_taskId p),
                   ts_workspaceId := js_lower (ts_workspaceId p)\<rparr>)
      else None)"

definition taskTargetSchema :: "formats \<Rightarrow> task_target \<Rightarrow> bool" where
  "taskTargetSchema fmt t \<longleftrightarrow>
     fmt_uuid fmt (tt_deviceId t) \<and> fmt_uuid fmt (tt_nodeId t)
     \<and> fmt_uuid fmt (tt_nodeInstanceId t) \<and> fmt_uuid fmt (tt_workspaceId t)"

definition lower_task_target :: "task_target \<Rightarrow> task_target" where
  "lower_task_target t =
     \<lparr>tt_deviceId = js_lower (tt_deviceId t), tt_nodeId = js_lower (tt_nodeId t),
      tt_nodeInstanceId = js_lower (tt_nodeInstanceId t),
      tt_workspaceId = js_lower (tt_workspaceId t)\<rparr>"

definition routedTaskStartParamsSchema :: "formats \<Rightarrow> routed_start \<Rightarrow> routed_start option" where
  "routedTaskStartParamsSchema fmt p =
     (if fmt_uuid fmt (rs_delegationRequestId p) \<and> fmt_uuid fmt (rs_taskId p)
         \<and> opt_all (fmt_uuid fmt) (rs_continueFromTaskId p)
         \<and> taskTargetSchema fmt (rs_target p)
         \<and> opt_all (fmt_uuid fmt) (rs_sourceNodeId p)
         \<and> opt_all workspaceIdentitySchema (rs_sourceWorkspaceIdentity p)
         \<and> utf8String 256 1 (rs_title p) \<and> utf8String 131072 1 (rs_prompt p)
         \<and> length (rs_acceptanceCriteria p) \<le> 32
         \<and> list_all (utf8String 4096 1) (rs_acceptanceCriteria p)
         \<and> opt_all (\<lambda>n. 1 \<le> n \<and> n \<le> 60) (rs_timeoutMinutes p)
         \<and> fmt_datetime fmt (rs_workerDeadline p)
      then Some (p\<lparr>rs_delegationRequestId := js_lower (rs_delegationRequestId p),
                   rs_taskId := js_lower (rs_taskId p),
                   rs_continueFromTaskId := map_option js_lower (rs_continueFromTaskId p),
                   rs_target := lower_task_target (rs_target p),
                   rs_sourceNodeId := map_option js_lower (rs_sourceNodeId p)\<rparr>)
      else None)"

section \<open>Records that are already normalised\<close>

text \<open>
  A record the program holds is the output of the schema; \<open>record_valid\<close> says that parsing it
  again accepts it and changes nothing.
\<close>

definition record_valid :: "formats \<Rightarrow> task_record \<Rightarrow> bool" where
  "record_valid fmt r \<longleftrightarrow> persistedTaskRecordSchema fmt r = Some r"

definition lower_pairs :: "(string, string) jsmap \<Rightarrow> bool" where
  "lower_pairs m \<longleftrightarrow> (\<forall>(k, v) \<in> set m. js_lower k = k \<and> js_lower v = v)"

lemma fold_js_set_append:
  "distinct (map fst (acc @ m)) \<Longrightarrow> lower_pairs m \<Longrightarrow>
   fold (\<lambda>(k, v). js_set (js_lower k) (js_lower v)) m acc = acc @ m"
proof (induction m arbitrary: acc)
  case Nil
  then show ?case by simp
next
  case (Cons p m)
  obtain k v where p: "p = (k, v)" by (cases p)
  have low: "js_lower k = k" "js_lower v = v" "lower_pairs m"
    using Cons.prems(2) by (auto simp: lower_pairs_def p)
  have "js_set k v acc = acc @ [(k, v)]"
    using Cons.prems(1) by (intro js_set_fresh) (auto simp: p)
  with Cons.IH [of "acc @ [(k, v)]"] Cons.prems(1) low show ?case
    by (simp add: p)
qed

lemma lower_answers_wf: "js_wf (lower_answers m)"
proof -
  have "js_wf acc \<Longrightarrow> js_wf (fold (\<lambda>(k, v). js_set (js_lower k) (js_lower v)) m acc)" for acc
    by (induction m arbitrary: acc) (auto simp: js_map)
  then show ?thesis by (simp add: lower_answers_def js_map)
qed

lemma set_js_set_subset: "set (js_set k v m) \<subseteq> insert (k, v) (set m)"
  by (induction m) auto

lemma lower_pairs_js_set:
  "lower_pairs m \<Longrightarrow> js_lower k = k \<Longrightarrow> js_lower v = v \<Longrightarrow> lower_pairs (js_set k v m)"
  using set_js_set_subset [of k v m] by (fastforce simp: lower_pairs_def)

lemma lower_answers_lower: "lower_pairs (lower_answers m)"
proof -
  have "lower_pairs acc \<Longrightarrow> lower_pairs (fold (\<lambda>(k, v). js_set (js_lower k) (js_lower v)) m acc)" for acc
    by (induction m arbitrary: acc) (auto simp: lower_pairs_js_set)
  from this [of "[]"] show ?thesis by (simp add: lower_answers_def lower_pairs_def)
qed

lemma lower_answers_fixed_iff: "lower_answers m = m \<longleftrightarrow> js_wf m \<and> lower_pairs m"
proof
  assume "lower_answers m = m"
  then show "js_wf m \<and> lower_pairs m"
    using lower_answers_wf [of m] lower_answers_lower [of m] by simp
next
  assume "js_wf m \<and> lower_pairs m"
  then show "lower_answers m = m"
    using fold_js_set_append [of "[]" m] by (simp add: lower_answers_def js_wf_def)
qed

definition lower_fixed :: "task_record \<Rightarrow> bool" where
  "lower_fixed r \<longleftrightarrow>
     lower_schema (tr_schema r) = tr_schema r \<and> js_lower (tr_taskId r) = tr_taskId r
     \<and> js_lower (tr_delegationRequestId r) = tr_delegationRequestId r
     \<and> js_lower (tr_peerId r) = tr_peerId r \<and> js_lower (tr_workspaceId r) = tr_workspaceId r
     \<and> map_option lower_pending (tr_pendingInput r) = tr_pendingInput r
     \<and> js_wf (tr_answeredInputs r) \<and> lower_pairs (tr_answeredInputs r)"

lemma lower_record_fixed_iff: "lower_record r = r \<longleftrightarrow> lower_fixed r"
  by (cases r) (auto simp: lower_record_def lower_fixed_def lower_answers_fixed_iff)

lemma record_valid_iff:
  "record_valid fmt r \<longleftrightarrow>
     lower_fixed r \<and> persistedTaskRecordCommonFields fmt r
     \<and> (case tr_schema r of SchemaV1 \<Rightarrow> True | SchemaV2 v \<Rightarrow> v2_fields_ok fmt v)
     \<and> validateTaskState r \<and> validateFullJournal r \<and> target_matches_workspace r"
proof -
  have "record_valid fmt r \<longleftrightarrow> lower_record r = r \<and> persistedTaskRecordSchema fmt r \<noteq> None"
    by (auto simp: record_valid_def persistedTaskRecordSchema_def)
  then show ?thesis
    by (auto simp: persistedTaskRecordSchema_def lower_record_fixed_iff [symmetric])
qed

text \<open>Documented behaviour of the validator: a date-time it accepts is one \<open>Date.parse\<close> reads.\<close>

definition datetimes_parse :: "formats \<Rightarrow> bool" where
  "datetimes_parse fmt \<longleftrightarrow> (\<forall>s. fmt_datetime fmt s \<longrightarrow> date_parse s \<noteq> None)"

text \<open>
  Documented behaviour of the UUID format: it does not depend on the case of the hexadecimal
  digits, and a UUID consists of hexadecimal digits and dashes, at least one dash among them,
  neither at the start nor at the end and never two in a row.
\<close>

definition uuids_regular :: "formats \<Rightarrow> bool" where
  "uuids_regular fmt \<longleftrightarrow>
     (\<forall>s. fmt_uuid fmt s \<longrightarrow>
        fmt_uuid fmt (js_lower s)
        \<and> list_all (\<lambda>c. is_hex_char (js_lower_char c) \<or> c = CHR ''-'') s
        \<and> s \<noteq> [] \<and> hd s \<noteq> CHR ''-'' \<and> last s \<noteq> CHR ''-''
        \<and> (\<forall>a b. s \<noteq> a @ ''--'' @ b) \<and> CHR ''-'' \<in> set s)"

text \<open>A concrete pair of formats for examples: the canonical 8-4-4-4-12 shape, and \<open>Date.parse\<close>.\<close>

definition uuid_char_at :: "nat \<Rightarrow> char \<Rightarrow> bool" where
  "uuid_char_at i c \<longleftrightarrow>
     (if i = 8 \<or> i = 13 \<or> i = 18 \<or> i = 23 then c = CHR ''-'' else is_hex_char (js_lower_char c))"

fun uuid_from :: "nat \<Rightarrow> string \<Rightarrow> bool" where
  "uuid_from i [] = (i = 36)"
| "uuid_from i (c # cs) = (uuid_char_at i c \<and> uuid_from (i + 1) cs)"

definition uuid_shape :: "string \<Rightarrow> bool" where
  "uuid_shape s \<longleftrightarrow> uuid_from 0 s"

definition sample_formats :: formats where
  "sample_formats = \<lparr>fmt_uuid = uuid_shape, fmt_datetime = (\<lambda>s. date_parse s \<noteq> None)\<rparr>"

lemma uuid_from_iff:
  "uuid_from i s \<longleftrightarrow> i + length s = 36 \<and> (\<forall>j < length s. uuid_char_at (i + j) (s ! j))"
  by (induction i s rule: uuid_from.induct) (auto simp: All_less_Suc2)

lemma uuid_shape_iff: "uuid_shape s \<longleftrightarrow> length s = 36 \<and> (\<forall>i < 36. uuid_char_at i (s ! i))"
  using uuid_from_iff [of 0 s] by (auto simp: uuid_shape_def)

lemma dash_not_hex: "\<not> is_hex_char (js_lower_char (CHR ''-''))"
  by (simp add: is_hex_char_def is_digit_def js_lower_char_def Let_def)

lemma uuid_shape_dash:
  "uuid_shape s \<Longrightarrow> i < 36 \<Longrightarrow> s ! i = CHR ''-'' \<Longrightarrow> i \<in> {8, 13, 18, 23}"
  using dash_not_hex by (auto simp: uuid_shape_iff uuid_char_at_def split: if_splits)

lemma uuid_shape_lower: "uuid_shape s \<Longrightarrow> uuid_shape (js_lower s)"
proof -
  assume s: "uuid_shape s"
  have "js_lower_char (CHR ''-'') = CHR ''-''"
    by (simp add: js_lower_char_def Let_def)
  then have "uuid_char_at i c \<Longrightarrow> uuid_char_at i (js_lower_char c)" for i c
    by (auto simp: uuid_char_at_def js_lower_char_idem)
  with s show ?thesis
    by (simp add: uuid_shape_iff js_lower_def)
qed

lemma sample_uuids_regular: "uuids_regular sample_formats"
proof -
  have "uuid_shape (js_lower s) \<and> list_all (\<lambda>c. is_hex_char (js_lower_char c) \<or> c = CHR ''-'') s
      \<and> s \<noteq> [] \<and> hd s \<noteq> CHR ''-'' \<and> last s \<noteq> CHR ''-''
      \<and> (\<forall>a b. s \<noteq> a @ ''--'' @ b) \<and> CHR ''-'' \<in> set s" if s: "uuid_shape s" for s
  proof (intro conjI allI)
    have len: "length s = 36" using s by (simp add: uuid_shape_iff)
    have "s ! 8 = CHR ''-''"
      using s by (auto simp: uuid_shape_iff uuid_char_at_def dest: spec [of _ 8])
    moreover have "s ! 8 \<in> set s" using len by (intro nth_mem) simp
    ultimately show "CHR ''-'' \<in> set s" by simp
    show "uuid_shape (js_lower s)" by (rule uuid_shape_lower [OF s])
    show "list_all (\<lambda>c. is_hex_char (js_lower_char c) \<or> c = CHR ''-'') s"
      using s by (auto simp: list_all_length uuid_shape_iff uuid_char_at_def split: if_splits)
    show ne: "s \<noteq> []" using len by auto
    show "hd s \<noteq> CHR ''-''"
      using uuid_shape_dash [OF s, of 0] ne by (auto simp: hd_conv_nth)
    show "last s \<noteq> CHR ''-''"
      using uuid_shape_dash [OF s, of 35] ne len by (auto simp: last_conv_nth)
    fix a b
    show "s \<noteq> a @ ''--'' @ b"
    proof
      assume eq: "s = a @ ''--'' @ b"
      then have "s ! length a = CHR ''-''" "s ! Suc (length a) = CHR ''-''" "Suc (length a) < 36"
        using len by (auto simp: nth_append)
      with uuid_shape_dash [OF s, of "length a"] uuid_shape_dash [OF s, of "Suc (length a)"]
      show False by auto
    qed
  qed
  then show ?thesis by (simp add: uuids_regular_def sample_formats_def)
qed

lemma sample_datetimes_parse: "datetimes_parse sample_formats"
  by (simp add: datetimes_parse_def sample_formats_def)

section \<open>A sample record\<close>

definition sample_id :: "char \<Rightarrow> string" where
  "sample_id c =
     [c, c, c, c, c, c, c, c, CHR ''-'', c, c, c, c, CHR ''-'', CHR ''4'', c, c, c, CHR ''-'',
      CHR ''8'', c, c, c, CHR ''-'', c, c, c, c, c, c, c, c, c, c, c, c]"

definition sample_time :: string where
  "sample_time = ''2026-01-01T00:00:00.000Z''"

definition sample_task :: task_record where
  "sample_task =
     \<lparr>tr_schema = SchemaV1, tr_taskId = sample_id (CHR ''a''),
      tr_delegationRequestId = sample_id (CHR ''b''), tr_requestHash = replicate 64 (CHR ''0''),
      tr_peerId = sample_id (CHR ''c''), tr_workspaceId = sample_id (CHR ''d''),
      tr_workspaceLeaseKey = ''lease'', tr_title = ''title'', tr_state = Accepted,
      tr_createdAt = sample_time, tr_updatedAt = sample_time, tr_eventSeq = 0,
      tr_workerDeadline = sample_time, tr_cancellationDeadline = None, tr_pendingInput = None,
      tr_answeredInputs = [], tr_recoveryDescriptor = None, tr_summary = None,
      tr_failure = None, tr_events = [], tr_earliestAvailableEventSeq = None,
      tr_eventsTruncated = False\<rparr>"

lemma hex_lower: "is_hex_char c \<Longrightarrow> js_lower_char c = c"
  by (auto simp: is_hex_char_def is_digit_def js_lower_char_def Let_def)

lemma hex_samples [simp]:
  "is_hex_char (CHR ''a'')" "is_hex_char (CHR ''b'')" "is_hex_char (CHR ''c'')"
  "is_hex_char (CHR ''d'')" "is_hex_char (CHR ''e'')" "is_hex_char (CHR ''f'')"
  "is_hex_char (CHR ''4'')" "is_hex_char (CHR ''8'')" "is_hex_char (CHR ''0'')"
  by (simp_all add: is_hex_char_def is_digit_def)

lemma sample_id_uuid [simp]: "is_hex_char c \<Longrightarrow> fmt_uuid sample_formats (sample_id c)"
  by (simp add: sample_formats_def uuid_shape_def uuid_char_at_def sample_id_def hex_lower)

lemma sample_id_lower [simp]: "is_hex_char c \<Longrightarrow> js_lower (sample_id c) = sample_id c"
  using hex_lower [of c]
  by (simp add: js_lower_def sample_id_def hex_lower) (simp add: js_lower_char_def Let_def)

lemma sample_id_inject [simp]: "sample_id c = sample_id d \<longleftrightarrow> c = d"
  by (simp add: sample_id_def)

lemma sample_time_parses [simp]: "date_parse sample_time = Some 1767225600000"
  by (simp add: sample_time_def date_eval)

lemma sample_time_datetime [simp]: "fmt_datetime sample_formats sample_time"
  by (simp add: sample_formats_def)

lemma sample_task_valid: "record_valid sample_formats sample_task"
  by (simp add: record_valid_iff sample_task_def lower_fixed_def lower_pairs_def js_wf_def
      persistedTaskRecordCommonFields_def utf8String_def opt_all_def hash_format_def
      validateTaskState_def validateFullJournal_def first_sequence_def events_json_def json_array_def
      taskEventJournalBytes_limit_def target_matches_workspace_def list_all_iff)

text \<open>The epoch, as a time that clocks in examples can show.\<close>

lemma show_nat_eval:
  "n < 10 \<Longrightarrow> show_nat n = [digit_char n]"
  "10 \<le> n \<Longrightarrow> show_nat n = show_nat (n div 10) @ [digit_char (n mod 10)]"
  by (subst show_nat.simps, simp)+

lemma civil_epoch: "civil_from_days 0 = (1970, 1, 1)"
  by code_simp

lemma show_nat_epoch: "show_nat 1970 = ''1970''" "show_nat 1 = ''1''" "show_nat 0 = ''0''"
  by (simp_all add: show_nat_eval digit_char_def) code_simp+

lemma show_nat_one: "show_nat (Suc 0) = ''1''"
  using show_nat_epoch by simp

lemma epoch_text: "to_iso_string 0 = ''1970-01-01T00:00:00.000Z''"
  by (simp add: to_iso_string_def civil_epoch show_nat_epoch show_nat_one numeral_2_eq_2)

lemma epoch_datetime: "fmt_datetime sample_formats (to_iso_string 0)"
  by (simp add: sample_formats_def epoch_text date_eval)

end
