(* ===== verification/Task_Journal.thy ===== *)
theory Task_Journal
  imports Task_Protocol
begin

text \<open>
  The bounded event journal of a task (\<open>src/domain/taskEvents.ts\<close>): on every transition,
  write and read, events older than 24 hours and events that do not fit the byte budget are
  dropped from the front. The two loops of the source are \<open>stale_scan\<close> (upwards, finds the
  end of the last unusable event) and \<open>byte_scan\<close> (downwards, stops at the budget).
\<close>

definition TASK_EVENT_RETENTION_MS :: int where
  "TASK_EVENT_RETENTION_MS = 24 * 60 * 60 * 1000"

definition unusable_event :: "int \<Rightarrow> int \<Rightarrow> event_record \<Rightarrow> bool" where
  "unusable_event cutoff eventTime e \<longleftrightarrow>
     eventTime < cutoff \<or> taskEventJournalBytes_limit < length (event_json e) + 2"

fun stale_scan :: "int \<Rightarrow> nat \<Rightarrow> nat \<Rightarrow> event_record list \<Rightarrow> (mesh_error, nat) result" where
  "stale_scan cutoff index retainedStart [] = Inr retainedStart"
| "stale_scan cutoff index retainedStart (e # es) =
     (case date_parse (ev_at e) of
        None \<Rightarrow> Inl Type_Error
      | Some eventTime \<Rightarrow>
          stale_scan cutoff (index + 1)
            (if unusable_event cutoff eventTime e then index + 1 else retainedStart) es)"

fun byte_scan :: "event_record list \<Rightarrow> nat list \<Rightarrow> nat \<Rightarrow> nat \<Rightarrow> nat" where
  "byte_scan events [] retainedBytes byteLimitedStart = byteLimitedStart"
| "byte_scan events (index # rest) retainedBytes byteLimitedStart =
     (let eventBytes = length (event_json (events ! index));
          separatorBytes = (if byteLimitedStart = length events then 0 else 1)
      in if taskEventJournalBytes_limit < retainedBytes + separatorBytes + eventBytes
         then byteLimitedStart
         else byte_scan events rest (retainedBytes + separatorBytes + eventBytes) index)"

definition compactTaskEventJournal :: "task_record \<Rightarrow> string \<Rightarrow> (mesh_error, task_record) result" where
  "compactTaskEventJournal r referenceAt =
     (if tr_events r = [] then
        (if \<not> tr_eventsTruncated r then Inr r
         else if tr_earliestAvailableEventSeq r = Some (tr_eventSeq r + 1) then Inr r
         else Inr (r\<lparr>tr_earliestAvailableEventSeq := Some (tr_eventSeq r + 1)\<rparr>))
      else
        (case date_parse referenceAt of
           None \<Rightarrow> Inl Type_Error
         | Some referenceTime \<Rightarrow>
             bindR (stale_scan (referenceTime - TASK_EVENT_RETENTION_MS) 0 0 (tr_events r))
               (\<lambda>staleStart.
                  let byteLimitedStart =
                        byte_scan (tr_events r) (rev [staleStart..<length (tr_events r)]) 2
                          (length (tr_events r));
                      retainedStart = max staleStart byteLimitedStart;
                      events = drop retainedStart (tr_events r);
                      eventsTruncated = (tr_eventsTruncated r \<or> 0 < retainedStart);
                      earliest = (case events of [] \<Rightarrow> tr_eventSeq r + 1 | e # _ \<Rightarrow> ev_eventSeq e)
                  in if retainedStart = 0
                        \<and> (\<not> eventsTruncated \<or> tr_earliestAvailableEventSeq r = Some earliest)
                     then Inr r
                     else Inr (r\<lparr>tr_events := events, tr_eventsTruncated := True,
                                 tr_earliestAvailableEventSeq := Some earliest\<rparr>))))"

definition taskEventJournalBytes :: "task_record \<Rightarrow> nat" where
  "taskEventJournalBytes r = length (events_json (tr_events r))"

section \<open>Byte lengths\<close>

abbreviation jlen :: "event_record list \<Rightarrow> nat" where
  "jlen es \<equiv> length (events_json es)"

lemma jlen_Nil: "jlen [] = 2"
  by (simp add: events_json_def json_array_def)

lemma jlen_Cons:
  "jlen (e # es) = jlen es + length (event_json e) + (if es = [] then 0 else 1)"
  by (cases es) (simp_all add: events_json_def json_array_def)

lemma jlen_drop_Suc:
  "i < length es \<Longrightarrow>
   jlen (drop i es) =
     jlen (drop (Suc i) es) + length (event_json (es ! i)) + (if Suc i = length es then 0 else 1)"
  by (simp add: Cons_nth_drop_Suc [symmetric] jlen_Cons)

section \<open>The two loops\<close>

text \<open>An event that may stay: parseable, not older than the cutoff, not larger than the journal.\<close>

definition usable :: "int \<Rightarrow> event_record \<Rightarrow> bool" where
  "usable cutoff e \<longleftrightarrow> (\<exists>t. date_parse (ev_at e) = Some t \<and> \<not> unusable_event cutoff t e)"

lemma stale_scan_spec:
  "stale_scan cutoff index s es = Inr m \<Longrightarrow> s \<le> index \<Longrightarrow>
   m \<le> index + length es \<and> s \<le> m
   \<and> (\<forall>i < length es. m \<le> index + i \<longrightarrow> usable cutoff (es ! i))
   \<and> (m = s \<or> (index < m \<and> \<not> usable cutoff (es ! (m - Suc index))))
   \<and> (\<forall>i < length es. date_parse (ev_at (es ! i)) \<noteq> None)"
proof (induction cutoff index s es arbitrary: m rule: stale_scan.induct)
  case (1 cutoff index s)
  then show ?case by simp
next
  case (2 cutoff index s e es)
  from 2 obtain t where t: "date_parse (ev_at e) = Some t"
    by (auto split: option.splits)
  let ?s = "if unusable_event cutoff t e then index + 1 else s"
  from 2 t have IH:
    "m \<le> index + 1 + length es \<and> ?s \<le> m
     \<and> (\<forall>i < length es. m \<le> index + 1 + i \<longrightarrow> usable cutoff (es ! i))
     \<and> (m = ?s \<or> (index + 1 < m \<and> \<not> usable cutoff (es ! (m - Suc (index + 1)))))
     \<and> (\<forall>i < length es. date_parse (ev_at (es ! i)) \<noteq> None)"
    by simp
  have e: "usable cutoff e \<longleftrightarrow> \<not> unusable_event cutoff t e"
    by (simp add: usable_def t)
  have shift: "index + 1 < m \<Longrightarrow> (e # es) ! (m - Suc index) = es ! (m - Suc (index + 1))"
    by (simp add: Suc_diff_Suc [symmetric] del: Suc_diff_Suc)
  have all: "\<forall>i < length (e # es). m \<le> index + i \<longrightarrow> usable cutoff ((e # es) ! i)"
  proof (intro allI impI)
    fix i assume "i < length (e # es)" "m \<le> index + i"
    then show "usable cutoff ((e # es) ! i)"
      using IH e by (cases i) (auto split: if_splits)
  qed
  have parse: "\<forall>i < length (e # es). date_parse (ev_at ((e # es) ! i)) \<noteq> None"
    using IH t by (auto simp: less_Suc_eq_0_disj)
  have bad: "m = s \<or> (index < m \<and> \<not> usable cutoff ((e # es) ! (m - Suc index)))"
    using IH e shift by (auto split: if_splits)
  show ?case
    using IH all parse bad "2.prems"(2) by (auto split: if_splits)
qed

lemma byte_scan_spec:
  assumes "lo \<le> s" "s \<le> length evs" "jlen (drop s evs) \<le> taskEventJournalBytes_limit"
  shows "lo \<le> byte_scan evs (rev [lo..<s]) (jlen (drop s evs)) s
       \<and> byte_scan evs (rev [lo..<s]) (jlen (drop s evs)) s \<le> s
       \<and> jlen (drop (byte_scan evs (rev [lo..<s]) (jlen (drop s evs)) s) evs) \<le> taskEventJournalBytes_limit
       \<and> (byte_scan evs (rev [lo..<s]) (jlen (drop s evs)) s = lo
          \<or> taskEventJournalBytes_limit
              < jlen (drop (byte_scan evs (rev [lo..<s]) (jlen (drop s evs)) s - 1) evs))"
  using assms
proof (induction s)
  case 0
  then show ?case by simp
next
  case (Suc s)
  show ?case
  proof (cases "lo = Suc s")
    case True
    with Suc.prems show ?thesis by simp
  next
    case False
    with Suc.prems have lo: "lo \<le> s" and s: "s < length evs" by simp_all
    have len: "jlen (drop s evs) =
      jlen (drop (Suc s) evs) + (if Suc s = length evs then 0 else 1) + length (event_json (evs ! s))"
      using jlen_drop_Suc [OF s] by simp
    have rev: "rev [lo..<Suc s] = s # rev [lo..<s]"
      using lo by simp
    show ?thesis
    proof (cases "taskEventJournalBytes_limit < jlen (drop s evs)")
      case True
      then have "byte_scan evs (rev [lo..<Suc s]) (jlen (drop (Suc s) evs)) (Suc s) = Suc s"
        using len by (simp only: rev) (simp add: Let_def)
      with True lo Suc.prems show ?thesis by simp
    next
      case False
      then have "byte_scan evs (rev [lo..<Suc s]) (jlen (drop (Suc s) evs)) (Suc s)
                 = byte_scan evs (rev [lo..<s]) (jlen (drop s evs)) s"
        using len by (simp only: rev) (simp add: Let_def)
      with Suc.IH [OF lo] s False show ?thesis by simp
    qed
  qed
qed

lemma byte_scan_start:
  assumes "lo \<le> length evs"
  defines "k \<equiv> byte_scan evs (rev [lo..<length evs]) 2 (length evs)"
  shows "lo \<le> k" "k \<le> length evs" "jlen (drop k evs) \<le> taskEventJournalBytes_limit"
    "k = lo \<or> taskEventJournalBytes_limit < jlen (drop (k - 1) evs)"
  using byte_scan_spec [of lo "length evs" evs] assms
  by (simp_all add: jlen_Nil taskEventJournalBytes_limit_def)

section \<open>What the compaction keeps\<close>

text \<open>
  The specification: a suffix may stay when each of its events is usable and its serialised
  form fits the budget. The compaction keeps the longest such suffix.
\<close>

definition journal_fits :: "int \<Rightarrow> event_record list \<Rightarrow> bool" where
  "journal_fits cutoff es \<longleftrightarrow>
     (\<forall>e \<in> set es. usable cutoff e) \<and> jlen es \<le> taskEventJournalBytes_limit"

definition longest_fitting :: "int \<Rightarrow> event_record list \<Rightarrow> nat \<Rightarrow> bool" where
  "longest_fitting cutoff es k \<longleftrightarrow>
     k \<le> length es \<and> journal_fits cutoff (drop k es)
     \<and> (k = 0 \<or> \<not> journal_fits cutoff (drop (k - 1) es))"

lemma scans_longest_fitting:
  assumes "stale_scan cutoff 0 0 es = Inr m"
  defines "k \<equiv> max m (byte_scan es (rev [m..<length es]) 2 (length es))"
  shows "longest_fitting cutoff es k"
proof -
  from stale_scan_spec [OF assms(1)] have m: "m \<le> length es"
    and ok: "\<forall>i < length es. m \<le> i \<longrightarrow> usable cutoff (es ! i)"
    and bad: "m = 0 \<or> \<not> usable cutoff (es ! (m - 1))"
    by auto
  note b = byte_scan_start [OF m]
  have k: "k = byte_scan es (rev [m..<length es]) 2 (length es)"
    using b(1) by (simp add: k_def)
  have all: "\<forall>e \<in> set (drop k es). usable cutoff e"
  proof
    fix e assume "e \<in> set (drop k es)"
    then obtain i where "i < length (drop k es)" "drop k es ! i = e"
      by (auto simp: in_set_conv_nth)
    then show "usable cutoff e"
      using ok b(1) k by (auto simp: less_diff_conv)
  qed
  have "k = 0 \<or> \<not> journal_fits cutoff (drop (k - 1) es)"
  proof (cases "k = m")
    case True
    then show ?thesis
      using bad m by (cases m) (auto simp: journal_fits_def Cons_nth_drop_Suc [symmetric])
  next
    case False
    with b(4) k show ?thesis by (simp add: journal_fits_def)
  qed
  with all b k show ?thesis
    by (simp add: longest_fitting_def journal_fits_def)
qed

text \<open>The two shapes of a result that differ from the input only in the journal fields.\<close>

definition retain_from :: "nat \<Rightarrow> task_record \<Rightarrow> task_record" where
  "retain_from k r =
     (let events = drop k (tr_events r) in
      r\<lparr>tr_events := events, tr_eventsTruncated := True,
        tr_earliestAvailableEventSeq :=
          Some (case events of [] \<Rightarrow> tr_eventSeq r + 1 | e # _ \<Rightarrow> ev_eventSeq e)\<rparr>)"

definition retained_start :: "int \<Rightarrow> event_record list \<Rightarrow> (mesh_error, nat) result" where
  "retained_start cutoff es =
     bindR (stale_scan cutoff 0 0 es)
       (\<lambda>m. Inr (max m (byte_scan es (rev [m..<length es]) 2 (length es))))"

lemma compact_nonempty:
  assumes "tr_events r \<noteq> []"
  shows "compactTaskEventJournal r at =
    (case date_parse at of
       None \<Rightarrow> Inl Type_Error
     | Some t \<Rightarrow>
         bindR (retained_start (t - TASK_EVENT_RETENTION_MS) (tr_events r))
           (\<lambda>k. if k = 0 \<and> (\<not> tr_eventsTruncated r
                     \<or> tr_earliestAvailableEventSeq r = tr_earliestAvailableEventSeq (retain_from k r))
                then Inr r else Inr (retain_from k r)))"
proof (cases "date_parse at")
  case None
  with assms show ?thesis by (simp add: compactTaskEventJournal_def)
next
  case (Some t)
  show ?thesis
  proof (cases "stale_scan (t - TASK_EVENT_RETENTION_MS) 0 0 (tr_events r)")
    case (Inl e)
    with Some assms show ?thesis by (simp add: compactTaskEventJournal_def retained_start_def)
  next
    case (Inr m)
    define k where "k = max m (byte_scan (tr_events r) (rev [m..<length (tr_events r)]) 2
      (length (tr_events r)))"
    from assms have "compactTaskEventJournal r at =
      (if k = 0 \<and> (\<not> (tr_eventsTruncated r \<or> 0 < k)
          \<or> tr_earliestAvailableEventSeq r = tr_earliestAvailableEventSeq (retain_from k r))
       then Inr r else Inr (retain_from k r))"
      by (simp only: compactTaskEventJournal_def Some Inr bindR_simps option.case Let_def
          k_def [symmetric] if_False) (simp add: retain_from_def Let_def)
    moreover have "retained_start (t - TASK_EVENT_RETENTION_MS) (tr_events r) = Inr k"
      by (simp add: retained_start_def Inr k_def)
    ultimately show ?thesis
      by (simp add: Some)
  qed
qed

lemma retained_start_longest:
  "retained_start cutoff es = Inr k \<Longrightarrow> longest_fitting cutoff es k"
  using scans_longest_fitting by (auto simp: retained_start_def bindR_Inr_conv)

lemma compact_cases:
  assumes "compactTaskEventJournal r at = Inr r'" "tr_events r \<noteq> []"
  obtains t k where "date_parse at = Some t"
    "longest_fitting (t - TASK_EVENT_RETENTION_MS) (tr_events r) k"
    "tr_events r' = drop k (tr_events r)"
    "r' = r \<and> k = 0 \<or> r' = retain_from k r \<and> (k = 0 \<longrightarrow> tr_eventsTruncated r)"
    "k = 0 \<and> \<not> tr_eventsTruncated r \<longrightarrow> r' = r"
proof -
  from assms obtain t k where t: "date_parse at = Some t"
    and k: "retained_start (t - TASK_EVENT_RETENTION_MS) (tr_events r) = Inr k"
    and r': "r' = r \<and> k = 0 \<or> r' = retain_from k r \<and> (k = 0 \<longrightarrow> tr_eventsTruncated r)"
    unfolding compact_nonempty [OF assms(2)]
    by (auto simp: bindR_Inr_conv split: option.splits if_splits)
  show ?thesis
    by (rule that [OF t retained_start_longest [OF k] _ r'])
      (use r' in \<open>auto simp: retain_from_def Let_def\<close>)
qed

lemma compact_forms:
  assumes "compactTaskEventJournal r at = Inr r'"
  shows "r' = r\<lparr>tr_events := tr_events r', tr_eventsTruncated := tr_eventsTruncated r',
    tr_earliestAvailableEventSeq := tr_earliestAvailableEventSeq r'\<rparr>"
proof (cases "tr_events r = []")
  case True
  with assms show ?thesis
    by (auto simp: compactTaskEventJournal_def split: if_splits)
next
  case False
  show ?thesis
    by (rule compact_cases [OF assms False]) (auto simp: retain_from_def Let_def)
qed

lemma compact_frame:
  assumes "compactTaskEventJournal r at = Inr r'"
  shows "tr_state r' = tr_state r" "tr_eventSeq r' = tr_eventSeq r"
    "tr_taskId r' = tr_taskId r" "tr_peerId r' = tr_peerId r"
    "tr_pendingInput r' = tr_pendingInput r" "tr_answeredInputs r' = tr_answeredInputs r"
    "tr_cancellationDeadline r' = tr_cancellationDeadline r" "tr_failure r' = tr_failure r"
    "tr_summary r' = tr_summary r" "tr_updatedAt r' = tr_updatedAt r"
    "tr_schema r' = tr_schema r" "tr_delegationRequestId r' = tr_delegationRequestId r"
    "tr_requestHash r' = tr_requestHash r" "tr_workspaceId r' = tr_workspaceId r"
    "tr_workspaceLeaseKey r' = tr_workspaceLeaseKey r" "tr_title r' = tr_title r"
    "tr_createdAt r' = tr_createdAt r" "tr_workerDeadline r' = tr_workerDeadline r"
    "tr_recoveryDescriptor r' = tr_recoveryDescriptor r"
  by (subst compact_forms [OF assms], simp)+

text \<open>
  The identity test \<open>compacted === record\<close> of the callers: the compaction builds a new
  object only when it changes a field, so structural equality decides it.
\<close>

lemma compact_shortens_iff:
  assumes "compactTaskEventJournal r at = Inr r'"
  shows "r' = r \<longleftrightarrow> tr_events r' = tr_events r
    \<and> tr_earliestAvailableEventSeq r' = tr_earliestAvailableEventSeq r
    \<and> tr_eventsTruncated r' = tr_eventsTruncated r"
  using compact_frame [OF assms] by (cases r, cases r') auto

section \<open>The journal invariant\<close>

text \<open>\<open>validateFullJournal\<close> without the byte budget: a contiguous suffix ending at the newest event.\<close>

definition journal_shape :: "task_record \<Rightarrow> bool" where
  "journal_shape r \<longleftrightarrow>
     (if tr_eventsTruncated r then tr_earliestAvailableEventSeq r else Some 1)
        = Some (first_sequence r)
     \<and> (tr_eventsTruncated r \<or> tr_earliestAvailableEventSeq r = None)
     \<and> (tr_eventsTruncated r \<longrightarrow> 1 < first_sequence r)
     \<and> map ev_eventSeq (tr_events r) = [first_sequence r..<first_sequence r + length (tr_events r)]
     \<and> first_sequence r + length (tr_events r) = tr_eventSeq r + 1"

lemma map_add_upt': "map (\<lambda>i. a + i) [0..<n] = [a..<a + n]"
  by (induction n) simp_all

lemma last_seq_conv:
  assumes "map ev_eventSeq es = [a..<a + length es]" "es \<noteq> []"
  shows "ev_eventSeq (last es) = n \<longleftrightarrow> a + length es = n + 1"
proof -
  have "ev_eventSeq (last es) = last (map ev_eventSeq es)"
    using assms(2) by (simp add: last_map)
  also have "\<dots> = a + length es - 1"
    using assms by (simp add: last_conv_nth) (cases es; simp)
  finally show ?thesis using assms(2) by (cases es) auto
qed

lemma validateFullJournal_iff:
  "validateFullJournal r \<longleftrightarrow>
     journal_shape r \<and> jlen (tr_events r) \<le> taskEventJournalBytes_limit"
proof (cases "tr_events r")
  case Nil
  then show ?thesis
    by (auto simp: validateFullJournal_def journal_shape_def first_sequence_def split: option.splits)
next
  case (Cons e es)
  then show ?thesis
    using last_seq_conv [of "tr_events r" "first_sequence r" "tr_eventSeq r"]
    by (auto simp: validateFullJournal_def journal_shape_def map_add_upt' split: option.splits)
qed

lemma first_sequence_drop:
  assumes "journal_shape r" "k \<le> length (tr_events r)"
  shows "(case drop k (tr_events r) of [] \<Rightarrow> tr_eventSeq r + 1 | e # _ \<Rightarrow> ev_eventSeq e)
         = first_sequence r + k"
proof (cases "k = length (tr_events r)")
  case True
  with assms show ?thesis by (simp add: journal_shape_def)
next
  case False
  with assms(2) have k: "k < length (tr_events r)" by simp
  then have "map ev_eventSeq (tr_events r) ! k = first_sequence r + k"
    using assms(1) k by (simp only: journal_shape_def) (simp add: nth_upt del: upt_Suc nth_map length_map)
  with k show ?thesis by (simp add: Cons_nth_drop_Suc [symmetric])
qed

lemma retain_from_shape:
  assumes shape: "journal_shape r" and k: "k \<le> length (tr_events r)"
    and cut: "k = 0 \<longrightarrow> tr_eventsTruncated r"
  shows "journal_shape (retain_from k r)"
proof -
  note f = first_sequence_drop [OF shape k]
  have first: "first_sequence (retain_from k r) = first_sequence r + k"
    using f by (cases "drop k (tr_events r)") (simp_all add: first_sequence_def retain_from_def Let_def)
  have all: "map ev_eventSeq (tr_events r) = [first_sequence r..<first_sequence r + length (tr_events r)]"
    using shape by (simp only: journal_shape_def)
  have seqs: "map ev_eventSeq (drop k (tr_events r))
    = [first_sequence r + k..<first_sequence r + length (tr_events r)]"
    by (simp only: drop_map [symmetric] all drop_upt)
  have one: "1 \<le> first_sequence r"
    using shape by (auto simp: journal_shape_def split: if_splits)
  have "1 < first_sequence r + k"
    using cut shape one by (cases "k = 0") (auto simp: journal_shape_def)
  with first seqs f shape k show ?thesis
    by (simp add: journal_shape_def retain_from_def Let_def)
qed

lemma compact_valid:
  assumes "journal_shape r" "compactTaskEventJournal r at = Inr r'"
  shows "validateFullJournal r'"
proof (cases "tr_events r = []")
  case True
  with assms have "r' = r"
    by (auto simp: compactTaskEventJournal_def journal_shape_def first_sequence_def split: if_splits)
  with True assms show ?thesis
    by (simp add: validateFullJournal_iff jlen_Nil taskEventJournalBytes_limit_def)
next
  case False
  from compact_cases [OF assms(2) False] obtain t k where
    lf: "longest_fitting (t - TASK_EVENT_RETENTION_MS) (tr_events r) k"
    and ev: "tr_events r' = drop k (tr_events r)"
    and r': "r' = r \<and> k = 0 \<or> r' = retain_from k r \<and> (k = 0 \<longrightarrow> tr_eventsTruncated r)"
    by metis
  have "journal_shape r'"
    using r' assms(1) retain_from_shape lf by (auto simp: longest_fitting_def)
  with lf ev show ?thesis
    by (simp add: validateFullJournal_iff longest_fitting_def journal_fits_def)
qed

section \<open>A sample journal\<close>

definition sample_event :: "nat \<Rightarrow> string \<Rightarrow> event_record" where
  "sample_event n at = \<lparr>ev_eventSeq = n, ev_at = at, ev_type = ''output'', ev_summary = None\<rparr>"

definition sample_late :: string where
  "sample_late = ''2026-01-03T00:00:00.000Z''"

lemma sample_late_parses [simp]: "date_parse sample_late = Some 1767398400000"
  by (simp add: sample_late_def date_eval)

text \<open>Two events two days apart: the first one is stale when the second is written.\<close>

definition stale_task :: task_record where
  "stale_task = sample_task\<lparr>tr_state := Running, tr_eventSeq := 2,
     tr_events := [sample_event 1 sample_time, sample_event 2 sample_late]\<rparr>"

definition compacted_task :: task_record where
  "compacted_task = stale_task\<lparr>tr_events := [sample_event 2 sample_late],
     tr_eventsTruncated := True, tr_earliestAvailableEventSeq := Some 2\<rparr>"

lemmas json_eval = json_object_def json_string_def json_escape_def show_nat.simps Let_def

lemma sample_event_size:
  "length (event_json (sample_event 1 sample_time)) = 62"
  "length (event_json (sample_event 2 sample_late)) = 62"
  by (simp_all add: event_json_def sample_event_def sample_time_def sample_late_def json_eval)

lemma stale_task_compacts: "compactTaskEventJournal stale_task sample_late = Inr compacted_task"
  by (simp add: compactTaskEventJournal_def compacted_task_def stale_task_def sample_task_def
      sample_event_def unusable_event_def TASK_EVENT_RETENTION_MS_def taskEventJournalBytes_limit_def
      sample_event_size [unfolded sample_event_def] Let_def upt_rec)

section \<open>Properties\<close>

lemma longest_fitting_unique:
  assumes "longest_fitting c es k" "longest_fitting c es j" "j \<le> length es"
  shows "k \<le> j"
proof (rule ccontr)
  assume "\<not> k \<le> j"
  then have jk: "j \<le> k - 1" and k: "k \<noteq> 0" by simp_all
  have fits: "journal_fits c (drop i es)" if "j \<le> i" "i \<le> length es" for i
    using that
  proof (induction i)
    case 0
    with assms(2) show ?case by (simp add: longest_fitting_def)
  next
    case (Suc i)
    show ?case
    proof (cases "j = Suc i")
      case True
      with assms(2) show ?thesis by (simp add: longest_fitting_def)
    next
      case False
      with Suc have "journal_fits c (drop i es)" "i < length es" by simp_all
      then show ?thesis
        using jlen_drop_Suc [of i es]
        by (auto simp: journal_fits_def Cons_nth_drop_Suc [symmetric])
    qed
  qed
  from assms(1) k have "\<not> journal_fits c (drop (k - 1) es)" "k \<le> length es"
    by (simp_all add: longest_fitting_def)
  with fits [OF jk] show False by simp
qed

lemma stale_scan_parseable:
  "\<forall>e \<in> set es. date_parse (ev_at e) \<noteq> None \<Longrightarrow> \<exists>m. stale_scan c i s es = Inr m"
  by (induction c i s es rule: stale_scan.induct) auto

lemma usable_parseable: "usable c e \<Longrightarrow> date_parse (ev_at e) \<noteq> None"
  by (auto simp: usable_def)

lemma fitting_retained_start:
  assumes "journal_fits c es"
  shows "retained_start c es = Inr 0"
proof -
  have "\<forall>e \<in> set es. date_parse (ev_at e) \<noteq> None"
    using assms usable_parseable by (auto simp: journal_fits_def)
  from stale_scan_parseable [OF this] obtain k where k: "retained_start c es = Inr k"
    unfolding retained_start_def by (metis bindR_simps(2))
  have "k \<le> 0"
    by (rule longest_fitting_unique [OF retained_start_longest [OF k]])
      (use assms in \<open>simp_all add: longest_fitting_def\<close>)
  with k show ?thesis by simp
qed

text \<open>
  C14. Compaction keeps exactly the longest suffix of the journal whose events are all
  parseable, at most 24 hours older than the reference time and small enough, and whose
  serialised form fits the 640 KiB budget; no other cut has that property.
\<close>
theorem compaction_keeps_longest_usable_suffix:
  assumes "compactTaskEventJournal r at = Inr r'" and "tr_events r \<noteq> []"
  shows "\<exists>t k. date_parse at = Some t \<and> tr_events r' = drop k (tr_events r)
    \<and> longest_fitting (t - TASK_EVENT_RETENTION_MS) (tr_events r) k
    \<and> (\<forall>j. longest_fitting (t - TASK_EVENT_RETENTION_MS) (tr_events r) j \<longrightarrow> j = k)"
proof -
  from compact_cases [OF assms] obtain t k where t: "date_parse at = Some t"
    and lf: "longest_fitting (t - TASK_EVENT_RETENTION_MS) (tr_events r) k"
    and ev: "tr_events r' = drop k (tr_events r)"
    by metis
  have "j = k" if "longest_fitting (t - TASK_EVENT_RETENTION_MS) (tr_events r) j" for j
    using longest_fitting_unique [OF lf that] longest_fitting_unique [OF that lf] that lf
    by (simp add: longest_fitting_def)
  with t lf ev show ?thesis by blast
qed

lemma compaction_keeps_witness:
  "\<exists>t k. date_parse sample_late = Some t \<and> tr_events compacted_task = drop k (tr_events stale_task)
    \<and> longest_fitting (t - TASK_EVENT_RETENTION_MS) (tr_events stale_task) k
    \<and> (\<forall>j. longest_fitting (t - TASK_EVENT_RETENTION_MS) (tr_events stale_task) j \<longrightarrow> j = k)"
  by (rule compaction_keeps_longest_usable_suffix [OF stale_task_compacts]) (simp add: stale_task_def)

text \<open>
  C24. Compaction is idempotent: compacting a compacted record at the same reference time
  returns that very record, so a read followed by a read never rewrites the file twice.
\<close>
theorem compaction_idempotent:
  assumes "compactTaskEventJournal r at = Inr r'"
  shows "compactTaskEventJournal r' at = Inr r'"
proof (cases "tr_events r = []")
  case True
  with assms show ?thesis
    by (auto simp: compactTaskEventJournal_def split: if_splits)
next
  case False
  note ne = False
  from compact_cases [OF assms ne] obtain t k where t: "date_parse at = Some t"
    and lf: "longest_fitting (t - TASK_EVENT_RETENTION_MS) (tr_events r) k"
    and ev: "tr_events r' = drop k (tr_events r)"
    and r': "r' = r \<and> k = 0 \<or> r' = retain_from k r \<and> (k = 0 \<longrightarrow> tr_eventsTruncated r)"
    by metis
  show ?thesis
  proof (cases "r' = r")
    case True
    with assms show ?thesis by simp
  next
    case False
    with r' have rf: "r' = retain_from k r" by simp
    have again: "retain_from 0 r' = r'"
      by (cases "drop k (tr_events r)") (simp_all add: rf retain_from_def Let_def)
    show ?thesis
    proof (cases "tr_events r' = []")
      case True
      then show ?thesis
        by (simp add: compactTaskEventJournal_def rf retain_from_def Let_def)
    next
      case False
      have "journal_fits (t - TASK_EVENT_RETENTION_MS) (tr_events r')"
        using lf by (simp add: ev longest_fitting_def)
      then show ?thesis
        by (simp add: compact_nonempty [OF False] t fitting_retained_start again)
    qed
  qed
qed

lemma compaction_idempotent_witness:
  "compactTaskEventJournal compacted_task sample_late = Inr compacted_task \<and> compacted_task \<noteq> stale_task"
  using compaction_idempotent [OF stale_task_compacts]
  by (simp add: compacted_task_def stale_task_def sample_task_def)

end
