(* ===== verification/Task_Reducer.thy ===== *)
theory Task_Reducer
  imports Task_Journal
begin

text \<open>
  The task state machine (\<open>src/domain/taskReducer.ts\<close>). \<open>taskReducer\<close> is the source's
  \<open>switch\<close>, one equation per event; a thrown error is \<open>Inl\<close>. The abstract life cycle
  \<open>lifecycle_step\<close> is the graph of states a task may move through, and the reducer is shown to
  refine it.
\<close>

section \<open>Events\<close>

datatype summary_kind = Progress | Output | OutputTruncated | Tool | Terminal

datatype domain_event =
    AgentStartRequested string
  | AgentStarted string "recovery_descriptor option"
  | SummaryEvent summary_kind string string
  | InputRequired string string string
  | InputAnswered string string string
  | RecoveryStarted string
  | CancelRequested string string
  | CancelConfirmed string "string option"
  | CompletedEvent string string
  | FailedEvent string string string bool
  | TimedOutEvent string string

fun event_at :: "domain_event \<Rightarrow> string" where
  "event_at (AgentStartRequested at) = at"
| "event_at (AgentStarted at _) = at"
| "event_at (SummaryEvent _ at _) = at"
| "event_at (InputRequired at _ _) = at"
| "event_at (InputAnswered at _ _) = at"
| "event_at (RecoveryStarted at) = at"
| "event_at (CancelRequested at _) = at"
| "event_at (CancelConfirmed at _) = at"
| "event_at (CompletedEvent at _) = at"
| "event_at (FailedEvent at _ _ _) = at"
| "event_at (TimedOutEvent at _) = at"

fun summary_kind_name :: "summary_kind \<Rightarrow> string" where
  "summary_kind_name Progress = ''progress''"
| "summary_kind_name Output = ''output''"
| "summary_kind_name OutputTruncated = ''outputTruncated''"
| "summary_kind_name Tool = ''tool''"
| "summary_kind_name Terminal = ''terminal''"

fun event_type :: "domain_event \<Rightarrow> string" where
  "event_type (AgentStartRequested _) = ''agentStartRequested''"
| "event_type (AgentStarted _ _) = ''agentStarted''"
| "event_type (SummaryEvent k _ _) = summary_kind_name k"
| "event_type (InputRequired _ _ _) = ''inputRequired''"
| "event_type (InputAnswered _ _ _) = ''inputAnswered''"
| "event_type (RecoveryStarted _) = ''recoveryStarted''"
| "event_type (CancelRequested _ _) = ''cancelRequested''"
| "event_type (CancelConfirmed _ _) = ''cancelConfirmed''"
| "event_type (CompletedEvent _ _) = ''completed''"
| "event_type (FailedEvent _ _ _ _) = ''failed''"
| "event_type (TimedOutEvent _ _) = ''timedOut''"

section \<open>The reducer\<close>

definition requireState ::
  "task_record \<Rightarrow> domain_event \<Rightarrow> task_status list \<Rightarrow> (mesh_error, task_record) result" where
  "requireState r e allowed =
     (if tr_state r \<in> set allowed then Inr r
      else Inl (Invalid_Task_Transition (status_name (tr_state r)) (event_type e)))"

definition assertActive :: "task_record \<Rightarrow> domain_event \<Rightarrow> (mesh_error, task_record) result" where
  "assertActive r e =
     (if is_active (tr_state r) then Inr r
      else Inl (Invalid_Task_Transition (status_name (tr_state r)) (event_type e)))"

text \<open>
  \<open>{...record, ...changes, updatedAt, eventSeq, events}\<close>: the changes are applied to the record
  first; the sequence number and the journal come from the record itself.
\<close>

definition transition_record ::
  "task_record \<Rightarrow> domain_event \<Rightarrow> (task_record \<Rightarrow> task_record) \<Rightarrow> string option \<Rightarrow> task_record" where
  "transition_record r e changes summary =
     (changes r)\<lparr>tr_updatedAt := event_at e,
       tr_eventSeq := tr_eventSeq r + 1,
       tr_events := tr_events r @
         [\<lparr>ev_eventSeq = tr_eventSeq r + 1, ev_at = event_at e, ev_type = event_type e,
           ev_summary = summary\<rparr>]\<rparr>"

definition transition ::
  "task_record \<Rightarrow> domain_event \<Rightarrow> (task_record \<Rightarrow> task_record) \<Rightarrow> string option
     \<Rightarrow> (mesh_error, task_record) result" where
  "transition r e changes summary =
     compactTaskEventJournal (transition_record r e changes summary) (event_at e)"

fun taskReducer :: "task_record \<Rightarrow> domain_event \<Rightarrow> (mesh_error, task_record) result" where
  "taskReducer r e =
    (if is_terminal (tr_state r) then Inr r
     else case e of
       AgentStartRequested at \<Rightarrow>
         bindR (requireState r e [Accepted])
           (\<lambda>r. transition r e (\<lambda>r. r\<lparr>tr_state := StartingAgent\<rparr>) None)
     | AgentStarted at recoveryDescriptor \<Rightarrow>
         bindR (requireState r e [StartingAgent, Recovering])
           (\<lambda>r. transition r e
             (\<lambda>r. r\<lparr>tr_state := (if tr_state r = Recovering \<and> tr_pendingInput r \<noteq> None
                                then NeedsInput else Running),
                    tr_recoveryDescriptor :=
                      (case recoveryDescriptor of None \<Rightarrow> tr_recoveryDescriptor r | Some d \<Rightarrow> Some d)\<rparr>)
             None)
     | SummaryEvent kind at summary \<Rightarrow>
         bindR (requireState r e [Running, NeedsInput, Recovering, Cancelling])
           (\<lambda>r. transition r e (\<lambda>r. r) (Some summary))
     | InputRequired at inputId prompt \<Rightarrow>
         bindR (requireState r e [Running, NeedsInput])
           (\<lambda>r. transition r e
             (\<lambda>r. r\<lparr>tr_state := NeedsInput,
                    tr_pendingInput := Some \<lparr>pi_inputId = inputId, pi_prompt = prompt\<rparr>\<rparr>) None)
     | InputAnswered at inputId answerId \<Rightarrow>
         (if js_get (tr_answeredInputs r) inputId = Some answerId then Inr r
          else if map_option pi_inputId (tr_pendingInput r) \<noteq> Some inputId
                  \<and> (tr_state r \<noteq> NeedsInput \<or> tr_pendingInput r = None)
          then Inl (mesh_fail INPUT_NOT_PENDING)
          else bindR (requireState r e [NeedsInput])
            (\<lambda>r. transition r e
              (\<lambda>r. (if map_option pi_inputId (tr_pendingInput r) = Some inputId
                    then r\<lparr>tr_state := Running, tr_pendingInput := None,
                           tr_answeredInputs := js_set inputId answerId (tr_answeredInputs r)\<rparr>
                    else r\<lparr>tr_answeredInputs := js_set inputId answerId (tr_answeredInputs r)\<rparr>))
              None))
     | RecoveryStarted at \<Rightarrow>
         bindR (requireState r e [Running, NeedsInput])
           (\<lambda>r. transition r e (\<lambda>r. r\<lparr>tr_state := Recovering\<rparr>) None)
     | CancelRequested at cancellationDeadline \<Rightarrow>
         (if tr_state r = Cancelling then Inr r
          else transition r e
            (\<lambda>r. r\<lparr>tr_state := Cancelling, tr_cancellationDeadline := Some cancellationDeadline,
                   tr_pendingInput := None\<rparr>) None)
     | CancelConfirmed at summary \<Rightarrow>
         bindR (requireState r e [Cancelling])
           (\<lambda>r. transition r e (\<lambda>r. r\<lparr>tr_state := Cancelled, tr_summary := summary\<rparr>) None)
     | CompletedEvent at summary \<Rightarrow>
         bindR (requireState r e [Running, NeedsInput])
           (\<lambda>r. transition r e
             (\<lambda>r. r\<lparr>tr_state := Completed, tr_pendingInput := None, tr_summary := Some summary\<rparr>) None)
     | FailedEvent at code message retryable \<Rightarrow>
         bindR (assertActive r e)
           (\<lambda>r. transition r e
             (\<lambda>r. r\<lparr>tr_state := Failed, tr_cancellationDeadline := None, tr_pendingInput := None,
                    tr_summary := None,
                    tr_failure := Some \<lparr>tf_code = code, tf_message = message,
                                        tf_retryable = retryable\<rparr>\<rparr>) None)
     | TimedOutEvent at message \<Rightarrow>
         bindR (assertActive r e)
           (\<lambda>r. transition r e
             (\<lambda>r. r\<lparr>tr_state := TimedOut, tr_cancellationDeadline := None, tr_pendingInput := None,
                    tr_summary := None,
                    tr_failure := Some \<lparr>tf_code = ''TASK_TIMED_OUT'', tf_message = message,
                                        tf_retryable = True\<rparr>\<rparr>) None))"

declare taskReducer.simps [simp del]

section \<open>One step\<close>

lemma transition_frame:
  assumes "transition r e ch s = Inr r'"
  shows "tr_state r' = tr_state (ch r)" "tr_pendingInput r' = tr_pendingInput (ch r)"
    "tr_answeredInputs r' = tr_answeredInputs (ch r)"
    "tr_cancellationDeadline r' = tr_cancellationDeadline (ch r)"
    "tr_failure r' = tr_failure (ch r)" "tr_summary r' = tr_summary (ch r)"
    "tr_eventSeq r' = tr_eventSeq r + 1" "tr_updatedAt r' = event_at e"
    "tr_recoveryDescriptor r' = tr_recoveryDescriptor (ch r)"
  using compact_frame [OF assms [unfolded transition_def]]
  by (simp_all add: transition_record_def)

lemma transition_identity:
  assumes "transition r e ch s = Inr r'"
  shows "tr_schema r' = tr_schema (ch r)" "tr_taskId r' = tr_taskId (ch r)"
    "tr_delegationRequestId r' = tr_delegationRequestId (ch r)"
    "tr_requestHash r' = tr_requestHash (ch r)" "tr_peerId r' = tr_peerId (ch r)"
    "tr_workspaceId r' = tr_workspaceId (ch r)"
    "tr_workspaceLeaseKey r' = tr_workspaceLeaseKey (ch r)" "tr_title r' = tr_title (ch r)"
    "tr_createdAt r' = tr_createdAt (ch r)" "tr_workerDeadline r' = tr_workerDeadline (ch r)"
  using compact_frame [OF assms [unfolded transition_def]]
  by (simp_all add: transition_record_def)

text \<open>The guards of every case, for the simplifier.\<close>

lemmas reducer_simps = taskReducer.simps requireState_def assertActive_def bindR_Inr_conv
  TERMINAL_TASK_STATUSES_def ACTIVE_TASK_STATUSES_def

text \<open>
  The reducer, event by event: the status guard, and what the event changes besides the journal.
  A step that is not a no-op is one transition with these changes.
\<close>

fun guard_of :: "domain_event \<Rightarrow> task_record \<Rightarrow> bool" where
  "guard_of (AgentStartRequested _) r = (tr_state r = Accepted)"
| "guard_of (AgentStarted _ _) r = (tr_state r \<in> {StartingAgent, Recovering})"
| "guard_of (SummaryEvent _ _ _) r = (tr_state r \<in> {Running, NeedsInput, Recovering, Cancelling})"
| "guard_of (InputRequired _ _ _) r = (tr_state r \<in> {Running, NeedsInput})"
| "guard_of (InputAnswered _ i a) r =
     (tr_state r = NeedsInput \<and> tr_pendingInput r \<noteq> None \<and> js_get (tr_answeredInputs r) i \<noteq> Some a)"
| "guard_of (RecoveryStarted _) r = (tr_state r \<in> {Running, NeedsInput})"
| "guard_of (CancelRequested _ _) r = (is_active (tr_state r) \<and> tr_state r \<noteq> Cancelling)"
| "guard_of (CancelConfirmed _ _) r = (tr_state r = Cancelling)"
| "guard_of (CompletedEvent _ _) r = (tr_state r \<in> {Running, NeedsInput})"
| "guard_of (FailedEvent _ _ _ _) r = is_active (tr_state r)"
| "guard_of (TimedOutEvent _ _) r = is_active (tr_state r)"

fun changes_of :: "domain_event \<Rightarrow> task_record \<Rightarrow> task_record" where
  "changes_of (AgentStartRequested _) r = r\<lparr>tr_state := StartingAgent\<rparr>"
| "changes_of (AgentStarted _ d) r =
     r\<lparr>tr_state := (if tr_state r = Recovering \<and> tr_pendingInput r \<noteq> None then NeedsInput else Running),
       tr_recoveryDescriptor := (case d of None \<Rightarrow> tr_recoveryDescriptor r | Some d \<Rightarrow> Some d)\<rparr>"
| "changes_of (SummaryEvent _ _ _) r = r"
| "changes_of (InputRequired _ i p) r =
     r\<lparr>tr_state := NeedsInput, tr_pendingInput := Some \<lparr>pi_inputId = i, pi_prompt = p\<rparr>\<rparr>"
| "changes_of (InputAnswered _ i a) r =
     (if map_option pi_inputId (tr_pendingInput r) = Some i
      then r\<lparr>tr_state := Running, tr_pendingInput := None,
             tr_answeredInputs := js_set i a (tr_answeredInputs r)\<rparr>
      else r\<lparr>tr_answeredInputs := js_set i a (tr_answeredInputs r)\<rparr>)"
| "changes_of (RecoveryStarted _) r = r\<lparr>tr_state := Recovering\<rparr>"
| "changes_of (CancelRequested _ d) r =
     r\<lparr>tr_state := Cancelling, tr_cancellationDeadline := Some d, tr_pendingInput := None\<rparr>"
| "changes_of (CancelConfirmed _ s) r = r\<lparr>tr_state := Cancelled, tr_summary := s\<rparr>"
| "changes_of (CompletedEvent _ s) r =
     r\<lparr>tr_state := Completed, tr_pendingInput := None, tr_summary := Some s\<rparr>"
| "changes_of (FailedEvent _ c m t) r =
     r\<lparr>tr_state := Failed, tr_cancellationDeadline := None, tr_pendingInput := None,
       tr_summary := None, tr_failure := Some \<lparr>tf_code = c, tf_message = m, tf_retryable = t\<rparr>\<rparr>"
| "changes_of (TimedOutEvent _ m) r =
     r\<lparr>tr_state := TimedOut, tr_cancellationDeadline := None, tr_pendingInput := None,
       tr_summary := None,
       tr_failure := Some \<lparr>tf_code = ''TASK_TIMED_OUT'', tf_message = m, tf_retryable = True\<rparr>\<rparr>"

fun summary_of :: "domain_event \<Rightarrow> string option" where
  "summary_of (SummaryEvent _ _ s) = Some s"
| "summary_of _ = None"

lemmas reducer_case_simps = taskReducer.simps bindR_Inr_conv requireState_def assertActive_def

lemma reducer_guarded:
  assumes "guard_of e r"
  shows "taskReducer r e = transition r e (changes_of e) (summary_of e)"
proof -
  have "\<not> is_terminal (tr_state r)"
    using assms by (cases e) (auto simp: active_iff_not_terminal TERMINAL_TASK_STATUSES_def)
  then show ?thesis
    using assms
    by (cases e) (auto simp: taskReducer.simps requireState_def assertActive_def transition_def
        transition_record_def)
qed

lemma reducer_unguarded:
  assumes "taskReducer r e = Inr r'" "\<not> guard_of e r"
  shows "r' = r"
  using assms
  by (cases e) (auto simp: reducer_case_simps active_iff_not_terminal split: if_splits)

lemma reducer_cases:
  assumes "taskReducer r e = Inr r'"
  obtains "r' = r" "\<not> guard_of e r"
  | "guard_of e r" "transition r e (changes_of e) (summary_of e) = Inr r'"
  using assms reducer_guarded reducer_unguarded by (cases "guard_of e r") auto

lemma changes_frame:
  "tr_eventsTruncated (changes_of e r) = tr_eventsTruncated r"
  "tr_earliestAvailableEventSeq (changes_of e r) = tr_earliestAvailableEventSeq r"
  "tr_events (changes_of e r) = tr_events r" "tr_schema (changes_of e r) = tr_schema r"
  "tr_taskId (changes_of e r) = tr_taskId r" "tr_peerId (changes_of e r) = tr_peerId r"
  "tr_delegationRequestId (changes_of e r) = tr_delegationRequestId r"
  "tr_requestHash (changes_of e r) = tr_requestHash r"
  "tr_workspaceId (changes_of e r) = tr_workspaceId r"
  "tr_workspaceLeaseKey (changes_of e r) = tr_workspaceLeaseKey r"
  "tr_title (changes_of e r) = tr_title r" "tr_createdAt (changes_of e r) = tr_createdAt r"
  "tr_workerDeadline (changes_of e r) = tr_workerDeadline r"
  by (cases e; simp)+

section \<open>Sample steps\<close>

definition started_task :: task_record where
  "started_task = sample_task\<lparr>tr_state := StartingAgent, tr_eventSeq := 1,
     tr_events := [\<lparr>ev_eventSeq = 1, ev_at = sample_time, ev_type = ''agentStartRequested'',
                    ev_summary = None\<rparr>]\<rparr>"

definition waiting_task :: task_record where
  "waiting_task = sample_task\<lparr>tr_state := NeedsInput,
     tr_pendingInput := Some \<lparr>pi_inputId = sample_id (CHR ''e''), pi_prompt = ''which?''\<rparr>\<rparr>"

definition answered_task :: task_record where
  "answered_task = sample_task\<lparr>tr_state := Running, tr_eventSeq := 1,
     tr_answeredInputs := [(sample_id (CHR ''e''), sample_id (CHR ''f''))],
     tr_events := [\<lparr>ev_eventSeq = 1, ev_at = sample_time, ev_type = ''inputAnswered'',
                    ev_summary = None\<rparr>]\<rparr>"

lemma sample_step_sizes:
  "length (event_json \<lparr>ev_eventSeq = Suc 0, ev_at = sample_time, ev_type = ''agentStartRequested'',
     ev_summary = None\<rparr>) = 75"
  "length (event_json \<lparr>ev_eventSeq = Suc 0, ev_at = sample_time, ev_type = ''inputAnswered'',
     ev_summary = None\<rparr>) = 69"
  by (simp_all add: event_json_def sample_time_def json_eval)

lemmas step_eval = transition_def transition_record_def compactTaskEventJournal_def
  sample_task_def unusable_event_def TASK_EVENT_RETENTION_MS_def taskEventJournalBytes_limit_def
  sample_step_sizes Let_def upt_rec

lemma sample_start: "taskReducer sample_task (AgentStartRequested sample_time) = Inr started_task"
  by (subst reducer_guarded) (simp_all add: step_eval started_task_def)

lemma sample_answer:
  "taskReducer waiting_task (InputAnswered sample_time (sample_id (CHR ''e'')) (sample_id (CHR ''f'')))
     = Inr answered_task"
  by (subst reducer_guarded) (simp_all add: step_eval waiting_task_def answered_task_def)

section \<open>The abstract life cycle\<close>

inductive lifecycle_step :: "task_status \<Rightarrow> task_status \<Rightarrow> bool" where
  start: "lifecycle_step Accepted StartingAgent"
| started: "lifecycle_step StartingAgent Running"
| recovered: "st \<in> {Running, NeedsInput} \<Longrightarrow> lifecycle_step Recovering st"
| ask: "lifecycle_step Running NeedsInput"
| answer: "lifecycle_step NeedsInput Running"
| recover: "st \<in> {Running, NeedsInput} \<Longrightarrow> lifecycle_step st Recovering"
| cancel: "is_active st \<Longrightarrow> st \<noteq> Cancelling \<Longrightarrow> lifecycle_step st Cancelling"
| confirm: "lifecycle_step Cancelling Cancelled"
| complete: "st \<in> {Running, NeedsInput} \<Longrightarrow> lifecycle_step st Completed"
| fail: "is_active st \<Longrightarrow> lifecycle_step st Failed"
| time_out: "is_active st \<Longrightarrow> lifecycle_step st TimedOut"

inductive_cases from_terminal: "lifecycle_step Completed st" "lifecycle_step Failed st"
  "lifecycle_step Cancelled st" "lifecycle_step TimedOut st"

inductive_cases from_cancelling: "lifecycle_step Cancelling st"

inductive_simps lifecycle_step_iff: "lifecycle_step s t"

code_pred lifecycle_step .

lemma reducer_lifecycle:
  assumes "taskReducer r e = Inr r'"
  shows "tr_state r' = tr_state r \<or> lifecycle_step (tr_state r) (tr_state r')"
  using assms
proof (cases rule: reducer_cases)
  case 1
  then show ?thesis by simp
next
  case 2
  then have "lifecycle_step (tr_state r) (tr_state (changes_of e r)) \<or> tr_state (changes_of e r) = tr_state r"
    by (cases e) (auto intro: lifecycle_step.intros)
  with 2 show ?thesis by (auto simp: transition_frame(1))
qed

text \<open>
  C18. Every successful step of the reducer either leaves the status alone or takes one edge of
  the abstract life cycle; in particular nothing leaves a terminal status.
\<close>
theorem taskReducer_refines_lifecycle:
  assumes "taskReducer r e = Inr r'"
  shows "tr_state r' = tr_state r \<or> lifecycle_step (tr_state r) (tr_state r')"
  by (rule reducer_lifecycle [OF assms])

lemma lifecycle_witness:
  "tr_state started_task = tr_state sample_task
   \<or> lifecycle_step (tr_state sample_task) (tr_state started_task)"
  using taskReducer_refines_lifecycle [OF sample_start] .

section \<open>Validity of the record\<close>

text \<open>An event whose own fields pass the checks of the record's schema.\<close>

fun event_fields_ok :: "formats \<Rightarrow> domain_event \<Rightarrow> bool" where
  "event_fields_ok fmt (AgentStarted _ d) = opt_all recoveryDescriptorSchema d"
| "event_fields_ok fmt (SummaryEvent _ _ s) = utf8String 16384 0 s"
| "event_fields_ok fmt (InputRequired _ i p) =
     (fmt_uuid fmt i \<and> js_lower i = i \<and> utf8String 32768 1 p)"
| "event_fields_ok fmt (InputAnswered _ i a) =
     (fmt_uuid fmt i \<and> js_lower i = i \<and> fmt_uuid fmt a \<and> js_lower a = a)"
| "event_fields_ok fmt (CancelRequested _ d) = fmt_datetime fmt d"
| "event_fields_ok fmt (CancelConfirmed _ s) = opt_all (utf8String 16384 0) s"
| "event_fields_ok fmt (CompletedEvent _ s) = utf8String 16384 0 s"
| "event_fields_ok fmt (FailedEvent _ c m _) = (utf8String 128 1 c \<and> utf8String 2048 1 m)"
| "event_fields_ok fmt (TimedOutEvent _ m) = utf8String 2048 1 m"
| "event_fields_ok fmt _ = True"

definition event_ok :: "formats \<Rightarrow> domain_event \<Rightarrow> bool" where
  "event_ok fmt e \<longleftrightarrow> fmt_datetime fmt (event_at e) \<and> event_fields_ok fmt e"

text \<open>What the changes of a case must establish for the stored record to stay valid.\<close>

definition body_ok :: "formats \<Rightarrow> task_record \<Rightarrow> bool" where
  "body_ok fmt r \<longleftrightarrow>
     opt_all (fmt_datetime fmt) (tr_cancellationDeadline r)
     \<and> opt_all (pendingInputSchema fmt) (tr_pendingInput r)
     \<and> list_all (\<lambda>(k, v). fmt_uuid fmt k \<and> fmt_uuid fmt v) (tr_answeredInputs r)
     \<and> opt_all recoveryDescriptorSchema (tr_recoveryDescriptor r)
     \<and> opt_all (utf8String 16384 0) (tr_summary r)
     \<and> opt_all taskFailureSchema (tr_failure r)
     \<and> map_option lower_pending (tr_pendingInput r) = tr_pendingInput r
     \<and> js_wf (tr_answeredInputs r) \<and> lower_pairs (tr_answeredInputs r)"

lemma list_all_js_set:
  "list_all P m \<Longrightarrow> P (k, v) \<Longrightarrow> list_all P (js_set k v m)"
  using set_js_set_subset [of k v m] by (auto simp: list_all_iff)

lemma transition_body:
  assumes "transition r e ch s = Inr r'" "body_ok fmt (ch r)"
  shows "body_ok fmt r'"
  using assms(2) transition_frame [OF assms(1)] by (simp add: body_ok_def validateTaskState_def)

lemma event_type_size: "utf8String 64 1 (event_type e)"
proof -
  have "1 \<le> length (summary_kind_name k) \<and> length (summary_kind_name k) \<le> 64" for k
    by (cases k) simp_all
  then show ?thesis by (cases e) (simp_all add: utf8String_def)
qed

lemma changes_state_ok:
  assumes "guard_of e r" "validateTaskState r"
  shows "validateTaskState (changes_of e r)"
  using assms
  by (cases e; cases "tr_state r")
    (simp_all add: validateTaskState_def ACTIVE_TASK_STATUSES_def)

lemma answered_fields_ok:
  assumes "body_ok fmt r" "event_fields_ok fmt (InputAnswered at i a)"
  shows "body_ok fmt (changes_of (InputAnswered at i a) r)"
  using assms by (simp add: body_ok_def js_map lower_pairs_js_set list_all_js_set opt_all_def)

lemma changes_fields_ok:
  assumes "body_ok fmt r" "event_fields_ok fmt e"
  shows "body_ok fmt (changes_of e r)"
proof (cases e)
  case (InputAnswered at i a)
  with answered_fields_ok assms show ?thesis by blast
next
  case (AgentStarted at d)
  with assms show ?thesis by (cases d) (simp_all add: body_ok_def opt_all_def)
next
  case (TimedOutEvent at m)
  with assms show ?thesis
    by (simp add: body_ok_def opt_all_def taskFailureSchema_def utf8String_def)
qed (use assms in \<open>simp_all add: body_ok_def opt_all_def taskFailureSchema_def
  pendingInputSchema_def lower_pending_def\<close>)

subsection \<open>The journal across a step\<close>

definition new_event :: "task_record \<Rightarrow> domain_event \<Rightarrow> string option \<Rightarrow> event_record" where
  "new_event r e s =
     \<lparr>ev_eventSeq = tr_eventSeq r + 1, ev_at = event_at e, ev_type = event_type e, ev_summary = s\<rparr>"

lemma transition_record_journal:
  "tr_events (transition_record r e ch s) = tr_events r @ [new_event r e s]"
  "tr_eventSeq (transition_record r e ch s) = tr_eventSeq r + 1"
  "tr_updatedAt (transition_record r e ch s) = event_at e"
  "tr_eventsTruncated (transition_record r e (changes_of e) s) = tr_eventsTruncated r"
  "tr_earliestAvailableEventSeq (transition_record r e (changes_of e) s)
     = tr_earliestAvailableEventSeq r"
  by (simp_all add: transition_record_def new_event_def changes_frame)

lemma transition_record_shape:
  assumes "journal_shape r"
  shows "journal_shape (transition_record r e (changes_of e) s)"
proof -
  have first: "first_sequence (transition_record r e (changes_of e) s) = first_sequence r"
    by (cases "tr_events r") (simp_all add: first_sequence_def transition_record_journal new_event_def)
  have seqs: "map ev_eventSeq (tr_events r) = [first_sequence r..<first_sequence r + length (tr_events r)]"
    and total: "first_sequence r + length (tr_events r) = tr_eventSeq r + 1"
    using assms by (simp_all only: journal_shape_def)
  have "map ev_eventSeq (tr_events r @ [new_event r e s])
      = [first_sequence r..<first_sequence r + length (tr_events r)] @ [tr_eventSeq r + 1]"
    by (simp only: map_append seqs) (simp add: new_event_def)
  also have "\<dots> = [first_sequence r..<first_sequence r + length (tr_events r @ [new_event r e s])]"
    using total by simp
  finally show ?thesis
    using assms total
    by (simp only: journal_shape_def first transition_record_journal) simp
qed

lemma compact_events_suffix:
  assumes "compactTaskEventJournal r at = Inr r'"
  shows "\<exists>k. tr_events r' = drop k (tr_events r)"
proof (cases "tr_events r = []")
  case True
  with assms show ?thesis
    by (auto simp: compactTaskEventJournal_def split: if_splits)
next
  case False
  show ?thesis by (rule compact_cases [OF assms False]) blast
qed

lemma transition_events:
  assumes "transition r e ch s = Inr r'"
  shows "\<exists>k. tr_events r' = drop k (tr_events r @ [new_event r e s])"
  using compact_events_suffix [OF assms [unfolded transition_def]]
  by (simp add: transition_record_journal)

lemma transition_events_subset:
  "transition r e ch s = Inr r' \<Longrightarrow> set (tr_events r') \<subseteq> insert (new_event r e s) (set (tr_events r))"
proof -
  assume "transition r e ch s = Inr r'"
  from transition_events [OF this] obtain k where
    "tr_events r' = drop k (tr_events r @ [new_event r e s])" by blast
  then show ?thesis using set_drop_subset [of k "tr_events r @ [new_event r e s]"] by auto
qed

lemma transition_valid_journal:
  assumes "journal_shape r" "transition r e (changes_of e) s = Inr r'"
  shows "validateFullJournal r'"
  using compact_valid [OF transition_record_shape [OF assms(1)] assms(2) [unfolded transition_def]] .

lemma summary_of_ok: "event_fields_ok fmt e \<Longrightarrow> opt_all (utf8String 16384 0) (summary_of e)"
  by (cases e) (simp_all add: opt_all_def)

lemma new_event_ok:
  assumes "event_ok fmt e"
  shows "taskEventRecordSchema fmt (new_event r e (summary_of e))"
  using assms summary_of_ok [of fmt e] event_type_size [of e]
  by (simp add: taskEventRecordSchema_def new_event_def event_ok_def)

lemma valid_journal_earliest:
  "validateFullJournal r \<Longrightarrow> opt_all (\<lambda>n. 0 < n) (tr_earliestAvailableEventSeq r)"
  by (auto simp: validateFullJournal_iff journal_shape_def opt_all_def split: if_splits option.splits)

text \<open>A valid record, split into what the events change and what no event touches.\<close>

lemma record_valid_split:
  "record_valid fmt r \<longleftrightarrow>
     body_ok fmt r \<and> validateTaskState r \<and> validateFullJournal r
     \<and> list_all (taskEventRecordSchema fmt) (tr_events r)
     \<and> fmt_datetime fmt (tr_updatedAt r)
     \<and> lower_schema (tr_schema r) = tr_schema r \<and> js_lower (tr_taskId r) = tr_taskId r
     \<and> js_lower (tr_delegationRequestId r) = tr_delegationRequestId r
     \<and> js_lower (tr_peerId r) = tr_peerId r \<and> js_lower (tr_workspaceId r) = tr_workspaceId r
     \<and> fmt_uuid fmt (tr_taskId r) \<and> fmt_uuid fmt (tr_delegationRequestId r)
     \<and> hash_format (tr_requestHash r) \<and> fmt_uuid fmt (tr_peerId r)
     \<and> fmt_uuid fmt (tr_workspaceId r) \<and> utf8String 1024 1 (tr_workspaceLeaseKey r)
     \<and> utf8String 256 1 (tr_title r)
     \<and> fmt_datetime fmt (tr_createdAt r) \<and> fmt_datetime fmt (tr_workerDeadline r)
     \<and> (case tr_schema r of SchemaV1 \<Rightarrow> True | SchemaV2 v \<Rightarrow> v2_fields_ok fmt v)
     \<and> target_matches_workspace r"
  using valid_journal_earliest [of r]
  by (auto simp: record_valid_iff lower_fixed_def persistedTaskRecordCommonFields_def body_ok_def)

lemma reducer_record_valid:
  assumes "record_valid fmt r" and "event_ok fmt e" and "taskReducer r e = Inr r'"
  shows "record_valid fmt r'"
  using assms(3)
proof (cases rule: reducer_cases)
  case 2
  note v = assms(1) [unfolded record_valid_split] and t = 2(2)
  have "event_fields_ok fmt e" and at: "fmt_datetime fmt (event_at e)"
    using assms(2) by (simp_all add: event_ok_def)
  with v changes_fields_ok have body: "body_ok fmt r'"
    by (blast intro: transition_body [OF t])
  have state: "validateTaskState r'"
    using changes_state_ok [OF 2(1)] v transition_frame [OF t] by (simp add: validateTaskState_def)
  have journal: "validateFullJournal r'"
    using v by (intro transition_valid_journal [OF _ t]) (simp add: validateFullJournal_iff)
  have events: "list_all (taskEventRecordSchema fmt) (tr_events r')"
    using transition_events_subset [OF t] v new_event_ok [OF assms(2), of r]
    unfolding list_all_iff by blast
  have "target_matches_workspace r' = target_matches_workspace r"
    using transition_identity [OF t]
    by (cases "tr_schema r") (simp_all add: target_matches_workspace_def changes_frame)
  then show ?thesis
    using v body state journal events at transition_identity [OF t] transition_frame(8) [OF t]
    by (simp add: record_valid_split changes_frame)
qed (use assms in simp)

text \<open>
  C25. A successful step that is not a no-op appends exactly one event, numbered one above the
  last, to the journal before old events are dropped from its front, and never touches the
  task's identity.
\<close>
theorem taskReducer_appends_one_event:
  assumes "taskReducer r e = Inr r'" and "r' \<noteq> r"
  shows "tr_eventSeq r' = tr_eventSeq r + 1 \<and> tr_updatedAt r' = event_at e
    \<and> (\<exists>k. tr_events r' = drop k (tr_events r @ [new_event r e (summary_of e)]))
    \<and> tr_taskId r' = tr_taskId r \<and> tr_peerId r' = tr_peerId r
    \<and> tr_requestHash r' = tr_requestHash r \<and> tr_delegationRequestId r' = tr_delegationRequestId r
    \<and> tr_workspaceLeaseKey r' = tr_workspaceLeaseKey r \<and> tr_schema r' = tr_schema r"
  using assms(1)
proof (cases rule: reducer_cases)
  case 2
  show ?thesis
    using transition_events [OF 2(2)] transition_frame [OF 2(2)] transition_identity [OF 2(2)]
    by (simp add: changes_frame)
qed (use assms in simp)

lemma appends_one_witness:
  "tr_eventSeq started_task = tr_eventSeq sample_task + 1 \<and> tr_updatedAt started_task = sample_time"
  using taskReducer_appends_one_event [OF sample_start]
  by (simp add: started_task_def sample_task_def)

section \<open>Runs\<close>

text \<open>A rejected event leaves the record as it was: the reducer throws before anything is stored.\<close>

definition apply_event :: "domain_event \<Rightarrow> task_record \<Rightarrow> task_record" where
  "apply_event e r = (case taskReducer r e of Inl _ \<Rightarrow> r | Inr r' \<Rightarrow> r')"

definition apply_checked :: "formats \<Rightarrow> domain_event \<Rightarrow> task_record \<Rightarrow> task_record" where
  "apply_checked fmt e r = (if event_ok fmt e then apply_event e r else r)"

interpretation task_run: state_machine "apply_checked fmt" "record_valid fmt"
  by unfold_locales
    (auto simp: apply_checked_def apply_event_def reducer_record_valid split: sum.splits)

text \<open>
  C10. Stored records stay valid under every sequence of events: starting from a record that
  passes the persistence schema, applying any list of events (each with well-formed fields, an
  event the reducer rejects leaving the record as it was) ends in a record that passes the schema
  again: its UUIDs normalised, its status and optional fields consistent, its journal a
  contiguous suffix that ends at the current sequence number within the byte budget.
\<close>
theorem task_records_stay_valid:
  assumes "record_valid fmt r"
  shows "record_valid fmt (fold (apply_checked fmt) es r)"
  using assms by (rule task_run.run_inv)

lemma stay_valid_witness: "record_valid sample_formats (fold (apply_checked sample_formats)
    [AgentStartRequested sample_time, CancelRequested sample_time sample_time] sample_task)"
  by (rule task_records_stay_valid [OF sample_task_valid])

text \<open>States a task can still reach once its cancellation has been requested.\<close>

definition after_cancel :: "task_record \<Rightarrow> bool" where
  "after_cancel r \<longleftrightarrow> tr_state r \<in> {Cancelling, Cancelled, Failed, TimedOut}"

lemma apply_event_after_cancel: "after_cancel r \<Longrightarrow> after_cancel (apply_event e r)"
proof (cases "taskReducer r e")
  case (Inr r')
  assume c: "after_cancel r"
  from Inr show ?thesis
  proof (cases rule: reducer_cases)
    case 1
    with c Inr show ?thesis by (simp add: apply_event_def)
  next
    case 2
    with c Inr show ?thesis
      by (cases e) (auto simp: after_cancel_def apply_event_def transition_frame(1)
          ACTIVE_TASK_STATUSES_def)
  qed
qed (simp add: apply_event_def)

interpretation cancel_run: state_machine apply_event after_cancel
  by unfold_locales (rule apply_event_after_cancel)

text \<open>
  C12. A requested cancellation is final: whatever events arrive afterwards, in whatever order,
  the task never runs again and never completes; and a task in a terminal status keeps its whole
  record for ever.
\<close>
theorem cancellation_is_final:
  assumes "tr_state r = Cancelling"
  shows "tr_state (fold apply_event es r) \<in> {Cancelling, Cancelled, Failed, TimedOut}
    \<and> (is_terminal (tr_state (fold apply_event es r)) \<longrightarrow>
         fold apply_event es' (fold apply_event es r) = fold apply_event es r)"
proof -
  have stay: "is_terminal (tr_state s) \<Longrightarrow> fold apply_event es' s = s" for s
    by (induction es') (simp_all add: apply_event_def taskReducer.simps)
  have "after_cancel (fold apply_event es r)"
    using assms by (intro cancel_run.run_inv) (simp add: after_cancel_def)
  with stay show ?thesis by (simp add: after_cancel_def)
qed

lemma cancellation_witness:
  "tr_state (fold apply_event [AgentStarted sample_time None]
      (sample_task\<lparr>tr_state := Cancelling, tr_cancellationDeadline := Some sample_time\<rparr>))
    \<in> {Cancelling, Cancelled, Failed, TimedOut}"
  using cancellation_is_final [of
      "sample_task\<lparr>tr_state := Cancelling, tr_cancellationDeadline := Some sample_time\<rparr>"
      "[AgentStarted sample_time None]"]
  by simp

text \<open>An event that is not an answer to the input leaves its recorded answer alone.\<close>

fun answers_input :: "string \<Rightarrow> domain_event \<Rightarrow> bool" where
  "answers_input i (InputAnswered _ j _) = (i = j)"
| "answers_input i _ = False"

lemma apply_event_answer:
  "\<not> answers_input i e \<Longrightarrow> js_get (tr_answeredInputs (apply_event e r)) i = js_get (tr_answeredInputs r) i"
proof (cases "taskReducer r e")
  case (Inr r')
  assume e: "\<not> answers_input i e"
  from Inr show ?thesis
  proof (cases rule: reducer_cases)
    case 2
    then show ?thesis
      using e Inr by (cases e) (simp_all add: apply_event_def transition_frame(3) js_map)
  qed (use Inr in \<open>simp add: apply_event_def\<close>)
qed (simp add: apply_event_def)

lemma run_answer:
  "\<forall>e \<in> set es. \<not> answers_input i e \<Longrightarrow>
   js_get (tr_answeredInputs (fold apply_event es r)) i = js_get (tr_answeredInputs r) i"
  by (induction es arbitrary: r) (simp_all add: apply_event_answer)

lemma answer_recorded:
  assumes "taskReducer r (InputAnswered at i a) = Inr r'" and "\<not> is_terminal (tr_state r)"
  shows "js_get (tr_answeredInputs r') i = Some a"
  using assms(1)
proof (cases rule: reducer_cases)
  case 1
  with assms show ?thesis
    by (auto simp: reducer_case_simps split: if_splits)
next
  case 2
  then show ?thesis by (auto simp: transition_frame(3) js_map)
qed

text \<open>
  C26. Answering an input is idempotent: once an answer has been accepted it is on record, and
  delivering it again returns the record unchanged, whatever other events have arrived in
  between and whatever status the task has reached, as long as no other answer was given for the
  same input.
\<close>
theorem input_answer_idempotent:
  assumes "taskReducer r (InputAnswered at i a) = Inr r'" and "\<not> is_terminal (tr_state r)"
    and "\<forall>e \<in> set es. \<not> answers_input i e"
  shows "js_get (tr_answeredInputs r') i = Some a
    \<and> taskReducer (fold apply_event es r') (InputAnswered at' i a) = Inr (fold apply_event es r')"
  using answer_recorded [OF assms(1,2)] run_answer [OF assms(3), of r']
  by (simp add: taskReducer.simps)

lemma input_answer_witness:
  "taskReducer (fold apply_event [CancelRequested sample_late sample_late] answered_task)
     (InputAnswered sample_late (sample_id (CHR ''e'')) (sample_id (CHR ''f'')))
   = Inr (fold apply_event [CancelRequested sample_late sample_late] answered_task)"
proof -
  have "\<not> is_terminal (tr_state waiting_task)"
    by (simp add: waiting_task_def TERMINAL_TASK_STATUSES_def)
  from input_answer_idempotent [OF sample_answer this,
      of "[CancelRequested sample_late sample_late]" sample_late]
  show ?thesis by simp
qed

end
