(* ===== verification/Task_Requests.thy ===== *)
theory Task_Requests
  imports Task_Reducer
begin

text \<open>
  Task identity (\<open>src/domain/task.ts\<close>): a start request is normalised by its schema, encoded
  as a sequence of length-prefixed fields and hashed; the hash, the two identifiers and the peer
  decide whether a start is a retry of a stored task, a conflict, or new. The digest
  (\<open>createHash('sha256')\<close>) is the parameter \<open>sha\<close>; what is used of it is stated where it is used.
\<close>

section \<open>Owned requests\<close>

record owned_task_start =
  ot_params :: task_start
  ot_peerId :: string
  ot_workspaceLeaseKey :: string

record owned_routed_start =
  or_params :: routed_start
  or_peerId :: string
  or_workspaceLeaseKey :: string

definition lease_key_ok :: "string \<Rightarrow> bool" where
  "lease_key_ok k \<longleftrightarrow> \<not> (length k = 0 \<or> 1024 < length k)"

definition normalizeOwnedTaskStart ::
  "formats \<Rightarrow> owned_task_start \<Rightarrow> (mesh_error, owned_task_start) result" where
  "normalizeOwnedTaskStart fmt q =
     (case taskStartParamsSchema fmt (ot_params q) of
        None \<Rightarrow> Inl Type_Error
      | Some p \<Rightarrow>
          (case uuidSchema fmt (ot_peerId q) of
             None \<Rightarrow> Inl Type_Error
           | Some peerId \<Rightarrow>
               if \<not> lease_key_ok (ot_workspaceLeaseKey q) then Inl Type_Error
               else Inr \<lparr>ot_params = p, ot_peerId = peerId,
                         ot_workspaceLeaseKey = ot_workspaceLeaseKey q\<rparr>))"

definition normalizeOwnedRoutedTaskStart ::
  "formats \<Rightarrow> owned_routed_start \<Rightarrow> (mesh_error, owned_routed_start) result" where
  "normalizeOwnedRoutedTaskStart fmt q =
     (case routedTaskStartParamsSchema fmt (or_params q) of
        None \<Rightarrow> Inl Type_Error
      | Some p \<Rightarrow>
          (case uuidSchema fmt (or_peerId q) of
             None \<Rightarrow> Inl Type_Error
           | Some peerId \<Rightarrow>
               if \<not> lease_key_ok (or_workspaceLeaseKey q) then Inl Type_Error
               else Inr \<lparr>or_params = p, or_peerId = peerId,
                         or_workspaceLeaseKey = or_workspaceLeaseKey q\<rparr>))"

section \<open>Canonical encoding\<close>

definition lengthPrefix :: "string \<Rightarrow> string" where
  "lengthPrefix value = show_nat (length value) @ [CHR '':''] @ value"

definition encode_fields :: "string list \<Rightarrow> string" where
  "encode_fields fs = concat (map lengthPrefix fs)"

definition task_fields :: "owned_task_start \<Rightarrow> string list" where
  "task_fields q =
     (let p = ot_params q in
      [ot_peerId q, ts_delegationRequestId p, ts_taskId p, ts_workspaceId p, ts_title p, ts_prompt p,
       show_nat (length (ts_acceptanceCriteria p))]
      @ ts_acceptanceCriteria p @ [ts_workerDeadline p])"

definition canonicalTaskRequest ::
  "formats \<Rightarrow> owned_task_start \<Rightarrow> (mesh_error, string) result" where
  "canonicalTaskRequest fmt q =
     bindR (normalizeOwnedTaskStart fmt q) (\<lambda>n. Inr (encode_fields (task_fields n)))"

definition or_empty :: "string option \<Rightarrow> string" where
  "or_empty x = (case x of None \<Rightarrow> [] | Some s \<Rightarrow> s)"

definition routed_fields :: "owned_routed_start \<Rightarrow> string list" where
  "routed_fields q =
     (let p = or_params q; t = rs_target p in
      [or_peerId q, rs_delegationRequestId p, rs_taskId p, tt_deviceId t, tt_nodeId t,
       tt_nodeInstanceId t, tt_workspaceId t, or_empty (rs_sourceNodeId p),
       or_empty (rs_sourceWorkspaceIdentity p),
       (case rs_timeoutMinutes p of None \<Rightarrow> [] | Some n \<Rightarrow> show_nat n),
       rs_title p, rs_prompt p, show_nat (length (rs_acceptanceCriteria p))]
      @ rs_acceptanceCriteria p @ [rs_workerDeadline p]
      @ (case rs_continueFromTaskId p of None \<Rightarrow> [] | Some c \<Rightarrow> [''continueFromTaskId'', c]))"

definition canonicalRoutedTaskRequest ::
  "formats \<Rightarrow> owned_routed_start \<Rightarrow> (mesh_error, string) result" where
  "canonicalRoutedTaskRequest fmt q =
     bindR (normalizeOwnedRoutedTaskStart fmt q) (\<lambda>n. Inr (encode_fields (routed_fields n)))"

definition canonicalTaskRequestHash ::
  "formats \<Rightarrow> (string \<Rightarrow> string) \<Rightarrow> owned_task_start \<Rightarrow> (mesh_error, string) result" where
  "canonicalTaskRequestHash fmt sha q = bindR (canonicalTaskRequest fmt q) (\<lambda>c. Inr (sha c))"

definition canonicalRoutedTaskRequestHash ::
  "formats \<Rightarrow> (string \<Rightarrow> string) \<Rightarrow> owned_routed_start \<Rightarrow> (mesh_error, string) result" where
  "canonicalRoutedTaskRequestHash fmt sha q =
     bindR (canonicalRoutedTaskRequest fmt q) (\<lambda>c. Inr (sha c))"

section \<open>New records\<close>

definition createAcceptedTask ::
  "formats \<Rightarrow> (string \<Rightarrow> string) \<Rightarrow> owned_task_start \<Rightarrow> string \<Rightarrow> (mesh_error, task_record) result" where
  "createAcceptedTask fmt sha q at =
     bindR (normalizeOwnedTaskStart fmt q) (\<lambda>n.
     bindR (canonicalTaskRequestHash fmt sha n) (\<lambda>requestHash.
       Inr \<lparr>tr_schema = SchemaV1, tr_taskId = ts_taskId (ot_params n),
            tr_delegationRequestId = ts_delegationRequestId (ot_params n),
            tr_requestHash = requestHash, tr_peerId = ot_peerId n,
            tr_workspaceId = ts_workspaceId (ot_params n),
            tr_workspaceLeaseKey = ot_workspaceLeaseKey n, tr_title = ts_title (ot_params n),
            tr_state = Accepted, tr_createdAt = at, tr_updatedAt = at, tr_eventSeq = 0,
            tr_workerDeadline = ts_workerDeadline (ot_params n), tr_cancellationDeadline = None,
            tr_pendingInput = None, tr_answeredInputs = [], tr_recoveryDescriptor = None,
            tr_summary = None, tr_failure = None, tr_events = [],
            tr_earliestAvailableEventSeq = None, tr_eventsTruncated = False\<rparr>))"

definition parse_record :: "formats \<Rightarrow> task_record \<Rightarrow> (mesh_error, task_record) result" where
  "parse_record fmt r =
     (case persistedTaskRecordSchema fmt r of None \<Rightarrow> Inl Zod_Error | Some r' \<Rightarrow> Inr r')"

definition persisted_target :: "task_target \<Rightarrow> routing_target" where
  "persisted_target t =
     \<lparr>rt_deviceId = tt_deviceId t, rt_workspaceId = tt_workspaceId t,
      rt_nodeId = Some (tt_nodeId t), rt_nodeInstanceId = Some (tt_nodeInstanceId t)\<rparr>"

definition createAcceptedRoutedTask ::
  "formats \<Rightarrow> (string \<Rightarrow> string) \<Rightarrow> owned_routed_start \<Rightarrow> string \<Rightarrow> (mesh_error, task_record) result" where
  "createAcceptedRoutedTask fmt sha q at =
     bindR (normalizeOwnedRoutedTaskStart fmt q) (\<lambda>n.
     bindR (canonicalRoutedTaskRequestHash fmt sha n) (\<lambda>requestHash.
       let p = or_params n in
       parse_record fmt
         \<lparr>tr_schema = SchemaV2 \<lparr>v2_continueFromTaskId = rs_continueFromTaskId p,
              v2_target = persisted_target (rs_target p), v2_sourceNodeId = rs_sourceNodeId p,
              v2_sourceWorkspaceIdentity = rs_sourceWorkspaceIdentity p,
              v2_timeoutMinutes = rs_timeoutMinutes p\<rparr>,
          tr_taskId = rs_taskId p, tr_delegationRequestId = rs_delegationRequestId p,
          tr_requestHash = requestHash, tr_peerId = or_peerId n,
          tr_workspaceId = tt_workspaceId (rs_target p),
          tr_workspaceLeaseKey = or_workspaceLeaseKey n, tr_title = rs_title p,
          tr_state = Accepted, tr_createdAt = at, tr_updatedAt = at, tr_eventSeq = 0,
          tr_workerDeadline = rs_workerDeadline p, tr_cancellationDeadline = None,
          tr_pendingInput = None, tr_answeredInputs = [], tr_recoveryDescriptor = None,
          tr_summary = None, tr_failure = None, tr_events = [],
          tr_earliestAvailableEventSeq = None, tr_eventsTruncated = False\<rparr>))"

section \<open>Retries, migration, ownership\<close>

definition matchIdempotentStart ::
  "formats \<Rightarrow> (string \<Rightarrow> string) \<Rightarrow> task_record list \<Rightarrow> owned_task_start
     \<Rightarrow> (mesh_error, task_record option) result" where
  "matchIdempotentStart fmt sha records q =
     bindR (normalizeOwnedTaskStart fmt q) (\<lambda>n.
     bindR (canonicalTaskRequestHash fmt sha n) (\<lambda>requestHash.
       let p = ot_params n;
           sameScope = filter (\<lambda>r. tr_peerId r = ot_peerId n) records
       in case find (\<lambda>r. tr_delegationRequestId r = ts_delegationRequestId p
                          \<or> tr_taskId r = ts_taskId p) sameScope of
            None \<Rightarrow> Inr None
          | Some match \<Rightarrow>
              if tr_delegationRequestId match \<noteq> ts_delegationRequestId p
                 \<or> tr_taskId match \<noteq> ts_taskId p \<or> tr_requestHash match \<noteq> requestHash
              then Inl (mesh_fail TASK_ID_CONFLICT)
              else Inr (Some match)))"

text \<open>The version 1 request a routed request stands for, as far as the stored hash covers it.\<close>

definition legacy_request :: "owned_routed_start \<Rightarrow> owned_task_start" where
  "legacy_request n =
     (let p = or_params n in
      \<lparr>ot_params = \<lparr>ts_delegationRequestId = rs_delegationRequestId p, ts_taskId = rs_taskId p,
          ts_workspaceId = tt_workspaceId (rs_target p), ts_title = rs_title p,
          ts_prompt = rs_prompt p, ts_acceptanceCriteria = rs_acceptanceCriteria p,
          ts_workerDeadline = rs_workerDeadline p\<rparr>,
       ot_peerId = or_peerId n, ot_workspaceLeaseKey = or_workspaceLeaseKey n\<rparr>)"

fun v2_of :: "task_schema \<Rightarrow> v2_fields option" where
  "v2_of SchemaV1 = None"
| "v2_of (SchemaV2 v) = Some v"

definition same_source :: "owned_routed_start \<Rightarrow> task_record \<Rightarrow> bool" where
  "same_source n r \<longleftrightarrow>
     tr_peerId r = or_peerId n
     \<and> (rs_sourceWorkspaceIdentity (or_params n) = None
        \<or> (case tr_schema r of
             SchemaV1 \<Rightarrow> False
           | SchemaV2 v \<Rightarrow>
               v2_sourceWorkspaceIdentity v = rs_sourceWorkspaceIdentity (or_params n)))"

definition target_matches :: "owned_routed_start \<Rightarrow> task_record \<Rightarrow> bool" where
  "target_matches n r =
     (let p = or_params n; t = rs_target p in
      case tr_schema r of
        SchemaV1 \<Rightarrow> True
      | SchemaV2 v \<Rightarrow>
          rt_deviceId (v2_target v) = tt_deviceId t
          \<and> rt_workspaceId (v2_target v) = tt_workspaceId t
          \<and> (rt_nodeId (v2_target v) = None
             \<or> (rt_nodeId (v2_target v) = Some (tt_nodeId t)
                \<and> rt_nodeInstanceId (v2_target v) = Some (tt_nodeInstanceId t)
                \<and> v2_sourceNodeId v = rs_sourceNodeId p)))"

definition expected_hash ::
  "formats \<Rightarrow> (string \<Rightarrow> string) \<Rightarrow> owned_routed_start \<Rightarrow> task_record \<Rightarrow> (mesh_error, string) result" where
  "expected_hash fmt sha n r =
     (case tr_schema r of
        SchemaV1 \<Rightarrow> canonicalTaskRequestHash fmt sha (legacy_request n)
      | SchemaV2 v \<Rightarrow>
          if rt_nodeId (v2_target v) = None
          then canonicalTaskRequestHash fmt sha (legacy_request n)
          else canonicalRoutedTaskRequestHash fmt sha n)"

definition continue_from :: "task_record \<Rightarrow> string option" where
  "continue_from r = (case tr_schema r of SchemaV1 \<Rightarrow> None | SchemaV2 v \<Rightarrow> v2_continueFromTaskId v)"

definition matchIdempotentRoutedStart ::
  "formats \<Rightarrow> (string \<Rightarrow> string) \<Rightarrow> task_record list \<Rightarrow> owned_routed_start
     \<Rightarrow> (mesh_error, task_record option) result" where
  "matchIdempotentRoutedStart fmt sha records q =
     bindR (normalizeOwnedRoutedTaskStart fmt q) (\<lambda>n.
       let p = or_params n in
       case find (\<lambda>r. tr_delegationRequestId r = rs_delegationRequestId p
                       \<or> tr_taskId r = rs_taskId p) (filter (same_source n) records) of
         None \<Rightarrow> Inr None
       | Some match \<Rightarrow>
           bindR (expected_hash fmt sha n match) (\<lambda>expectedHash.
             if tr_delegationRequestId match \<noteq> rs_delegationRequestId p
                \<or> tr_taskId match \<noteq> rs_taskId p \<or> tr_requestHash match \<noteq> expectedHash
                \<or> tr_workspaceId match \<noteq> tt_workspaceId (rs_target p)
                \<or> continue_from match \<noteq> rs_continueFromTaskId p
                \<or> \<not> target_matches n match
             then Inl (mesh_fail IDEMPOTENCY_CONFLICT)
             else Inr (Some match)))"

definition migrateTaskRecordV1 ::
  "formats \<Rightarrow> task_record \<Rightarrow> string \<Rightarrow> (mesh_error, task_record) result" where
  "migrateTaskRecordV1 fmt r deviceId =
     (case tr_schema r of
        SchemaV2 _ \<Rightarrow> Inr r
      | SchemaV1 \<Rightarrow>
          (case uuidSchema fmt deviceId of
             None \<Rightarrow> Inl Zod_Error
           | Some d \<Rightarrow>
               parse_record fmt
                 (r\<lparr>tr_schema := SchemaV2 \<lparr>v2_continueFromTaskId = None,
                      v2_target = \<lparr>rt_deviceId = d, rt_workspaceId = tr_workspaceId r,
                                   rt_nodeId = None, rt_nodeInstanceId = None\<rparr>,
                      v2_sourceNodeId = None, v2_sourceWorkspaceIdentity = None,
                      v2_timeoutMinutes = None\<rparr>\<rparr>)))"

definition getOwnedTask ::
  "formats \<Rightarrow> task_record option \<Rightarrow> string \<Rightarrow> (mesh_error, task_record) result" where
  "getOwnedTask fmt record authenticatedPeerId =
     (case (record, uuidSchema fmt authenticatedPeerId) of
        (Some r, Some peerId) \<Rightarrow>
          if tr_peerId r \<noteq> peerId then Inl (mesh_fail TASK_NOT_FOUND) else Inr r
      | _ \<Rightarrow> Inl (mesh_fail TASK_NOT_FOUND))"

section \<open>The field encoding\<close>

lemma takeWhile_show_nat: "takeWhile is_digit (show_nat n @ CHR '':'' # r) = show_nat n"
  using show_nat_digits [of n] colon_not_digit by (simp add: takeWhile_append2)

lemma lengthPrefix_split:
  assumes "lengthPrefix x @ r = lengthPrefix y @ s"
  shows "x = y \<and> r = s"
proof -
  have eq: "show_nat (length x) @ CHR '':'' # x @ r = show_nat (length y) @ CHR '':'' # y @ s"
    using assms by (simp add: lengthPrefix_def)
  from arg_cong [OF eq, of "takeWhile is_digit"] have "length x = length y"
    by (simp add: takeWhile_show_nat)
  with eq show ?thesis by simp
qed

interpretation fields_code: self_delimiting lengthPrefix "\<lambda>_. True"
  by unfold_locales (use lengthPrefix_split in blast, simp add: lengthPrefix_def)

lemma encode_fields_inject: "encode_fields fs = encode_fields gs \<longleftrightarrow> fs = gs"
  using fields_code.concat_inject [of fs gs] by (auto simp: encode_fields_def list_all_iff)

section \<open>Normal forms\<close>

lemma uuid_lower: "uuids_regular fmt \<Longrightarrow> fmt_uuid fmt s \<Longrightarrow> fmt_uuid fmt (js_lower s)"
  by (simp add: uuids_regular_def)

lemma uuid_not_Nil: "uuids_regular fmt \<Longrightarrow> \<not> fmt_uuid fmt []"
  by (auto simp: uuids_regular_def)

lemma opt_all_map: "opt_all P (map_option f x) = opt_all (\<lambda>a. P (f a)) x"
  by (simp add: opt_all_def split: option.split)

lemma opt_all_mono: "opt_all P x \<Longrightarrow> (\<And>a. P a \<Longrightarrow> Q a) \<Longrightarrow> opt_all Q x"
  by (simp add: opt_all_def split: option.splits)

lemma uuidSchema_Some:
  "uuidSchema fmt s = Some t \<longleftrightarrow> fmt_uuid fmt s \<and> t = js_lower s"
  by (auto simp: uuidSchema_def)

lemma uuidSchema_fixed:
  "uuids_regular fmt \<Longrightarrow> uuidSchema fmt s = Some t \<Longrightarrow> uuidSchema fmt t = Some t"
  by (auto simp: uuidSchema_Some uuid_lower)

lemma start_schema_fixed:
  "uuids_regular fmt \<Longrightarrow> taskStartParamsSchema fmt p = Some p' \<Longrightarrow> taskStartParamsSchema fmt p' = Some p'"
  by (auto simp: taskStartParamsSchema_def uuid_lower split: if_splits)

lemma lower_task_target_simps [simp]:
  "lower_task_target (lower_task_target t) = lower_task_target t"
  by (simp add: lower_task_target_def)

lemma target_schema_lower:
  "uuids_regular fmt \<Longrightarrow> taskTargetSchema fmt t \<Longrightarrow> taskTargetSchema fmt (lower_task_target t)"
  by (simp add: taskTargetSchema_def lower_task_target_def uuid_lower)

lemma map_option_lower_idem [simp]: "map_option js_lower (map_option js_lower x) = map_option js_lower x"
  by (cases x) simp_all

lemma opt_uuid_lower:
  "uuids_regular fmt \<Longrightarrow> opt_all (fmt_uuid fmt) x \<Longrightarrow> opt_all (fmt_uuid fmt) (map_option js_lower x)"
  by (cases x) (simp_all add: opt_all_def uuid_lower)

lemma routed_schema_fixed:
  "uuids_regular fmt \<Longrightarrow> routedTaskStartParamsSchema fmt p = Some p' \<Longrightarrow>
   routedTaskStartParamsSchema fmt p' = Some p'"
  by (auto simp: routedTaskStartParamsSchema_def uuid_lower target_schema_lower opt_uuid_lower
      split: if_splits)

lemma normalizeTask_Inr:
  "normalizeOwnedTaskStart fmt q = Inr n \<longleftrightarrow>
     taskStartParamsSchema fmt (ot_params q) = Some (ot_params n)
     \<and> uuidSchema fmt (ot_peerId q) = Some (ot_peerId n)
     \<and> lease_key_ok (ot_workspaceLeaseKey q) \<and> ot_workspaceLeaseKey n = ot_workspaceLeaseKey q"
  by (cases n) (auto simp: normalizeOwnedTaskStart_def split: option.splits)

lemma normalizeRouted_Inr:
  "normalizeOwnedRoutedTaskStart fmt q = Inr n \<longleftrightarrow>
     routedTaskStartParamsSchema fmt (or_params q) = Some (or_params n)
     \<and> uuidSchema fmt (or_peerId q) = Some (or_peerId n)
     \<and> lease_key_ok (or_workspaceLeaseKey q) \<and> or_workspaceLeaseKey n = or_workspaceLeaseKey q"
  by (cases n) (auto simp: normalizeOwnedRoutedTaskStart_def split: option.splits)

lemma normalizeTask_fixed:
  "uuids_regular fmt \<Longrightarrow> normalizeOwnedTaskStart fmt q = Inr n \<Longrightarrow> normalizeOwnedTaskStart fmt n = Inr n"
  by (auto simp: normalizeTask_Inr start_schema_fixed uuidSchema_fixed)

lemma normalizeRouted_fixed:
  "uuids_regular fmt \<Longrightarrow> normalizeOwnedRoutedTaskStart fmt q = Inr n \<Longrightarrow>
   normalizeOwnedRoutedTaskStart fmt n = Inr n"
  by (auto simp: normalizeRouted_Inr routed_schema_fixed uuidSchema_fixed)

section \<open>The encoding determines the request\<close>

lemma task_fields_inject:
  "task_fields m = task_fields n \<longleftrightarrow> ot_params m = ot_params n \<and> ot_peerId m = ot_peerId n"
  by (cases "ot_params m"; cases "ot_params n") (auto simp: task_fields_def Let_def)

definition sources_ok :: "routed_start \<Rightarrow> bool" where
  "sources_ok p \<longleftrightarrow> rs_sourceNodeId p \<noteq> Some [] \<and> rs_sourceWorkspaceIdentity p \<noteq> Some []"

lemma or_empty_inject: "x \<noteq> Some [] \<Longrightarrow> y \<noteq> Some [] \<Longrightarrow> or_empty x = or_empty y \<longleftrightarrow> x = y"
  by (auto simp: or_empty_def split: option.splits)

lemma timeout_inject:
  "(case x of None \<Rightarrow> [] | Some n \<Rightarrow> show_nat n) = (case y of None \<Rightarrow> [] | Some n \<Rightarrow> show_nat n)
   \<longleftrightarrow> x = y"
  by (auto split: option.splits) (metis show_nat_nonempty)+

lemma routed_fields_inject:
  assumes "sources_ok (or_params m)" "sources_ok (or_params n)" "routed_fields m = routed_fields n"
  shows "or_params m = or_params n \<and> or_peerId m = or_peerId n"
proof -
  let ?p = "or_params m" and ?q = "or_params n"
  let ?tail = "\<lambda>p. case rs_continueFromTaskId p of None \<Rightarrow> [] | Some c \<Rightarrow> [''continueFromTaskId'', c]"
  note f = assms(3) [unfolded routed_fields_def Let_def, simplified]
  have len: "length (rs_acceptanceCriteria ?p) = length (rs_acceptanceCriteria ?q)" and
    src: "or_empty (rs_sourceNodeId ?p) = or_empty (rs_sourceNodeId ?q)"
      "or_empty (rs_sourceWorkspaceIdentity ?p) = or_empty (rs_sourceWorkspaceIdentity ?q)"
    using f by simp_all
  have rest: "rs_acceptanceCriteria ?p @ rs_workerDeadline ?p # ?tail ?p
      = rs_acceptanceCriteria ?q @ rs_workerDeadline ?q # ?tail ?q"
    using f by simp
  with len have crit: "rs_acceptanceCriteria ?p = rs_acceptanceCriteria ?q"
      "rs_workerDeadline ?p = rs_workerDeadline ?q" "?tail ?p = ?tail ?q"
    by simp_all
  have "rs_continueFromTaskId ?p = rs_continueFromTaskId ?q"
    using crit(3) by (auto split: option.splits)
  moreover have "rs_target ?p = rs_target ?q"
    using f by (cases "rs_target ?p"; cases "rs_target ?q") simp
  moreover have "rs_timeoutMinutes ?p = rs_timeoutMinutes ?q"
    using f timeout_inject by simp
  ultimately show ?thesis
    using f crit src assms(1,2)
    by (cases ?p; cases ?q) (simp add: sources_ok_def or_empty_inject)
qed

lemma routed_schema_sources:
  assumes "uuids_regular fmt" "routedTaskStartParamsSchema fmt p = Some p'"
  shows "sources_ok p'"
proof -
  have "\<not> workspaceIdentitySchema []"
    by (simp add: workspaceIdentitySchema_def)
  then show ?thesis
    using assms uuid_not_Nil [OF assms(1)]
    by (auto simp: routedTaskStartParamsSchema_def sources_ok_def opt_all_def
        split: if_splits option.splits)
qed

section \<open>Parsing twice\<close>

lemma js_set_all:
  "(\<forall>(k, v) \<in> set m. P k v) \<Longrightarrow> P k v \<Longrightarrow> \<forall>(k, v) \<in> set (js_set k v m). P k v"
  using set_js_set_subset [of k v m] by fastforce

lemma lower_answers_uuids:
  assumes "uuids_regular fmt" "list_all (\<lambda>(k, v). fmt_uuid fmt k \<and> fmt_uuid fmt v) m"
  shows "list_all (\<lambda>(k, v). fmt_uuid fmt k \<and> fmt_uuid fmt v) (lower_answers m)"
proof -
  have "list_all (\<lambda>(k, v). fmt_uuid fmt k \<and> fmt_uuid fmt v) acc \<Longrightarrow>
    list_all (\<lambda>(k, v). fmt_uuid fmt k \<and> fmt_uuid fmt v)
      (fold (\<lambda>(k, v). js_set (js_lower k) (js_lower v)) m acc)" for acc
    using assms(2)
  proof (induction m arbitrary: acc)
    case (Cons p m)
    obtain k v where p: "p = (k, v)" by (cases p)
    have "list_all (\<lambda>(k, v). fmt_uuid fmt k \<and> fmt_uuid fmt v) (js_set (js_lower k) (js_lower v) acc)"
      using Cons.prems by (intro list_all_js_set) (simp_all add: p uuid_lower [OF assms(1)])
    from Cons.IH [OF this] Cons.prems(2) show ?case by (simp add: p)
  qed simp
  from this [of "[]"] show ?thesis by (simp add: lower_answers_def)
qed

lemma lower_record_fixed: "lower_record (lower_record r) = lower_record r"
proof -
  have "map_option lower_pending (map_option lower_pending x) = map_option lower_pending x" for x
    by (cases x) (simp_all add: lower_pending_def)
  moreover have "lower_schema (lower_schema s) = lower_schema s" for s
    by (cases s) (simp_all add: lower_v2_def lower_target_def)
  moreover have "lower_answers (lower_answers m) = lower_answers m" for m
    by (simp add: lower_answers_fixed_iff lower_answers_wf lower_answers_lower)
  ultimately show ?thesis by (simp add: lower_record_def)
qed

lemma v2_fields_lower:
  "uuids_regular fmt \<Longrightarrow> v2_fields_ok fmt v \<Longrightarrow> v2_fields_ok fmt (lower_v2 v)"
  by (simp add: v2_fields_ok_def lower_v2_def persistedTaskRoutingTargetSchema_def lower_target_def
      uuid_lower opt_uuid_lower)

lemma common_fields_lower:
  assumes "uuids_regular fmt" "persistedTaskRecordCommonFields fmt r"
  shows "persistedTaskRecordCommonFields fmt (lower_record r)"
proof -
  have "opt_all (pendingInputSchema fmt) (map_option lower_pending (tr_pendingInput r))"
    using assms by (cases "tr_pendingInput r")
      (simp_all add: persistedTaskRecordCommonFields_def opt_all_def pendingInputSchema_def
        lower_pending_def uuid_lower)
  then show ?thesis
    using assms by (simp add: persistedTaskRecordCommonFields_def lower_record_def uuid_lower
        lower_answers_uuids)
qed

text \<open>What the schema returns is a valid record: parsing it again changes nothing.\<close>

lemma schema_result_valid:
  assumes "uuids_regular fmt" "persistedTaskRecordSchema fmt r = Some r'"
  shows "record_valid fmt r'" "r' = lower_record r"
proof -
  from assms(2) have r': "r' = lower_record r" and ok: "persistedTaskRecordCommonFields fmt r"
    "case tr_schema r of SchemaV1 \<Rightarrow> True | SchemaV2 v \<Rightarrow> v2_fields_ok fmt v"
    "validateTaskState r'" "validateFullJournal r'" "target_matches_workspace r'"
    by (auto simp: persistedTaskRecordSchema_def split: if_splits)
  have "case tr_schema r' of SchemaV1 \<Rightarrow> True | SchemaV2 v \<Rightarrow> v2_fields_ok fmt v"
    using ok(2) v2_fields_lower [OF assms(1)]
    by (cases "tr_schema r") (simp_all add: r' lower_record_def)
  then show "record_valid fmt r'"
    using ok common_fields_lower [OF assms(1) ok(1)] lower_record_fixed
    by (simp add: record_valid_def persistedTaskRecordSchema_def r')
  show "r' = lower_record r" by (rule r')
qed

lemma parse_record_valid:
  "uuids_regular fmt \<Longrightarrow> parse_record fmt r = Inr r' \<Longrightarrow> record_valid fmt r' \<and> r' = lower_record r"
  using schema_result_valid by (auto simp: parse_record_def split: option.splits)

section \<open>New and migrated records\<close>

text \<open>The digest's documented output: 64 lower-case hexadecimal digits.\<close>

definition hex_digests :: "(string \<Rightarrow> string) \<Rightarrow> bool" where
  "hex_digests sha \<longleftrightarrow> (\<forall>s. hash_format (sha s))"

lemma canonicalTask_normalized:
  "uuids_regular fmt \<Longrightarrow> normalizeOwnedTaskStart fmt q = Inr n \<Longrightarrow>
   canonicalTaskRequestHash fmt sha n = Inr (sha (encode_fields (task_fields n)))"
  by (simp add: canonicalTaskRequestHash_def canonicalTaskRequest_def normalizeTask_fixed)

lemma canonicalRouted_normalized:
  "uuids_regular fmt \<Longrightarrow> normalizeOwnedRoutedTaskStart fmt q = Inr n \<Longrightarrow>
   canonicalRoutedTaskRequestHash fmt sha n = Inr (sha (encode_fields (routed_fields n)))"
  by (simp add: canonicalRoutedTaskRequestHash_def canonicalRoutedTaskRequest_def normalizeRouted_fixed)

text \<open>A record no event has touched yet.\<close>

definition fresh_record :: "task_record \<Rightarrow> bool" where
  "fresh_record r \<longleftrightarrow>
     tr_state r = Accepted \<and> tr_eventSeq r = 0 \<and> tr_cancellationDeadline r = None
     \<and> tr_pendingInput r = None \<and> tr_answeredInputs r = [] \<and> tr_recoveryDescriptor r = None
     \<and> tr_summary r = None \<and> tr_failure r = None \<and> tr_events r = []
     \<and> tr_earliestAvailableEventSeq r = None \<and> \<not> tr_eventsTruncated r"

lemma fresh_record_ok:
  assumes "fresh_record r"
  shows "body_ok fmt r" "validateTaskState r" "validateFullJournal r" "tr_events r = []"
proof -
  show "body_ok fmt r"
    using assms by (simp add: body_ok_def fresh_record_def opt_all_def js_wf_def lower_pairs_def)
  show "validateTaskState r" using assms by (simp add: validateTaskState_def fresh_record_def)
  show "validateFullJournal r"
    using assms by (simp add: validateFullJournal_def fresh_record_def first_sequence_def jlen_Nil
        taskEventJournalBytes_limit_def)
  show "tr_events r = []" using assms by (simp add: fresh_record_def)
qed

lemma start_schema_result:
  assumes "uuids_regular fmt" "taskStartParamsSchema fmt p = Some p'"
  shows "fmt_uuid fmt (ts_taskId p')" "js_lower (ts_taskId p') = ts_taskId p'"
    "fmt_uuid fmt (ts_delegationRequestId p')"
    "js_lower (ts_delegationRequestId p') = ts_delegationRequestId p'"
    "fmt_uuid fmt (ts_workspaceId p')" "js_lower (ts_workspaceId p') = ts_workspaceId p'"
    "utf8String 256 1 (ts_title p')" "fmt_datetime fmt (ts_workerDeadline p')"
proof -
  from assms(2) have p': "p' = p\<lparr>ts_delegationRequestId := js_lower (ts_delegationRequestId p),
      ts_taskId := js_lower (ts_taskId p), ts_workspaceId := js_lower (ts_workspaceId p)\<rparr>"
    and ok: "fmt_uuid fmt (ts_taskId p)" "fmt_uuid fmt (ts_delegationRequestId p)"
    "fmt_uuid fmt (ts_workspaceId p)" "utf8String 256 1 (ts_title p)"
    "fmt_datetime fmt (ts_workerDeadline p)"
    by (simp_all add: taskStartParamsSchema_def split: if_splits)
  show "fmt_uuid fmt (ts_taskId p')" "js_lower (ts_taskId p') = ts_taskId p'"
    "fmt_uuid fmt (ts_delegationRequestId p')"
    "js_lower (ts_delegationRequestId p') = ts_delegationRequestId p'"
    "fmt_uuid fmt (ts_workspaceId p')" "js_lower (ts_workspaceId p') = ts_workspaceId p'"
    "utf8String 256 1 (ts_title p')" "fmt_datetime fmt (ts_workerDeadline p')"
    using ok by (simp_all add: p' uuid_lower [OF assms(1)])
qed

lemma peer_schema_result:
  assumes "uuids_regular fmt" "uuidSchema fmt s = Some t"
  shows "fmt_uuid fmt t" "js_lower t = t"
  using assms by (auto simp: uuidSchema_Some uuid_lower)

lemma lease_key_utf8: "lease_key_ok k \<longleftrightarrow> utf8String 1024 1 k"
  by (cases k) (auto simp: lease_key_ok_def utf8String_def)

lemma createAcceptedTask_forms:
  assumes "uuids_regular fmt" "createAcceptedTask fmt sha q at = Inr r"
    and n: "normalizeOwnedTaskStart fmt q = Inr n"
  shows "fresh_record r \<and> tr_schema r = SchemaV1 \<and> tr_taskId r = ts_taskId (ot_params n)
    \<and> tr_delegationRequestId r = ts_delegationRequestId (ot_params n)
    \<and> tr_requestHash r = sha (encode_fields (task_fields n)) \<and> tr_peerId r = ot_peerId n
    \<and> tr_workspaceId r = ts_workspaceId (ot_params n)
    \<and> tr_workspaceLeaseKey r = ot_workspaceLeaseKey n \<and> tr_title r = ts_title (ot_params n)
    \<and> tr_createdAt r = at \<and> tr_updatedAt r = at
    \<and> tr_workerDeadline r = ts_workerDeadline (ot_params n)"
  using assms(2) canonicalTask_normalized [OF assms(1) n, of sha]
  by (auto simp: createAcceptedTask_def n fresh_record_def)

lemma createAcceptedTask_valid:
  assumes "uuids_regular fmt" "hex_digests sha" "fmt_datetime fmt at"
    and "createAcceptedTask fmt sha q at = Inr r"
  shows "record_valid fmt r" "fresh_record r"
proof -
  from assms(4) obtain n where n: "normalizeOwnedTaskStart fmt q = Inr n"
    by (auto simp: createAcceptedTask_def bindR_Inr_conv)
  note f = createAcceptedTask_forms [OF assms(1,4) n]
  from f show fr: "fresh_record r" by simp
  from n have p: "taskStartParamsSchema fmt (ot_params q) = Some (ot_params n)"
    and peer: "uuidSchema fmt (ot_peerId q) = Some (ot_peerId n)"
    and key: "utf8String 1024 1 (ot_workspaceLeaseKey n)"
    by (simp_all add: normalizeTask_Inr lease_key_utf8)
  show "record_valid fmt r"
    using f fresh_record_ok [OF fr] start_schema_result [OF assms(1) p]
      peer_schema_result [OF assms(1) peer] key assms(2,3)
    by (simp add: record_valid_split target_matches_workspace_def hex_digests_def)
qed

lemma createAcceptedRoutedTask_valid:
  assumes "uuids_regular fmt" "createAcceptedRoutedTask fmt sha q at = Inr r"
  shows "record_valid fmt r"
  using assms(2) parse_record_valid [OF assms(1)]
  by (auto simp: createAcceptedRoutedTask_def bindR_Inr_conv Let_def)

text \<open>What identifies a stored task: no reducer step touches it.\<close>

definition same_identity :: "task_record \<Rightarrow> task_record \<Rightarrow> bool" where
  "same_identity r s \<longleftrightarrow>
     tr_schema r = tr_schema s \<and> tr_taskId r = tr_taskId s
     \<and> tr_delegationRequestId r = tr_delegationRequestId s \<and> tr_requestHash r = tr_requestHash s
     \<and> tr_peerId r = tr_peerId s \<and> tr_workspaceId r = tr_workspaceId s"

lemma same_identity_reducer: "taskReducer r e = Inr r' \<Longrightarrow> same_identity r r'"
  by (erule reducer_cases) (auto simp: same_identity_def transition_identity changes_frame)

lemma same_identity_run: "same_identity r (fold apply_event es r)"
proof (induction es arbitrary: r)
  case (Cons e es)
  have "same_identity r (apply_event e r)"
    using same_identity_reducer [of r e]
    by (simp add: apply_event_def same_identity_def split: sum.split)
  with Cons [of "apply_event e r"] show ?case by (simp add: same_identity_def)
qed (simp add: same_identity_def)

text \<open>
  Identifiers in the store: within one peer the task id is unique, and the delegation id is
  unique among the requests from the same source workspace. A request that names no source
  workspace is compared with all records of the peer; \<open>scope_clear\<close> says that no record from a
  source workspace uses its delegation id.
\<close>

definition source_of :: "task_record \<Rightarrow> string option" where
  "source_of r = (case tr_schema r of SchemaV1 \<Rightarrow> None | SchemaV2 v \<Rightarrow> v2_sourceWorkspaceIdentity v)"

definition ids_unique :: "task_record list \<Rightarrow> bool" where
  "ids_unique records \<longleftrightarrow>
     (\<forall>r \<in> set records. \<forall>s \<in> set records.
        tr_peerId r = tr_peerId s
        \<and> (tr_taskId r = tr_taskId s
           \<or> tr_delegationRequestId r = tr_delegationRequestId s \<and> source_of r = source_of s)
        \<longrightarrow> r = s)"

definition scope_clear :: "task_record list \<Rightarrow> string \<Rightarrow> string \<Rightarrow> bool" where
  "scope_clear records peerId delegationId \<longleftrightarrow>
     (\<forall>x \<in> set records. tr_peerId x = peerId \<and> tr_delegationRequestId x = delegationId
        \<longrightarrow> source_of x = None)"

lemma find_unique:
  assumes "x \<in> set xs" "P x" "\<And>y. y \<in> set xs \<Longrightarrow> P y \<Longrightarrow> y = x"
  shows "find P xs = Some x"
proof (cases "find P xs")
  case None
  with assms(1,2) show ?thesis by (simp add: find_None_iff_all)
next
  case (Some y)
  with find_Some_mem [OF Some] assms(3) show ?thesis by simp
qed

lemma routed_schema_result:
  assumes "uuids_regular fmt" "routedTaskStartParamsSchema fmt p = Some p'"
  shows "js_lower (rs_taskId p') = rs_taskId p'"
    "js_lower (rs_delegationRequestId p') = rs_delegationRequestId p'"
    "map_option js_lower (rs_continueFromTaskId p') = rs_continueFromTaskId p'"
    "map_option js_lower (rs_sourceNodeId p') = rs_sourceNodeId p'"
    "lower_task_target (rs_target p') = rs_target p'" "taskTargetSchema fmt (rs_target p')"
    "sources_ok p'"
proof -
  from assms(2) have p': "p' = p\<lparr>rs_delegationRequestId := js_lower (rs_delegationRequestId p),
      rs_taskId := js_lower (rs_taskId p),
      rs_continueFromTaskId := map_option js_lower (rs_continueFromTaskId p),
      rs_target := lower_task_target (rs_target p),
      rs_sourceNodeId := map_option js_lower (rs_sourceNodeId p)\<rparr>"
    and ok: "taskTargetSchema fmt (rs_target p)"
    by (simp_all add: routedTaskStartParamsSchema_def split: if_splits)
  show "js_lower (rs_taskId p') = rs_taskId p'"
    "js_lower (rs_delegationRequestId p') = rs_delegationRequestId p'"
    "map_option js_lower (rs_continueFromTaskId p') = rs_continueFromTaskId p'"
    "map_option js_lower (rs_sourceNodeId p') = rs_sourceNodeId p'"
    "lower_task_target (rs_target p') = rs_target p'" "taskTargetSchema fmt (rs_target p')"
    using target_schema_lower [OF assms(1) ok] by (simp_all add: p')
  show "sources_ok p'" by (rule routed_schema_sources [OF assms])
qed

lemma lower_persisted_target:
  "lower_task_target t = t \<Longrightarrow> lower_target (persisted_target t) = persisted_target t"
  by (cases t) (simp add: lower_task_target_def lower_target_def persisted_target_def)

definition v2_of_request :: "owned_routed_start \<Rightarrow> v2_fields" where
  "v2_of_request n =
     (let p = or_params n in
      \<lparr>v2_continueFromTaskId = rs_continueFromTaskId p, v2_target = persisted_target (rs_target p),
       v2_sourceNodeId = rs_sourceNodeId p,
       v2_sourceWorkspaceIdentity = rs_sourceWorkspaceIdentity p,
       v2_timeoutMinutes = rs_timeoutMinutes p\<rparr>)"

lemma createAcceptedRoutedTask_forms:
  assumes "uuids_regular fmt" "createAcceptedRoutedTask fmt sha q at = Inr r"
    and n: "normalizeOwnedRoutedTaskStart fmt q = Inr n"
  shows "fresh_record r \<and> tr_schema r = SchemaV2 (v2_of_request n)
    \<and> tr_taskId r = rs_taskId (or_params n)
    \<and> tr_delegationRequestId r = rs_delegationRequestId (or_params n)
    \<and> tr_requestHash r = sha (encode_fields (routed_fields n)) \<and> tr_peerId r = or_peerId n
    \<and> tr_workspaceId r = tt_workspaceId (rs_target (or_params n))
    \<and> tr_workspaceLeaseKey r = or_workspaceLeaseKey n"
proof -
  from n have p: "routedTaskStartParamsSchema fmt (or_params q) = Some (or_params n)"
    and peer: "uuidSchema fmt (or_peerId q) = Some (or_peerId n)"
    by (simp_all add: normalizeRouted_Inr)
  note low = routed_schema_result [OF assms(1) p] peer_schema_result [OF assms(1) peer]
  have "js_lower (tt_workspaceId (rs_target (or_params n))) = tt_workspaceId (rs_target (or_params n))"
    using arg_cong [OF low(5), of tt_workspaceId] by (simp add: lower_task_target_def)
  with low show ?thesis
    using assms(2) canonicalRouted_normalized [OF assms(1) n, of sha] lower_persisted_target [OF low(5)]
    by (auto simp: createAcceptedRoutedTask_def n Let_def v2_of_request_def fresh_record_def
        lower_record_def lower_v2_def lower_answers_def dest!: parse_record_valid [OF assms(1)])
qed

section \<open>Properties\<close>

text \<open>
  C19. Two routed requests with the same hash input are the same request: they normalise to the
  same parameters and the same peer. The length prefixes make the optional fields and the list
  of acceptance criteria unambiguous; only the lease key is left out.
\<close>
theorem canonicalRoutedTaskRequest_injective:
  assumes "uuids_regular fmt"
    and "canonicalRoutedTaskRequest fmt q = Inr c" "canonicalRoutedTaskRequest fmt q' = Inr c"
  shows "\<exists>n n'. normalizeOwnedRoutedTaskStart fmt q = Inr n
    \<and> normalizeOwnedRoutedTaskStart fmt q' = Inr n'
    \<and> or_params n = or_params n' \<and> or_peerId n = or_peerId n'"
proof -
  from assms(2,3) obtain n n' where n: "normalizeOwnedRoutedTaskStart fmt q = Inr n"
    and n': "normalizeOwnedRoutedTaskStart fmt q' = Inr n'"
    and eq: "encode_fields (routed_fields n) = encode_fields (routed_fields n')"
    by (auto simp: canonicalRoutedTaskRequest_def bindR_Inr_conv)
  have "sources_ok (or_params n)" "sources_ok (or_params n')"
    using n n' routed_schema_result(7) [OF assms(1)] by (auto simp: normalizeRouted_Inr)
  from routed_fields_inject [OF this] eq n n' show ?thesis by (auto simp: encode_fields_inject)
qed

lemma show_nat_no_dash: "CHR ''-'' \<notin> set (show_nat n)"
  using show_nat_digits [of n] by (auto simp: is_digit_def)

text \<open>
  The two generations of the protocol never share a hash input: a version 1 request and a
  routed request encode differently, so a stored hash tells which kind of request it belongs to.
\<close>
lemma plain_and_routed_encodings_differ:
  assumes "uuids_regular fmt"
    and "canonicalTaskRequest fmt q = Inr c" "canonicalRoutedTaskRequest fmt q' = Inr d"
  shows "c \<noteq> d"
proof
  assume "c = d"
  with assms(2,3) obtain n n' where n': "normalizeOwnedRoutedTaskStart fmt q' = Inr n'"
    and eq: "task_fields n = routed_fields n'"
    by (auto simp: canonicalTaskRequest_def canonicalRoutedTaskRequest_def bindR_Inr_conv
        encode_fields_inject)
  from arg_cong [OF eq, of "\<lambda>fs. fs ! 6"]
  have "show_nat (length (ts_acceptanceCriteria (ot_params n))) = tt_workspaceId (rs_target (or_params n'))"
    by (simp add: task_fields_def routed_fields_def Let_def)
  moreover have "CHR ''-'' \<in> set (tt_workspaceId (rs_target (or_params n')))"
    using n' routed_schema_result(6) [OF assms(1)] assms(1)
    by (auto simp: normalizeRouted_Inr taskTargetSchema_def uuids_regular_def)
  ultimately show False using show_nat_no_dash by metis
qed

text \<open>The record a request is compared with: the task itself whenever both identifiers agree.\<close>

lemma find_same_ids:
  assumes "ids_unique records" "r \<in> set records" "S r" "\<And>x. S x \<Longrightarrow> tr_peerId x = tr_peerId r"
    and "\<And>x. x \<in> set records \<Longrightarrow> S x \<Longrightarrow> tr_delegationRequestId x = d \<Longrightarrow>
      tr_delegationRequestId r = d \<Longrightarrow> source_of x = source_of r"
    and "tr_delegationRequestId r = d \<or> tr_taskId r = t"
  obtains x where "find (\<lambda>x. tr_delegationRequestId x = d \<or> tr_taskId x = t) (filter S records) = Some x"
    "S x" "x \<in> set records"
    "tr_delegationRequestId x = d \<and> tr_taskId x = t \<or> tr_delegationRequestId r = d \<and> tr_taskId r = t
      \<longrightarrow> x = r"
proof -
  have "r \<in> set (filter S records)" using assms by simp
  with assms(6) obtain x where x:
    "find (\<lambda>x. tr_delegationRequestId x = d \<or> tr_taskId x = t) (filter S records) = Some x"
    by (metis (mono_tags, lifting) find_None_iff_all not_Some_eq)
  from find_Some_mem [OF x] have mem: "x \<in> set records" "S x"
    "tr_delegationRequestId x = d \<or> tr_taskId x = t" by auto
  have "x = r" if "tr_delegationRequestId x = d \<and> tr_taskId x = t
      \<or> tr_delegationRequestId r = d \<and> tr_taskId r = t"
    using assms(1,2,6) mem(1,3) assms(4) [OF mem(2)] assms(5) [OF mem(1,2)] that
    unfolding ids_unique_def by metis
  with x mem that show thesis by blast
qed

lemma scope_clear_source:
  "scope_clear records p d \<Longrightarrow> x \<in> set records \<Longrightarrow> tr_peerId x = p \<Longrightarrow>
   tr_delegationRequestId x = d \<Longrightarrow> source_of x = None"
  by (auto simp: scope_clear_def)

lemma same_source_Some:
  "rs_sourceWorkspaceIdentity (or_params n) = Some w \<Longrightarrow> same_source n x \<Longrightarrow> source_of x = Some w"
  by (auto simp: same_source_def source_of_def split: task_schema.splits)

lemma source_of_created:
  "tr_schema r = SchemaV2 (v2_of_request n) \<Longrightarrow> source_of r = rs_sourceWorkspaceIdentity (or_params n)"
  by (simp add: source_of_def v2_of_request_def Let_def)

lemma legacy_request_normal:
  assumes "uuids_regular fmt" "normalizeOwnedRoutedTaskStart fmt q = Inr n"
  shows "normalizeOwnedTaskStart fmt (legacy_request n) = Inr (legacy_request n)"
proof -
  note fixed = normalizeRouted_fixed [OF assms]
  then have p: "routedTaskStartParamsSchema fmt (or_params n) = Some (or_params n)"
    by (simp add: normalizeRouted_Inr)
  note low = routed_schema_result [OF assms(1) p]
  have "js_lower (tt_workspaceId (rs_target (or_params n))) = tt_workspaceId (rs_target (or_params n))"
    using arg_cong [OF low(5), of tt_workspaceId] by (simp add: lower_task_target_def)
  moreover have "fmt_uuid fmt (rs_delegationRequestId (or_params n)) \<and> fmt_uuid fmt (rs_taskId (or_params n))
    \<and> utf8String 256 1 (rs_title (or_params n)) \<and> utf8String 131072 1 (rs_prompt (or_params n))
    \<and> length (rs_acceptanceCriteria (or_params n)) \<le> 32
    \<and> list_all (utf8String 4096 1) (rs_acceptanceCriteria (or_params n))
    \<and> fmt_datetime fmt (rs_workerDeadline (or_params n))"
    using p by (simp add: routedTaskStartParamsSchema_def split: if_splits)
  ultimately show ?thesis
    using low fixed by (simp add: normalizeTask_Inr normalizeRouted_Inr legacy_request_def Let_def
        taskStartParamsSchema_def taskTargetSchema_def)
qed

lemma expected_hash_Inr:
  assumes "uuids_regular fmt" "normalizeOwnedRoutedTaskStart fmt q = Inr n"
  shows "\<exists>h. expected_hash fmt sha n x = Inr h"
  using canonicalRouted_normalized [OF assms, of sha]
    canonicalTask_normalized [OF assms(1) legacy_request_normal [OF assms], of sha]
  by (simp add: expected_hash_def split: task_schema.split)

text \<open>The digests of two hash inputs do not collide.\<close>

definition no_collision :: "(string \<Rightarrow> string) \<Rightarrow> string list \<Rightarrow> string list \<Rightarrow> bool" where
  "no_collision sha fs gs \<longleftrightarrow> (sha (encode_fields fs) = sha (encode_fields gs) \<longrightarrow> fs = gs)"

lemma routed_match:
  assumes "uuids_regular fmt" and "ids_unique records" and "r \<in> set records"
    and "createAcceptedRoutedTask fmt sha q at = Inr r0" and "same_identity r0 r"
    and "normalizeOwnedRoutedTaskStart fmt q = Inr n"
    and "normalizeOwnedRoutedTaskStart fmt q' = Inr n'" and "or_peerId n' = or_peerId n"
    and "rs_taskId (or_params n') = rs_taskId (or_params n)
      \<or> rs_delegationRequestId (or_params n') = rs_delegationRequestId (or_params n)"
    and "rs_sourceWorkspaceIdentity (or_params n') = rs_sourceWorkspaceIdentity (or_params n)"
    and "rs_sourceWorkspaceIdentity (or_params n) = None \<longrightarrow>
      scope_clear records (or_peerId n) (rs_delegationRequestId (or_params n'))"
    and "no_collision sha (routed_fields n') (routed_fields n)"
  shows "matchIdempotentRoutedStart fmt sha records q' =
    (if or_params n' = or_params n then Inr (Some r) else Inl (mesh_fail IDEMPOTENCY_CONFLICT))"
proof -
  note f = createAcceptedRoutedTask_forms [OF assms(1,4,6)]
  have r: "tr_schema r = SchemaV2 (v2_of_request n)" "tr_taskId r = rs_taskId (or_params n)"
    "tr_delegationRequestId r = rs_delegationRequestId (or_params n)"
    "tr_requestHash r = sha (encode_fields (routed_fields n))" "tr_peerId r = or_peerId n"
    "tr_workspaceId r = tt_workspaceId (rs_target (or_params n))"
    using f assms(5) by (simp_all add: same_identity_def)
  have S: "same_source n' r" "\<And>x. same_source n' x \<Longrightarrow> tr_peerId x = tr_peerId r"
    using assms(8,10) r by (auto simp: same_source_def v2_of_request_def Let_def)
  have U: "source_of x = source_of r" if "x \<in> set records" "same_source n' x"
    "tr_delegationRequestId x = rs_delegationRequestId (or_params n')"
    "tr_delegationRequestId r = rs_delegationRequestId (or_params n')" for x
    using that assms(10,11) S(2) [OF that(2)] r source_of_created [OF r(1)]
      same_source_Some [of n' _ x] scope_clear_source [of records "or_peerId n" _ x]
    by (cases "rs_sourceWorkspaceIdentity (or_params n)") auto
  have ids: "tr_delegationRequestId r = rs_delegationRequestId (or_params n')
    \<or> tr_taskId r = rs_taskId (or_params n')" using assms(9) r by auto
  obtain x where x: "find (\<lambda>x. tr_delegationRequestId x = rs_delegationRequestId (or_params n')
      \<or> tr_taskId x = rs_taskId (or_params n')) (filter (same_source n') records) = Some x"
    "tr_delegationRequestId x = rs_delegationRequestId (or_params n')
       \<and> tr_taskId x = rs_taskId (or_params n')
     \<or> tr_delegationRequestId r = rs_delegationRequestId (or_params n')
       \<and> tr_taskId r = rs_taskId (or_params n') \<longrightarrow> x = r"
    by (rule find_same_ids [where S = "same_source n'", OF assms(2,3) S U ids]) blast
  obtain h where h: "expected_hash fmt sha n' x = Inr h"
    using expected_hash_Inr [OF assms(1,7)] by blast
  have hr: "expected_hash fmt sha n' r = Inr (sha (encode_fields (routed_fields n')))"
    using canonicalRouted_normalized [OF assms(1,7), of sha]
    by (simp add: expected_hash_def r v2_of_request_def Let_def persisted_target_def)
  have src: "sources_ok (or_params n)" "sources_ok (or_params n')"
    using assms(6,7) routed_schema_result(7) [OF assms(1)] by (auto simp: normalizeRouted_Inr)
  show ?thesis
  proof (cases "or_params n' = or_params n")
    case True
    then have "x = r" using x(2) r by simp
    moreover have "routed_fields n' = routed_fields n"
      using True assms(8) by (simp add: routed_fields_def)
    ultimately show ?thesis
      using True x(1) hr r by (simp add: matchIdempotentRoutedStart_def assms(7) Let_def
          continue_from_def target_matches_def v2_of_request_def persisted_target_def)
  next
    case False
    have "routed_fields n' \<noteq> routed_fields n"
      using False routed_fields_inject [OF src(2,1)] by blast
    then have "x = r \<Longrightarrow> tr_requestHash x \<noteq> h"
      using assms(12) r hr h by (auto simp: no_collision_def encode_fields_inject)
    with x(2) have bad: "\<not> (tr_delegationRequestId x = rs_delegationRequestId (or_params n')
      \<and> tr_taskId x = rs_taskId (or_params n') \<and> tr_requestHash x = h)" by blast
    from False show ?thesis
      by (simp add: matchIdempotentRoutedStart_def assms(7) Let_def x(1) h) (use bad in blast)
  qed
qed


text \<open>
  C21. Starting a routed task is idempotent, and only that: while the task created for a request
  is in the store, in whatever state, a request of the same peer and source workspace that reuses
  its task id or its delegation id finds exactly that task if it is the same request after
  normalisation, and is refused with \<open>IDEMPOTENCY_CONFLICT\<close> if it differs anywhere in what
  the hash covers. (For requests without a source workspace, no record from a source workspace
  may have taken the same delegation id.)
\<close>
theorem routed_start_idempotent:
  assumes "uuids_regular fmt" and "ids_unique records" and "r \<in> set records"
    and "createAcceptedRoutedTask fmt sha q at = Inr r0" and "same_identity r0 r"
    and "normalizeOwnedRoutedTaskStart fmt q = Inr n"
    and "normalizeOwnedRoutedTaskStart fmt q' = Inr n'" and "or_peerId n' = or_peerId n"
    and "rs_taskId (or_params n') = rs_taskId (or_params n)
      \<or> rs_delegationRequestId (or_params n') = rs_delegationRequestId (or_params n)"
    and "rs_sourceWorkspaceIdentity (or_params n') = rs_sourceWorkspaceIdentity (or_params n)"
    and "rs_sourceWorkspaceIdentity (or_params n) = None \<longrightarrow>
      scope_clear records (or_peerId n) (rs_delegationRequestId (or_params n'))"
    and "no_collision sha (routed_fields n') (routed_fields n)"
  shows "matchIdempotentRoutedStart fmt sha records q' =
    (if or_params n' = or_params n then Inr (Some r) else Inl (mesh_fail IDEMPOTENCY_CONFLICT))"
  by (rule routed_match [OF assms])

text \<open>
  Version 1 starts are idempotent in the same way, with \<open>TASK_ID_CONFLICT\<close> for a
  different request under one of the two identifiers.
\<close>
theorem plain_start_idempotent:
  assumes "uuids_regular fmt" and "ids_unique records" and "r \<in> set records"
    and "createAcceptedTask fmt sha q at = Inr r0" and "same_identity r0 r"
    and "normalizeOwnedTaskStart fmt q = Inr n"
    and "normalizeOwnedTaskStart fmt q' = Inr n'" and "ot_peerId n' = ot_peerId n"
    and "ts_taskId (ot_params n') = ts_taskId (ot_params n)
      \<or> ts_delegationRequestId (ot_params n') = ts_delegationRequestId (ot_params n)"
    and "scope_clear records (ot_peerId n) (ts_delegationRequestId (ot_params n'))"
    and "no_collision sha (task_fields n') (task_fields n)"
  shows "matchIdempotentStart fmt sha records q' =
    (if ot_params n' = ot_params n then Inr (Some r) else Inl (mesh_fail TASK_ID_CONFLICT))"
proof -
  let ?S = "\<lambda>x. tr_peerId x = ot_peerId n'"
  note f = createAcceptedTask_forms [OF assms(1,4,6)]
  have r: "tr_taskId r = ts_taskId (ot_params n)"
    "tr_delegationRequestId r = ts_delegationRequestId (ot_params n)"
    "tr_requestHash r = sha (encode_fields (task_fields n))" "tr_peerId r = ot_peerId n"
    using f assms(5) by (simp_all add: same_identity_def)
  have S: "?S r" "\<And>x. ?S x \<Longrightarrow> tr_peerId x = tr_peerId r" using assms(8) r by simp_all
  have U: "source_of x = source_of r" if "x \<in> set records" "?S x"
    "tr_delegationRequestId x = ts_delegationRequestId (ot_params n')"
    "tr_delegationRequestId r = ts_delegationRequestId (ot_params n')" for x
    using that assms(3,8) r scope_clear_source [OF assms(10)] by simp
  have ids: "tr_delegationRequestId r = ts_delegationRequestId (ot_params n')
    \<or> tr_taskId r = ts_taskId (ot_params n')" using assms(9) r by auto
  obtain x where x: "find (\<lambda>x. tr_delegationRequestId x = ts_delegationRequestId (ot_params n')
      \<or> tr_taskId x = ts_taskId (ot_params n')) (filter ?S records) = Some x"
    "tr_delegationRequestId x = ts_delegationRequestId (ot_params n')
       \<and> tr_taskId x = ts_taskId (ot_params n')
     \<or> tr_delegationRequestId r = ts_delegationRequestId (ot_params n')
       \<and> tr_taskId r = ts_taskId (ot_params n') \<longrightarrow> x = r"
    by (rule find_same_ids [where S = ?S, OF assms(2,3) S U ids]) blast
  note h = canonicalTask_normalized [OF assms(1,7), of sha]
  show ?thesis
  proof (cases "ot_params n' = ot_params n")
    case True
    then have "x = r" using x(2) r by simp
    moreover have "task_fields n' = task_fields n"
      using True assms(8) by (simp add: task_fields_inject)
    ultimately show ?thesis
      using True x(1) h r by (simp add: matchIdempotentStart_def assms(7) Let_def)
  next
    case False
    have "task_fields n' \<noteq> task_fields n" using False by (simp add: task_fields_inject)
    then have "x = r \<Longrightarrow> tr_requestHash x \<noteq> sha (encode_fields (task_fields n'))"
      using assms(11) r by (auto simp: no_collision_def encode_fields_inject)
    with x(2) have "tr_delegationRequestId x \<noteq> ts_delegationRequestId (ot_params n')
      \<or> tr_taskId x \<noteq> ts_taskId (ot_params n')
      \<or> tr_requestHash x \<noteq> sha (encode_fields (task_fields n'))" by blast
    with False show ?thesis
      by (simp add: matchIdempotentStart_def assms(7) Let_def x(1) h)
  qed
qed

lemma migrate_forms:
  assumes "uuids_regular fmt" "record_valid fmt r" "tr_schema r = SchemaV1" "fmt_uuid fmt dev"
  shows "\<exists>v. migrateTaskRecordV1 fmt r dev = Inr (r\<lparr>tr_schema := SchemaV2 v\<rparr>)
    \<and> record_valid fmt (r\<lparr>tr_schema := SchemaV2 v\<rparr>)
    \<and> v = \<lparr>v2_continueFromTaskId = None,
           v2_target = \<lparr>rt_deviceId = js_lower dev, rt_workspaceId = tr_workspaceId r,
                        rt_nodeId = None, rt_nodeInstanceId = None\<rparr>,
           v2_sourceNodeId = None, v2_sourceWorkspaceIdentity = None, v2_timeoutMinutes = None\<rparr>"
proof -
  let ?v = "\<lparr>v2_continueFromTaskId = None,
     v2_target = \<lparr>rt_deviceId = js_lower dev, rt_workspaceId = tr_workspaceId r,
                  rt_nodeId = None, rt_nodeInstanceId = None\<rparr>,
     v2_sourceNodeId = None, v2_sourceWorkspaceIdentity = None, v2_timeoutMinutes = None\<rparr>"
  have fs: "first_sequence (r\<lparr>tr_schema := s\<rparr>) = first_sequence r" for s
    by (cases "tr_events r") (simp_all add: first_sequence_def)
  have frame: "body_ok fmt (r\<lparr>tr_schema := s\<rparr>) = body_ok fmt r"
    "validateTaskState (r\<lparr>tr_schema := s\<rparr>) = validateTaskState r"
    "validateFullJournal (r\<lparr>tr_schema := s\<rparr>) = validateFullJournal r" for s
    by (simp_all add: body_ok_def validateTaskState_def validateFullJournal_def fs)
  have "record_valid fmt (r\<lparr>tr_schema := SchemaV2 ?v\<rparr>)"
    using assms uuid_lower [OF assms(1,4)]
    by (simp add: record_valid_split frame lower_v2_def lower_target_def v2_fields_ok_def
        opt_all_def persistedTaskRoutingTargetSchema_def target_matches_workspace_def)
  then show ?thesis
    using assms(3,4) by (simp add: migrateTaskRecordV1_def uuidSchema_def parse_record_def record_valid_def)
qed

text \<open>
  C27. Migration keeps retries working across the protocol upgrade: a stored version 1 task,
  whatever has happened to it since, migrates without failure to a valid version 2 record, and
  the routed form of its original request, sent to the same device and without a source
  workspace, still finds it.
\<close>
theorem migration_keeps_retries:
  assumes "uuids_regular fmt" and "createAcceptedTask fmt sha q at = Inr r0"
    and "record_valid fmt r" and "same_identity r0 r" and "fmt_uuid fmt dev"
    and "normalizeOwnedTaskStart fmt q = Inr n"
    and "normalizeOwnedRoutedTaskStart fmt q' = Inr n'"
    and "legacy_request n' = n" and "tt_deviceId (rs_target (or_params n')) = js_lower dev"
    and "rs_continueFromTaskId (or_params n') = None"
    and "rs_sourceWorkspaceIdentity (or_params n') = None"
  shows "\<exists>m. migrateTaskRecordV1 fmt r dev = Inr m \<and> record_valid fmt m
    \<and> migrateTaskRecordV1 fmt m dev = Inr m
    \<and> (ids_unique records \<longrightarrow> m \<in> set records \<longrightarrow>
        scope_clear records (or_peerId n') (rs_delegationRequestId (or_params n')) \<longrightarrow>
        matchIdempotentRoutedStart fmt sha records q' = Inr (Some m))"
proof -
  note f = createAcceptedTask_forms [OF assms(1,2,6)]
  have "tr_schema r = SchemaV1" using f assms(4) by (simp add: same_identity_def)
  from migrate_forms [OF assms(1,3) this assms(5)] obtain v where
    v: "migrateTaskRecordV1 fmt r dev = Inr (r\<lparr>tr_schema := SchemaV2 v\<rparr>)"
      "record_valid fmt (r\<lparr>tr_schema := SchemaV2 v\<rparr>)"
      "v = \<lparr>v2_continueFromTaskId = None,
         v2_target = \<lparr>rt_deviceId = js_lower dev, rt_workspaceId = tr_workspaceId r,
                      rt_nodeId = None, rt_nodeInstanceId = None\<rparr>,
         v2_sourceNodeId = None, v2_sourceWorkspaceIdentity = None, v2_timeoutMinutes = None\<rparr>"
    by blast
  let ?m = "r\<lparr>tr_schema := SchemaV2 v\<rparr>"
  have n: "ot_params n = \<lparr>ts_delegationRequestId = rs_delegationRequestId (or_params n'),
      ts_taskId = rs_taskId (or_params n'), ts_workspaceId = tt_workspaceId (rs_target (or_params n')),
      ts_title = rs_title (or_params n'), ts_prompt = rs_prompt (or_params n'),
      ts_acceptanceCriteria = rs_acceptanceCriteria (or_params n'),
      ts_workerDeadline = rs_workerDeadline (or_params n')\<rparr>" "ot_peerId n = or_peerId n'"
    using assms(8) by (auto simp: legacy_request_def Let_def)
  have r: "tr_taskId r = rs_taskId (or_params n')"
    "tr_delegationRequestId r = rs_delegationRequestId (or_params n')"
    "tr_requestHash r = sha (encode_fields (task_fields n))" "tr_peerId r = or_peerId n'"
    "tr_workspaceId r = tt_workspaceId (rs_target (or_params n'))"
    using f assms(4) n by (simp_all add: same_identity_def)
  have S: "same_source n' ?m" "\<And>x. same_source n' x \<Longrightarrow> tr_peerId x = tr_peerId ?m"
    using assms(11) r by (auto simp: same_source_def)
  have h: "expected_hash fmt sha n' ?m = Inr (tr_requestHash r)"
    using canonicalTask_normalized [OF assms(1) legacy_request_normal [OF assms(1,7)], of sha] r
    by (simp add: expected_hash_def v(3) assms(8))
  have "matchIdempotentRoutedStart fmt sha records q' = Inr (Some ?m)"
    if u: "ids_unique records" "?m \<in> set records"
      and clear: "scope_clear records (or_peerId n') (rs_delegationRequestId (or_params n'))"
  proof -
    have U: "source_of x = source_of ?m" if "x \<in> set records" "same_source n' x"
      "tr_delegationRequestId x = rs_delegationRequestId (or_params n')"
      "tr_delegationRequestId ?m = rs_delegationRequestId (or_params n')" for x
      using that u(2) r S(2) [OF that(2)] scope_clear_source [OF clear] by simp
    obtain x where "find (\<lambda>x. tr_delegationRequestId x = rs_delegationRequestId (or_params n')
        \<or> tr_taskId x = rs_taskId (or_params n')) (filter (same_source n') records) = Some x" "x = ?m"
      by (rule find_same_ids [where S = "same_source n'", OF u S U]) (use r in auto)
    then show ?thesis
      using h r assms(9,10) by (simp add: matchIdempotentRoutedStart_def assms(7) Let_def
          continue_from_def target_matches_def v(3))
  qed
  moreover have "migrateTaskRecordV1 fmt ?m dev = Inr ?m" by (simp add: migrateTaskRecordV1_def)
  ultimately show ?thesis using v(1,2) by blast
qed


section \<open>Sample requests\<close>

definition sample_digest :: "string \<Rightarrow> string" where
  "sample_digest s = replicate 64 (if length s < 300 then CHR ''0'' else CHR ''1'')"

definition sample_routed :: owned_routed_start where
  "sample_routed =
     \<lparr>or_params = \<lparr>rs_delegationRequestId = sample_id (CHR ''b''), rs_taskId = sample_id (CHR ''a''),
        rs_continueFromTaskId = None,
        rs_target = \<lparr>tt_deviceId = sample_id (CHR ''c''), tt_nodeId = sample_id (CHR ''d''),
          tt_nodeInstanceId = sample_id (CHR ''e''), tt_workspaceId = sample_id (CHR ''f'')\<rparr>,
        rs_sourceNodeId = None, rs_sourceWorkspaceIdentity = None, rs_title = ''fix'',
        rs_prompt = ''do it'', rs_acceptanceCriteria = [''tests pass''], rs_timeoutMinutes = None,
        rs_workerDeadline = sample_time\<rparr>,
      or_peerId = sample_id (CHR ''c''), or_workspaceLeaseKey = ''key''\<rparr>"

definition sample_plain :: owned_task_start where
  "sample_plain = legacy_request sample_routed"

lemma sample_routed_normal:
  "normalizeOwnedRoutedTaskStart sample_formats sample_routed = Inr sample_routed"
  by (simp add: normalizeRouted_Inr uuidSchema_Some lease_key_ok_def sample_routed_def
      routedTaskStartParamsSchema_def taskTargetSchema_def opt_all_def utf8String_def
      lower_task_target_def)

lemma sample_plain_normal:
  "normalizeOwnedTaskStart sample_formats sample_plain = Inr sample_plain"
  using legacy_request_normal [OF sample_uuids_regular sample_routed_normal]
  by (simp add: sample_plain_def)

lemma canonical_injective_witness:
  "\<exists>n n'. normalizeOwnedRoutedTaskStart sample_formats sample_routed = Inr n
    \<and> normalizeOwnedRoutedTaskStart sample_formats (sample_routed\<lparr>or_workspaceLeaseKey := ''other''\<rparr>) = Inr n'
    \<and> or_params n = or_params n' \<and> or_peerId n = or_peerId n'"
proof -
  have n: "normalizeOwnedRoutedTaskStart sample_formats (sample_routed\<lparr>or_workspaceLeaseKey := ''other''\<rparr>)
      = Inr (sample_routed\<lparr>or_workspaceLeaseKey := ''other''\<rparr>)"
    using sample_routed_normal by (simp add: normalizeRouted_Inr lease_key_ok_def)
  then have "canonicalRoutedTaskRequest sample_formats (sample_routed\<lparr>or_workspaceLeaseKey := ''other''\<rparr>)
      = Inr (encode_fields (routed_fields sample_routed))"
    by (simp add: canonicalRoutedTaskRequest_def routed_fields_def)
  moreover have "canonicalRoutedTaskRequest sample_formats sample_routed
      = Inr (encode_fields (routed_fields sample_routed))"
    by (simp add: canonicalRoutedTaskRequest_def sample_routed_normal)
  ultimately show ?thesis
    using canonicalRoutedTaskRequest_injective [OF sample_uuids_regular] by blast
qed

lemma no_collision_refl: "no_collision sha fs fs"
  by (simp add: no_collision_def)

lemma sample_routed_created:
  "\<exists>r. createAcceptedRoutedTask sample_formats sample_digest sample_routed sample_time = Inr r"
proof -
  have "hash_format (sample_digest s)" for s
    by (simp add: hash_format_def sample_digest_def list_all_iff is_hex_char_def is_digit_def)
  moreover have "lower_target (persisted_target (rs_target (or_params sample_routed)))
      = persisted_target (rs_target (or_params sample_routed))"
    by (simp add: lower_target_def persisted_target_def sample_routed_def)
  ultimately show ?thesis
    using canonicalRouted_normalized [OF sample_uuids_regular sample_routed_normal, of sample_digest]
    by (simp add: createAcceptedRoutedTask_def sample_routed_normal parse_record_def Let_def
        persistedTaskRecordSchema_def persistedTaskRecordCommonFields_def lower_record_def lower_v2_def)
      (simp add: sample_routed_def opt_all_def utf8String_def v2_fields_ok_def lower_answers_def
        persistedTaskRoutingTargetSchema_def persisted_target_def validateTaskState_def
        validateFullJournal_def first_sequence_def jlen_Nil taskEventJournalBytes_limit_def
        target_matches_workspace_def lower_target_def)
qed

lemma same_identity_refl [simp]: "same_identity r r"
  by (simp add: same_identity_def)

lemma routed_idempotent_witness:
  "\<exists>r. createAcceptedRoutedTask sample_formats sample_digest sample_routed sample_time = Inr r
    \<and> matchIdempotentRoutedStart sample_formats sample_digest [r] sample_routed = Inr (Some r)"
proof -
  obtain r where r: "createAcceptedRoutedTask sample_formats sample_digest sample_routed sample_time = Inr r"
    using sample_routed_created by blast
  have source: "source_of r = None"
    using createAcceptedRoutedTask_forms [OF sample_uuids_regular r sample_routed_normal]
    by (simp add: source_of_created) (simp add: sample_routed_def)
  have "matchIdempotentRoutedStart sample_formats sample_digest [r] sample_routed
    = (if or_params sample_routed = or_params sample_routed then Inr (Some r)
       else Inl (mesh_fail IDEMPOTENCY_CONFLICT))"
    by (rule routed_start_idempotent [OF sample_uuids_regular _ _ r same_identity_refl
          sample_routed_normal sample_routed_normal])
      (simp_all add: ids_unique_def no_collision_refl scope_clear_def source)
  with r show ?thesis by simp
qed

lemma sample_plain_created:
  "\<exists>r. createAcceptedTask sample_formats sample_digest sample_plain sample_time = Inr r"
  by (simp add: createAcceptedTask_def sample_plain_normal
      canonicalTask_normalized [OF sample_uuids_regular sample_plain_normal])

lemma migration_witness:
  "\<exists>r m. createAcceptedTask sample_formats sample_digest sample_plain sample_time = Inr r
    \<and> migrateTaskRecordV1 sample_formats r (sample_id (CHR ''c'')) = Inr m
    \<and> matchIdempotentRoutedStart sample_formats sample_digest [m] sample_routed = Inr (Some m)"
proof -
  obtain r where r: "createAcceptedTask sample_formats sample_digest sample_plain sample_time = Inr r"
    using sample_plain_created by blast
  have "hex_digests sample_digest"
    by (simp add: hex_digests_def hash_format_def sample_digest_def list_all_iff is_hex_char_def is_digit_def)
  from createAcceptedTask_valid(1) [OF sample_uuids_regular this sample_time_datetime r]
  have v: "record_valid sample_formats r" .
  have "legacy_request sample_routed = sample_plain" "ids_unique [m]" for m
    by (simp_all add: sample_plain_def ids_unique_def)
  moreover have "fmt_uuid sample_formats (sample_id (CHR ''c''))"
    "tt_deviceId (rs_target (or_params sample_routed)) = js_lower (sample_id (CHR ''c''))"
    "rs_continueFromTaskId (or_params sample_routed) = None"
    "rs_sourceWorkspaceIdentity (or_params sample_routed) = None"
    by (simp_all add: sample_routed_def)
  ultimately have "\<exists>m. migrateTaskRecordV1 sample_formats r (sample_id (CHR ''c'')) = Inr m
    \<and> record_valid sample_formats m
    \<and> migrateTaskRecordV1 sample_formats m (sample_id (CHR ''c'')) = Inr m
    \<and> (ids_unique records \<longrightarrow> m \<in> set records \<longrightarrow>
        scope_clear records (or_peerId sample_routed)
          (rs_delegationRequestId (or_params sample_routed)) \<longrightarrow>
        matchIdempotentRoutedStart sample_formats sample_digest records sample_routed = Inr (Some m))"
    for records
    by (intro migration_keeps_retries [OF sample_uuids_regular r v same_identity_refl _
        sample_plain_normal sample_routed_normal])
  note mig = this
  from mig [of "[]"] obtain m where m: "migrateTaskRecordV1 sample_formats r (sample_id (CHR ''c'')) = Inr m"
    by blast
  have "source_of m = None"
    using m createAcceptedTask_forms [OF sample_uuids_regular r sample_plain_normal]
    by (auto simp: migrateTaskRecordV1_def uuidSchema_def parse_record_def source_of_def
        persistedTaskRecordSchema_def lower_record_def lower_v2_def split: if_splits option.splits)
  then have "scope_clear [m] p d" for p d by (simp add: scope_clear_def)
  with mig [of "[m]"] m \<open>\<And>m. ids_unique [m]\<close>
  have "matchIdempotentRoutedStart sample_formats sample_digest [m] sample_routed = Inr (Some m)" by simp
  with r m show ?thesis by blast
qed

end
