(* ===== verification/Atomic_Files.thy ===== *)
theory Atomic_Files
  imports Task_Protocol
begin

text \<open>
  The atomic file store (\<open>src/storage/AtomicFileStore.ts\<close>): paths are confined to the storage
  root, and a value is written to a temporary file that is synced and renamed over its target.
  The file system is a map from normalised relative paths to contents; whether each of its calls
  succeeds is the answer of an environment record, so a theorem about all environments covers
  every combination of faults. The write queue runs one write at a time; a write here is one
  such step. An \<open>unlink\<close> that finds no file counts as successful, as in the source.
\<close>

section \<open>Paths\<close>

text \<open>The POSIX \<open>path.normalize\<close> and \<open>path.dirname\<close> on relative paths.\<close>

fun split_path :: "string \<Rightarrow> string list" where
  "split_path [] = [[]]"
| "split_path (c # cs) =
     (if c = CHR ''/'' then [] # split_path cs
      else case split_path cs of [] \<Rightarrow> [[c]] | s # ss \<Rightarrow> (c # s) # ss)"

fun join_path :: "string list \<Rightarrow> string" where
  "join_path [] = []"
| "join_path [s] = s"
| "join_path (s # ss) = s @ CHR ''/'' # join_path ss"

fun normal_segments :: "string list \<Rightarrow> string list \<Rightarrow> string list" where
  "normal_segments acc [] = rev acc"
| "normal_segments acc (s # ss) =
     (if s = [] \<or> s = ''.'' then normal_segments acc ss
      else if s = ''..'' then
        (case acc of
           [] \<Rightarrow> normal_segments [s] ss
         | t # ts \<Rightarrow> if t = ''..'' then normal_segments (s # acc) ss else normal_segments ts ss)
      else normal_segments (s # acc) ss)"

definition normalize_path :: "string \<Rightarrow> string" where
  "normalize_path p =
     (let segments = normal_segments [] (split_path p);
          path = (if segments = [] then ''.'' else join_path segments)
      in if last p = CHR ''/'' then path @ ''/'' else path)"

fun has_infix :: "string \<Rightarrow> string \<Rightarrow> bool" where
  "has_infix pat [] = (pat = [])"
| "has_infix pat (c # cs) = (take (length pat) (c # cs) = pat \<or> has_infix pat cs)"

definition resolve_path :: "string \<Rightarrow> (mesh_error, string) result" where
  "resolve_path relativePath =
     (if relativePath = [] \<or> hd relativePath = CHR ''/'' then Inl Type_Error
      else let normalized = normalize_path relativePath in
        if normalized = ''..'' \<or> take 3 normalized = ''../'' \<or> has_infix ''/../'' normalized
        then Inl Type_Error
        else Inr normalized)"

definition directory_segments :: "string \<Rightarrow> string list" where
  "directory_segments normalized =
     (let segments = split_path normalized
      in butlast (if last segments = [] then butlast segments else segments))"

section \<open>The file system and its answers\<close>

datatype 'v content = Garbage | Json 'v

record 'v disk =
  dk_files :: "(string, 'v content) jsmap"
  dk_pendingDirectorySyncs :: "(string, string) jsmap"

datatype mkdir_answer = Dir_Created | Dir_Exists | Mkdir_Failed

record dir_env =
  de_mkdir :: mkdir_answer
  de_syncDirectory :: bool
  de_removeDirectory :: bool

datatype write_answer = Written | Written_Partly | Not_Written

record write_env =
  we_id :: string
  we_dirs :: "string \<Rightarrow> dir_env"
  we_writeFile :: write_answer
  we_syncFile :: bool
  we_rename :: bool
  we_syncDirectory :: bool
  we_unlink :: bool

section \<open>Reading\<close>

definition readJson :: "bool \<Rightarrow> string \<Rightarrow> 'v disk \<Rightarrow> (mesh_error, 'v option) result" where
  "readJson readable relativePath d =
     bindR (resolve_path relativePath) (\<lambda>target.
       if \<not> readable then Inl Plain_Error
       else case js_get (dk_files d) target of
         None \<Rightarrow> Inr None
       | Some Garbage \<Rightarrow> Inl (Storage_Corruption relativePath)
       | Some (Json v) \<Rightarrow> Inr (Some v))"

text \<open>\<open>readdir\<close>: the names directly inside a directory.\<close>

definition names_in :: "string \<Rightarrow> 'v disk \<Rightarrow> string list" where
  "names_in dir d =
     map (drop (length dir + 1))
       (filter (\<lambda>p. take (length dir + 1) p = dir @ ''/'' \<and> CHR ''/'' \<notin> set (drop (length dir + 1) p))
         (map fst (dk_files d)))"

definition list_directory :: "bool \<Rightarrow> string \<Rightarrow> 'v disk \<Rightarrow> (mesh_error, string list) result" where
  "list_directory readable relativeDirectory d =
     bindR (resolve_path relativeDirectory) (\<lambda>directory.
       if \<not> readable then Inl Plain_Error else Inr (names_in directory d))"

section \<open>Writing\<close>

text \<open>
  \<open>ensureOwnedDirectory\<close>: create the missing directories on the way and sync each new entry,
  or roll the creation back. Directories are named by their path from the root.
\<close>

fun ensureOwnedDirectory ::
  "(string \<Rightarrow> dir_env) \<Rightarrow> string \<Rightarrow> string list \<Rightarrow> (string, string) jsmap
     \<Rightarrow> (mesh_error, unit) result \<times> (string, string) jsmap" where
  "ensureOwnedDirectory env parent [] pending = (Inr (), pending)"
| "ensureOwnedDirectory env parent (segment # segments) pending =
     (let current = (if parent = [] then segment else parent @ CHR ''/'' # segment);
          created = (de_mkdir (env current) = Dir_Created)
      in if de_mkdir (env current) = Mkdir_Failed then (Inl Plain_Error, pending)
         else if created \<or> js_get pending current \<noteq> None then
           (if de_syncDirectory (env current)
            then ensureOwnedDirectory env current segments (js_delete current (js_set current parent pending))
            else if created \<and> de_removeDirectory (env current)
            then (Inl Plain_Error, js_delete current (js_set current parent pending))
            else (Inl Plain_Error, js_set current parent pending))
         else ensureOwnedDirectory env current segments pending)"

definition safe_id_char :: "char \<Rightarrow> bool" where
  "safe_id_char c \<longleftrightarrow>
     (let n = (of_char c :: nat) in
        is_digit c \<or> (65 \<le> n \<and> n \<le> 90) \<or> (97 \<le> n \<and> n \<le> 122) \<or> n = 45)"

definition temporary_path :: "string \<Rightarrow> string \<Rightarrow> string" where
  "temporary_path target identifier = target @ CHR ''.'' # identifier @ ''.tmp''"

text \<open>
  The body of the \<open>try\<close>: write, sync, check ownership, rename, sync the directory. It returns
  the files as they are when it ends, normally or by a throw.
\<close>

definition write_steps ::
  "write_env \<Rightarrow> (mesh_error, unit) result \<Rightarrow> string \<Rightarrow> string \<Rightarrow> 'v \<Rightarrow> (string, 'v content) jsmap
     \<Rightarrow> (mesh_error, unit) result \<times> (string, 'v content) jsmap" where
  "write_steps env assertCurrent temporary target v files =
     (case we_writeFile env of
        Not_Written \<Rightarrow> (Inl Plain_Error, files)
      | Written_Partly \<Rightarrow> (Inl Plain_Error, js_set temporary Garbage files)
      | Written \<Rightarrow>
          (let written = js_set temporary (Json v) files in
           if \<not> we_syncFile env then (Inl Plain_Error, written)
           else case assertCurrent of
             Inl e \<Rightarrow> (Inl e, written)
           | Inr _ \<Rightarrow>
               if \<not> we_rename env then (Inl Plain_Error, written)
               else let renamed = js_delete temporary (js_set target (Json v) written) in
                 if \<not> we_syncDirectory env then (Inl Plain_Error, renamed) else (Inr (), renamed)))"

definition writeJson ::
  "write_env \<Rightarrow> (mesh_error, unit) result \<Rightarrow> string \<Rightarrow> 'v \<Rightarrow> 'v disk
     \<Rightarrow> (mesh_error, unit) result \<times> 'v disk" where
  "writeJson env assertCurrent relativePath v d =
     (case resolve_path relativePath of
        Inl e \<Rightarrow> (Inl e, d)
      | Inr target \<Rightarrow>
          if we_id env = [] \<or> \<not> list_all safe_id_char (we_id env) then (Inl Type_Error, d)
          else let temporary = temporary_path target (we_id env) in
          (case ensureOwnedDirectory (we_dirs env) [] (directory_segments target)
                  (dk_pendingDirectorySyncs d) of
             (Inl e, pending) \<Rightarrow> (Inl e, d\<lparr>dk_pendingDirectorySyncs := pending\<rparr>)
           | (Inr _, pending) \<Rightarrow>
               (case write_steps env assertCurrent temporary target v (dk_files d) of
                  (Inr _, files) \<Rightarrow> (Inr (), d\<lparr>dk_files := files, dk_pendingDirectorySyncs := pending\<rparr>)
                | (Inl e, files) \<Rightarrow>
                    if we_unlink env
                    then (Inl e, d\<lparr>dk_files := js_delete temporary files,
                                   dk_pendingDirectorySyncs := pending\<rparr>)
                    else (Inl Plain_Error,
                          d\<lparr>dk_files := files, dk_pendingDirectorySyncs := pending\<rparr>))))"

section \<open>Path lemmas\<close>

lemma split_path_not_Nil [simp]: "split_path p \<noteq> []"
  by (induction p) (auto split: list.split)

lemma split_path_no_slash: "s \<in> set (split_path p) \<Longrightarrow> CHR ''/'' \<notin> set s"
  by (induction p arbitrary: s) (auto split: if_splits list.splits)

lemma join_split: "join_path (split_path p) = p"
proof (induction p)
  case (Cons c cs)
  obtain s ss where s: "split_path cs = s # ss" using split_path_not_Nil by (metis list.exhaust)
  with Cons show ?case by (cases ss) auto
qed simp

lemma split_single: "CHR ''/'' \<notin> set s \<Longrightarrow> split_path s = [s]"
  by (induction s) auto

lemma split_append_slash: "CHR ''/'' \<notin> set s \<Longrightarrow> split_path (s @ CHR ''/'' # p) = s # split_path p"
  by (induction s) auto

lemma split_join: "ss \<noteq> [] \<Longrightarrow> \<forall>s \<in> set ss. CHR ''/'' \<notin> set s \<Longrightarrow> split_path (join_path ss) = ss"
  by (induction ss rule: join_path.induct) (auto simp: split_single split_append_slash)

lemma split_snoc_slash: "split_path (p @ ''/'') = split_path p @ [[]]"
  by (induction p) (auto split: list.split)

definition plain_segment :: "string \<Rightarrow> bool" where
  "plain_segment s \<longleftrightarrow> s \<noteq> [] \<and> s \<noteq> ''.'' \<and> s \<noteq> ''..''"

lemma normal_segments_plain:
  "\<forall>s \<in> set ss. plain_segment s \<Longrightarrow> normal_segments acc ss = rev acc @ ss"
  by (induction ss arbitrary: acc) (simp_all add: plain_segment_def)

lemma last_join:
  "ss \<noteq> [] \<Longrightarrow> last ss \<noteq> [] \<Longrightarrow> join_path ss \<noteq> [] \<and> last (join_path ss) = last (last ss)"
  by (induction ss rule: join_path.induct) simp_all

lemma normalize_plain:
  assumes "\<forall>s \<in> set (split_path p). plain_segment s"
  shows "normalize_path p = p"
proof -
  have "plain_segment (last (split_path p))" using assms by simp
  then have "last p = last (last (split_path p))" and ne: "last (split_path p) \<noteq> []"
    using last_join [of "split_path p"] by (simp_all add: join_split plain_segment_def)
  moreover have "CHR ''/'' \<notin> set (last (split_path p))"
    by (rule split_path_no_slash [of _ p]) simp
  ultimately have "last p \<noteq> CHR ''/''" by (metis last_in_set)
  then show ?thesis
    using assms by (simp add: normalize_path_def normal_segments_plain join_split Let_def)
qed

text \<open>The shape of a normalised relative path: dot-dots only at the front.\<close>

lemma normal_segments_shape:
  assumes "acc = rev ts @ replicate k ''..''" "\<forall>s \<in> set ts. plain_segment s"
    "\<forall>s \<in> set ss. CHR ''/'' \<notin> set s" "\<forall>s \<in> set ts. CHR ''/'' \<notin> set s"
  shows "\<exists>j us. normal_segments acc ss = replicate j ''..'' @ us
    \<and> (\<forall>s \<in> set us. plain_segment s \<and> CHR ''/'' \<notin> set s)"
  using assms
proof (induction ss arbitrary: acc ts k)
  case Nil
  then show ?case by (intro exI [of _ k] exI [of _ ts]) simp
next
  case (Cons s ss)
  note IH = Cons.IH and prems = Cons.prems
  consider "s = [] \<or> s = ''.''" | "s = ''..''" "ts = []" | t us where "s = ''..''" "ts = us @ [t]"
    | "plain_segment s"
    by (cases ts rule: rev_cases) (auto simp: plain_segment_def)
  then show ?case
  proof cases
    case 1
    with IH [OF prems(1,2) _ prems(4)] prems(3) show ?thesis by auto
  next
    case 2
    have "s # acc = rev [] @ replicate (Suc k) ''..''" using 2 prems(1) by simp
    from IH [OF this] have "\<exists>j us. normal_segments (s # acc) ss = replicate j ''..'' @ us
        \<and> (\<forall>s \<in> set us. plain_segment s \<and> CHR ''/'' \<notin> set s)" using prems(3) by simp
    moreover have "normal_segments acc (s # ss) = normal_segments (s # acc) ss"
      using 2 prems(1) by (cases k) simp_all
    ultimately show ?thesis by simp
  next
    case 3
    then have "normal_segments acc (s # ss) = normal_segments (rev us @ replicate k ''..'') ss"
      using prems(1,2) by (simp add: plain_segment_def)
    moreover have "\<exists>j vs. normal_segments (rev us @ replicate k ''..'') ss = replicate j ''..'' @ vs
        \<and> (\<forall>s \<in> set vs. plain_segment s \<and> CHR ''/'' \<notin> set s)"
      by (rule IH [OF refl]) (use 3 prems in auto)
    ultimately show ?thesis by simp
  next
    case 4
    have "s # acc = rev (ts @ [s]) @ replicate k ''..''" using prems(1) by simp
    from IH [OF this] 4 prems have "\<exists>j us. normal_segments (s # acc) ss = replicate j ''..'' @ us
        \<and> (\<forall>s \<in> set us. plain_segment s \<and> CHR ''/'' \<notin> set s)" by simp
    moreover have "normal_segments acc (s # ss) = normal_segments (s # acc) ss"
      using 4 by (simp add: plain_segment_def)
    ultimately show ?thesis by simp
  qed
qed

lemma split_append: "split_path (a @ CHR ''/'' # r) = split_path a @ split_path r"
  by (induction a) (auto split: list.splits)

lemma has_infix_iff: "has_infix pat q \<longleftrightarrow> (\<exists>a b. q = a @ pat @ b)"
proof (induction q)
  case (Cons c cs)
  have "take (length pat) (c # cs) = pat \<longleftrightarrow> (\<exists>b. c # cs = pat @ b)"
    by (metis append_eq_conv_conj append_take_drop_id)
  moreover have "(\<exists>a b. c # cs = a @ pat @ b) \<longleftrightarrow> (\<exists>b. c # cs = pat @ b) \<or> (\<exists>a b. cs = a @ pat @ b)"
    by (auto simp: Cons_eq_append_conv)
  ultimately show ?case using Cons by simp
qed simp

lemma dots_infix: "has_infix ''/../'' q \<Longrightarrow> ''..'' \<in> set (split_path q)"
proof -
  assume "has_infix ''/../'' q"
  then obtain a b where "q = a @ CHR ''/'' # ''..'' @ CHR ''/'' # b" by (auto simp: has_infix_iff)
  then show ?thesis
    using split_append [of a "''..'' @ CHR ''/'' # b"] split_append [of "''..''" b] by simp
qed

lemma dots_front: "take 3 q = ''../'' \<Longrightarrow> ''..'' \<in> set (split_path q)"
proof -
  assume "take 3 q = ''../''"
  then have "q = ''..'' @ CHR ''/'' # drop 3 q"
    by (metis append_take_drop_id append_Cons append_Nil)
  then show ?thesis using split_append [of "''..''" "drop 3 q"] by simp
qed

lemma resolve_plain:
  assumes "\<forall>s \<in> set (split_path p). plain_segment s"
  shows "resolve_path p = Inr p"
proof -
  have plain: "[] \<notin> set (split_path p)" "''..'' \<notin> set (split_path p)"
    using assms unfolding plain_segment_def by blast+
  then have "p \<noteq> ''..''" "take 3 p \<noteq> ''../''" "\<not> has_infix ''/../'' p"
    using dots_front dots_infix by (auto simp: split_single)
  moreover have "p \<noteq> []" using plain(1) by (cases p) simp_all
  moreover have "hd p \<noteq> CHR ''/''"
  proof
    assume "hd p = CHR ''/''"
    with \<open>p \<noteq> []\<close> obtain r where "p = CHR ''/'' # r" by (cases p) simp_all
    with plain(1) show False by simp
  qed
  ultimately show ?thesis
    by (simp add: resolve_path_def normalize_plain [OF assms] Let_def)
qed

lemma resolve_segments:
  assumes "resolve_path p = Inr q"
  shows "\<exists>us. us \<noteq> [] \<and> (\<forall>s \<in> set us. s \<noteq> [] \<and> s \<noteq> ''..'')
    \<and> (split_path q = us \<or> split_path q = us @ [[]])"
proof -
  have q: "q = normalize_path p" and ok: "q \<noteq> ''..''" "take 3 q \<noteq> ''../''"
    using assms by (auto simp: resolve_path_def Let_def split: if_splits)
  obtain j us where segs: "normal_segments [] (split_path p) = replicate j ''..'' @ us"
    and us: "\<forall>s \<in> set us. plain_segment s \<and> CHR ''/'' \<notin> set s"
    using normal_segments_shape [of "[]" "[]" 0 "split_path p"] split_path_no_slash by auto
  define path where "path = (if replicate j ''..'' @ us = [] then ''.'' else join_path (replicate j ''..'' @ us))"
  have q': "q = path \<or> q = path @ ''/''"
    by (simp add: q normalize_path_def segs path_def Let_def)
  have "j = 0"
  proof (rule ccontr)
    assume "j \<noteq> 0"
    then obtain i where "j = Suc i" by (cases j) auto
    then have "path = ''..'' \<or> take 3 path = ''../''"
      by (cases "replicate i ''..'' @ us") (auto simp: path_def)
    then show False
      using q' ok by auto
  qed
  then have split: "split_path path = (if us = [] then [''.''] else us)"
    using us split_join [of us] by (auto simp: path_def)
  have sq: "split_path q = split_path path \<or> split_path q = split_path path @ [[]]"
    using q' split_snoc_slash by metis
  define vs where "vs = (if us = [] then [''.''] else us)"
  have "vs \<noteq> []" "\<forall>s \<in> set vs. s \<noteq> [] \<and> s \<noteq> ''..''"
    using us by (simp_all add: vs_def plain_segment_def)
  with sq split show ?thesis unfolding vs_def [symmetric] by metis
qed

lemma resolve_inside:
  assumes "resolve_path p = Inr q"
  shows "''..'' \<notin> set (split_path q) \<and> hd q \<noteq> CHR ''/''"
proof -
  from resolve_segments [OF assms] obtain us where us: "us \<noteq> []" "\<forall>s \<in> set us. s \<noteq> [] \<and> s \<noteq> ''..''"
    and q: "split_path q = us \<or> split_path q = us @ [[]]" by blast
  then have "''..'' \<notin> set (split_path q)" by auto
  moreover have "hd q \<noteq> CHR ''/''"
  proof
    assume slash: "hd q = CHR ''/''"
    obtain u ws where u: "us = u # ws" using us(1) by (cases us) simp_all
    have ne: "u \<noteq> []" using us(2) u by simp
    show False
    proof (cases q)
      case Nil
      with q u ne show False by auto
    next
      case (Cons c r)
      with slash q u ne show False by auto
    qed
  qed
  ultimately show ?thesis by simp
qed

lemma resolve_directory_segments:
  assumes "resolve_path p = Inr q"
  shows "\<forall>s \<in> set (directory_segments q). s \<noteq> []"
proof -
  from resolve_segments [OF assms] obtain us where us: "us \<noteq> []" "\<forall>s \<in> set us. s \<noteq> [] \<and> s \<noteq> ''..''"
    and q: "split_path q = us \<or> split_path q = us @ [[]]" by blast
  have "directory_segments q = butlast us"
    using q us by (elim disjE) (simp_all add: directory_segments_def Let_def)
  with us(2) show ?thesis by (auto dest: in_set_butlastD)
qed

section \<open>Atomicity\<close>

lemma temporary_not_target: "temporary_path t i \<noteq> t"
proof
  assume "temporary_path t i = t"
  then have "length (temporary_path t i) = length t" by simp
  then show False by (simp add: temporary_path_def)
qed

text \<open>
  What can be observed at a path after a write, whatever failed: the target holds its old
  content or the whole new value, and no other path but the temporary one has changed.
\<close>

lemma write_steps_frame:
  assumes "write_steps env a temporary target v files = (res, files')"
  shows "(p \<noteq> target \<and> p \<noteq> temporary \<longrightarrow> js_get files' p = js_get files p)
    \<and> (temporary \<noteq> target \<longrightarrow> js_get files' target \<in> {js_get files target, Some (Json v)})
    \<and> (res = Inr () \<longrightarrow> temporary \<noteq> target \<longrightarrow> js_get files' target = Some (Json v) \<and> js_get files' temporary = None)
    \<and> (a \<noteq> Inr () \<longrightarrow> temporary \<noteq> target \<longrightarrow> res \<noteq> Inr () \<and> js_get files' target = js_get files target)"
  using assms
  by (auto simp: write_steps_def Let_def js_map split: write_answer.splits if_splits sum.splits)

lemma writeJson_frame:
  assumes "writeJson env a relativePath v d = (res, d')" "resolve_path relativePath = Inr target"
  shows "p \<noteq> target \<Longrightarrow> p \<noteq> temporary_path target (we_id env) \<Longrightarrow>
      js_get (dk_files d') p = js_get (dk_files d) p"
    "js_get (dk_files d') target \<in> {js_get (dk_files d) target, Some (Json v)}"
    "res = Inr () \<Longrightarrow> js_get (dk_files d') target = Some (Json v)"
    "a \<noteq> Inr () \<Longrightarrow> res \<noteq> Inr () \<and> js_get (dk_files d') target = js_get (dk_files d) target"
    "res = Inr () \<Longrightarrow> js_get (dk_files d') (temporary_path target (we_id env)) = None"
proof -
  let ?t = "temporary_path target (we_id env)"
  obtain res1 pending where dirs: "ensureOwnedDirectory (we_dirs env) [] (directory_segments target)
      (dk_pendingDirectorySyncs d) = (res1, pending)" by fastforce
  obtain res2 files where steps: "write_steps env a ?t target v (dk_files d) = (res2, files)" by fastforce
  note f = write_steps_frame [OF steps, of p] temporary_not_target [of target "we_id env"]
  note defs = assms(1) [unfolded writeJson_def assms(2) Let_def, simplified, simplified dirs steps, simplified]
  show "p \<noteq> target \<Longrightarrow> p \<noteq> ?t \<Longrightarrow> js_get (dk_files d') p = js_get (dk_files d) p"
    using defs f by (auto simp: js_map split: if_splits sum.splits)
  show "js_get (dk_files d') target \<in> {js_get (dk_files d) target, Some (Json v)}"
    using defs f by (auto simp: js_map split: if_splits sum.splits)
  show "res = Inr () \<Longrightarrow> js_get (dk_files d') target = Some (Json v)"
    using defs f by (auto simp: js_map split: if_splits sum.splits)
  show "a \<noteq> Inr () \<Longrightarrow> res \<noteq> Inr () \<and> js_get (dk_files d') target = js_get (dk_files d) target"
    using defs f by (auto simp: js_map split: if_splits sum.splits)
  show "res = Inr () \<Longrightarrow> js_get (dk_files d') ?t = None"
    using defs f by (auto simp: js_map split: if_splits sum.splits)
qed

text \<open>The directories a path goes through, from the root down.\<close>

fun directory_paths :: "string \<Rightarrow> string list \<Rightarrow> string list" where
  "directory_paths parent [] = []"
| "directory_paths parent (s # ss) =
     (let current = (if parent = [] then s else parent @ CHR ''/'' # s)
      in current # directory_paths current ss)"

lemma directory_paths_longer:
  "p \<in> set (directory_paths parent ss) \<Longrightarrow> \<forall>s \<in> set ss. s \<noteq> [] \<Longrightarrow> length parent < length p"
proof (induction parent ss rule: directory_paths.induct)
  case (2 parent s ss)
  then show ?case by (fastforce simp: Let_def split: if_splits)
qed simp

lemma ensure_other_paths:
  assumes "ensureOwnedDirectory env parent ss pending = (res, pending')"
    and "p \<notin> set (directory_paths parent ss)"
  shows "js_get pending' p = js_get pending p"
  using assms
proof (induction env parent ss pending rule: ensureOwnedDirectory.induct)
  case (2 env parent s ss pending)
  then show ?case
    by (auto simp: Let_def js_map split: if_splits)
qed simp

lemma ensure_synced:
  assumes "ensureOwnedDirectory env parent ss pending = (Inr (), pending')" "\<forall>s \<in> set ss. s \<noteq> []"
    and "p \<in> set (directory_paths parent ss)"
  shows "js_get pending' p = None \<and> (de_mkdir (env p) = Dir_Created \<longrightarrow> de_syncDirectory (env p))"
  using assms
proof (induction ss arbitrary: parent pending)
  case (Cons s ss)
  define cur where "cur = (if parent = [] then s else parent @ CHR ''/'' # s)"
  have paths: "directory_paths parent (s # ss) = cur # directory_paths cur ss"
    by (simp add: cur_def Let_def)
  have fresh: "cur \<notin> set (directory_paths cur ss)"
    using directory_paths_longer [of cur cur ss] Cons.prems(2) by auto
  note run = Cons.prems(1) [unfolded ensureOwnedDirectory.simps(2) Let_def, folded cur_def]
  let ?pend = "if de_mkdir (env cur) = Dir_Created \<or> js_get pending cur \<noteq> None
    then js_delete cur (js_set cur parent pending) else pending"
  have rest: "ensureOwnedDirectory env cur ss ?pend = (Inr (), pending')"
    and sync: "de_mkdir (env cur) = Dir_Created \<Longrightarrow> de_syncDirectory (env cur)"
    using run by (auto split: if_splits)
  have "js_get ?pend cur = None" by (auto simp: js_map)
  with ensure_other_paths [OF rest fresh] sync
  have "js_get pending' cur = None \<and> (de_mkdir (env cur) = Dir_Created \<longrightarrow> de_syncDirectory (env cur))"
    by simp
  then show ?case using Cons.prems(2,3) Cons.IH [OF rest] unfolding paths by auto
qed simp

section \<open>Properties\<close>

text \<open>
  C29. No stored path escapes the storage root: whatever relative path is given, with any mix of
  dots, dot-dots and repeated slashes, a path that resolves contains no dot-dot segment and is not
  absolute; a path that would escape is refused.
\<close>
theorem resolved_paths_stay_inside:
  assumes "resolve_path p = Inr q"
  shows "''..'' \<notin> set (split_path q) \<and> hd q \<noteq> CHR ''/''"
  using assms by (rule resolve_inside)

lemma resolved_witness:
  "resolve_path ''tasks//./x/../a.json'' = Inr ''tasks/a.json''
   \<and> ''..'' \<notin> set (split_path ''tasks/a.json'') \<and> hd ''tasks/a.json'' \<noteq> CHR ''/''
   \<and> resolve_path ''tasks/../../etc'' = Inl Type_Error"
proof -
  have "resolve_path ''tasks//./x/../a.json'' = Inr ''tasks/a.json''"
    "resolve_path ''tasks/../../etc'' = Inl Type_Error"
    by (simp_all add: resolve_path_def normalize_path_def Let_def)
  with resolved_paths_stay_inside [OF this(1)] show ?thesis by blast
qed

text \<open>
  C7. Writes are atomic under every combination of faults: afterwards the target holds its old
  content or the complete new value, never a partial one; a write reported successful has
  replaced it and left no temporary file; a write whose ownership check fails, the check the
  fencing callers pass, reports the failure and leaves the target untouched; no other path changes.
\<close>
theorem write_is_atomic:
  assumes "writeJson env assertCurrent relativePath v d = (res, d')"
    and "resolve_path relativePath = Inr target"
  shows "js_get (dk_files d') target \<in> {js_get (dk_files d) target, Some (Json v)}
    \<and> (res = Inr () \<longrightarrow> js_get (dk_files d') target = Some (Json v)
        \<and> js_get (dk_files d') (temporary_path target (we_id env)) = None)
    \<and> (assertCurrent \<noteq> Inr () \<longrightarrow> res \<noteq> Inr () \<and> js_get (dk_files d') target = js_get (dk_files d) target)
    \<and> (\<forall>p. p \<noteq> target \<longrightarrow> p \<noteq> temporary_path target (we_id env) \<longrightarrow>
          js_get (dk_files d') p = js_get (dk_files d) p)"
  using writeJson_frame [OF assms] by blast

definition sample_dir_env :: dir_env where
  "sample_dir_env = \<lparr>de_mkdir = Dir_Exists, de_syncDirectory = True, de_removeDirectory = True\<rparr>"

definition calm_env :: write_env where
  "calm_env = \<lparr>we_id = ''1'', we_dirs = (\<lambda>_. sample_dir_env), we_writeFile = Written,
     we_syncFile = True, we_rename = True, we_syncDirectory = True, we_unlink = True\<rparr>"

definition empty_disk :: "'v disk" where
  "empty_disk = \<lparr>dk_files = [], dk_pendingDirectorySyncs = []\<rparr>"

lemmas write_eval = writeJson_def resolve_path_def normalize_path_def calm_env_def sample_dir_env_def
  empty_disk_def write_steps_def temporary_path_def directory_segments_def safe_id_char_def
  is_digit_def Let_def

lemma write_atomic_witness:
  "\<exists>d'. writeJson (calm_env\<lparr>we_syncDirectory := False\<rparr>) (Inr ()) ''a.json'' (7::nat) empty_disk
      = (Inl Plain_Error, d') \<and> js_get (dk_files d') ''a.json'' \<in> {None, Some (Json 7)}"
proof -
  obtain d' where w: "writeJson (calm_env\<lparr>we_syncDirectory := False\<rparr>) (Inr ()) ''a.json'' (7::nat) empty_disk
      = (Inl Plain_Error, d')"
    by (simp add: write_eval)
  have "resolve_path ''a.json'' = Inr ''a.json''"
    by (simp add: resolve_path_def normalize_path_def Let_def)
  from write_is_atomic [OF w this] w show ?thesis by (auto simp: empty_disk_def)
qed

text \<open>
  C30. A successful write is durable: every directory on its path has been synced into its parent
  if it was new, in this write or an earlier failed one, so no created directory is left pending.
\<close>
theorem successful_write_is_durable:
  assumes "writeJson env assertCurrent relativePath v d = (Inr (), d')"
    and "resolve_path relativePath = Inr target"
    and "p \<in> set (directory_paths [] (directory_segments target))"
  shows "js_get (dk_pendingDirectorySyncs d') p = None
    \<and> (de_mkdir (we_dirs env p) = Dir_Created \<longrightarrow> de_syncDirectory (we_dirs env p))"
proof -
  obtain res pending where dirs: "ensureOwnedDirectory (we_dirs env) [] (directory_segments target)
      (dk_pendingDirectorySyncs d) = (res, pending)" by fastforce
  have "res = Inr ()" "dk_pendingDirectorySyncs d' = pending"
    using assms(1,2) dirs by (auto simp: writeJson_def Let_def split: if_splits sum.splits prod.splits)
  with ensure_synced [OF _ resolve_directory_segments [OF assms(2)] assms(3)] dirs show ?thesis by simp
qed

lemma durable_witness:
  "\<exists>d'. writeJson calm_env (Inr ()) ''tasks/a.json'' (7::nat)
        (empty_disk\<lparr>dk_pendingDirectorySyncs := [(''tasks'', [])]\<rparr>) = (Inr (), d')
      \<and> js_get (dk_pendingDirectorySyncs d') ''tasks'' = None"
proof -
  obtain d' where w: "writeJson calm_env (Inr ()) ''tasks/a.json'' (7::nat)
        (empty_disk\<lparr>dk_pendingDirectorySyncs := [(''tasks'', [])]\<rparr>) = (Inr (), d')"
    by (simp add: write_eval)
  have r: "resolve_path ''tasks/a.json'' = Inr ''tasks/a.json''"
    by (simp add: resolve_path_def normalize_path_def Let_def)
  have s: "directory_segments ''tasks/a.json'' = [''tasks'']"
    by (simp add: directory_segments_def Let_def)
  from successful_write_is_durable [OF w r, of "''tasks''"] w show ?thesis by (simp add: s Let_def)
qed

end
