(* ===== verification/Mesh_State.thy ===== *)
theory Mesh_State
  imports Mesh_Errors
begin

text \<open>
  Code that changes state and may throw: an operation takes the state to a result and a state, and
  the state is returned with an error too, because an operation can fail after it has changed
  something. \<open>triple\<close> is the Hoare logic of such operations, with a postcondition for each
  outcome.
\<close>

section \<open>Operations\<close>

type_synonym ('s, 'a) stateful = "'s \<Rightarrow> (mesh_error, 'a) result \<times> 's"

definition bindS :: "('s, 'a) stateful \<Rightarrow> ('a \<Rightarrow> ('s, 'b) stateful) \<Rightarrow> ('s, 'b) stateful" where
  "bindS m f d = (case m d of (Inl e, d') \<Rightarrow> (Inl e, d') | (Inr x, d') \<Rightarrow> f x d')"

definition liftS :: "(mesh_error, 'a) result \<Rightarrow> ('s, 'a) stateful" where
  "liftS r d = (r, d)"

text \<open>
  The answers of the fenced state store (\<open>src/storage/WorkerOwnerLock.ts\<close>,
  \<open>FencedStateStore.update\<close>): the value is stored; it is refused before it is stored; it is stored,
  and the check of the ownership after that refuses.
\<close>

datatype update_answer = Update_Done | Update_Refused | Update_Then_Refused

section \<open>Reasoning\<close>

lemma bindS_lift [simp]:
  "bindS (liftS (Inr x)) f = f x" "bindS (liftS (Inl e)) f = liftS (Inl e)"
  by (simp_all add: bindS_def liftS_def fun_eq_iff)

lemma bindS_read [simp]:
  "bindS (\<lambda>d. (g d, d)) f d = (case g d of Inl e \<Rightarrow> (Inl e, d) | Inr x \<Rightarrow> f x d)"
  by (simp add: bindS_def split: sum.split)

lemma bindS_Inl: "m d = (Inl e, d') \<Longrightarrow> bindS m f d = (Inl e, d')"
  by (simp add: bindS_def)

text \<open>
  \<open>triple P m Q E\<close>: started in a state satisfying \<open>P\<close>, the operation ends with a value and a
  state satisfying \<open>Q\<close>, or with an error and a state satisfying \<open>E\<close>.
\<close>

definition triple ::
  "('s \<Rightarrow> bool) \<Rightarrow> ('s, 'a) stateful \<Rightarrow> ('a \<Rightarrow> 's \<Rightarrow> bool) \<Rightarrow> ('s \<Rightarrow> bool) \<Rightarrow> bool" where
  "triple P m Q E \<longleftrightarrow> (\<forall>d. P d \<longrightarrow> (case m d of (Inl e, d') \<Rightarrow> E d' | (Inr x, d') \<Rightarrow> Q x d'))"

named_theorems triple_rules "rules for stateful operations"

lemma triple_bind [triple_rules]:
  "triple P m R E \<Longrightarrow> (\<And>x. triple (R x) (f x) Q E) \<Longrightarrow> triple P (bindS m f) Q E"
  unfolding triple_def bindS_def by (fastforce split: prod.splits sum.splits)

lemma triple_lift:
  "(\<And>d e. P d \<Longrightarrow> r = Inl e \<Longrightarrow> E d) \<Longrightarrow> (\<And>d x. P d \<Longrightarrow> r = Inr x \<Longrightarrow> Q x d) \<Longrightarrow> triple P (liftS r) Q E"
  by (auto simp: triple_def liftS_def split: sum.split)

lemma triple_weaken:
  "triple P m Q E \<Longrightarrow> (\<And>d. P' d \<Longrightarrow> P d) \<Longrightarrow> (\<And>x d. Q x d \<Longrightarrow> Q' x d) \<Longrightarrow> (\<And>d. E d \<Longrightarrow> E' d) \<Longrightarrow>
   triple P' m Q' E'"
  unfolding triple_def by (fastforce split: prod.splits sum.splits)

lemma triple_Inr: "triple P m Q E \<Longrightarrow> P d \<Longrightarrow> m d = (Inr x, d') \<Longrightarrow> Q x d'"
  by (auto simp: triple_def dest!: spec [of _ d])

lemma triple_Inl: "triple P m Q E \<Longrightarrow> P d \<Longrightarrow> m d = (Inl e, d') \<Longrightarrow> E d'"
  by (auto simp: triple_def dest!: spec [of _ d])

lemma triple_pre: "(\<And>d0. P d0 \<Longrightarrow> triple (\<lambda>d. d = d0) m Q E) \<Longrightarrow> triple P m Q E"
  by (auto simp: triple_def)

lemma triple_snd: "triple P m (\<lambda>_. E) E \<Longrightarrow> P d \<Longrightarrow> E (snd (m d))"
  by (cases "m d") (auto simp: triple_def split: sum.splits dest!: spec [of _ d])

lemma triple_result: "triple P m Q E \<Longrightarrow> (\<And>x d. Q x d \<Longrightarrow> E d) \<Longrightarrow> P d \<Longrightarrow> E (snd (m d))"
  by (rule triple_snd [OF triple_weaken])

text \<open>Operations that leave the state alone.\<close>

definition unchanging :: "('s, 'a) stateful \<Rightarrow> bool" where
  "unchanging m \<longleftrightarrow> (\<forall>d. snd (m d) = d)"

lemma unchanging_bind [intro]: "unchanging m \<Longrightarrow> (\<And>x. unchanging (f x)) \<Longrightarrow> unchanging (bindS m f)"
  by (auto simp: unchanging_def bindS_def split: prod.split sum.split) (metis snd_conv)+

lemma unchanging_lift [simp, intro]: "unchanging (liftS r)"
  by (simp add: unchanging_def liftS_def)

lemma unchanging_read [simp, intro]: "unchanging (\<lambda>d. (f d, d))"
  by (simp add: unchanging_def)

end
