(* ===== verification/Task_Store.thy ===== *)
theory Task_Store
  imports Task_Requests Atomic_Files Mesh_State
begin

text \<open>
  The task store (\<open>src/tasks/FileTaskStore.ts\<close>): one JSON file per task, named by the peer and
  the task, read through the schema, compacted and migrated on read, and written only while this
  process still owns the device's broker generation.

  Every operation runs exclusively (the mutation queue), so an operation is a function from the
  disk to a result and a disk; the result is an error or a value, and the disk is returned in both
  cases because an operation can fail after it has written. What each await answers (the clock,
  the file system, the ownership lock) is an argument.
\<close>

section \<open>State and environment\<close>

text \<open>A JSON value: one with the shape of a task record, or anything else.\<close>

datatype task_json = Foreign_Json | Record_Json task_record

type_synonym task_disk = "task_json disk"

type_synonym 'a store_op = "(task_disk, 'a) stateful"

record store_config =
  sc_migrationDeviceId :: "string option"
  sc_fenced :: bool
  sc_generation :: "string option"

text \<open>The four answers one \<open>assertWritable\<close> gets from the ownership lock, in their order.\<close>

record ownership_env =
  ow_isOwner :: bool
  ow_generation :: "string option"
  ow_assertOwner :: "(mesh_error, unit) result"
  ow_generationAfter :: "string option"

record save_env =
  sv_now :: string
  sv_before :: ownership_env
  sv_write :: write_env
  sv_during :: ownership_env

record read_env =
  rd_readable :: bool
  rd_save :: save_env

record store_env =
  se_readdir :: bool
  se_list :: "string \<Rightarrow> read_env"
  se_get :: read_env
  se_save :: save_env

definition enableV2RoutingMigration ::
  "formats \<Rightarrow> string \<Rightarrow> store_config \<Rightarrow> (mesh_error, store_config) result" where
  "enableV2RoutingMigration fmt deviceId cfg =
     (case uuidSchema fmt deviceId of
        None \<Rightarrow> Inl Zod_Error
      | Some parsed \<Rightarrow>
          if sc_migrationDeviceId cfg \<notin> {None, Some parsed} then Inl Plain_Error
          else Inr (cfg\<lparr>sc_migrationDeviceId := Some parsed\<rparr>))"

section \<open>File names\<close>

definition taskPath :: "string \<Rightarrow> string \<Rightarrow> string" where
  "taskPath peerId taskId = ''tasks/'' @ peerId @ ''--'' @ taskId @ ''.json''"

fun index_of :: "string \<Rightarrow> string \<Rightarrow> nat option" where
  "index_of pat [] = (if pat = [] then Some 0 else None)"
| "index_of pat (c # cs) =
     (if take (length pat) (c # cs) = pat then Some 0 else map_option Suc (index_of pat cs))"

fun last_index_of :: "string \<Rightarrow> string \<Rightarrow> nat option" where
  "last_index_of pat [] = (if pat = [] then Some 0 else None)"
| "last_index_of pat (c # cs) =
     (case last_index_of pat cs of
        Some i \<Rightarrow> Some (Suc i)
      | None \<Rightarrow> if take (length pat) (c # cs) = pat then Some 0 else None)"

definition ends_with :: "string \<Rightarrow> string \<Rightarrow> bool" where
  "ends_with s suffix \<longleftrightarrow> length suffix \<le> length s \<and> drop (length s - length suffix) s = suffix"

definition parseTaskFileName ::
  "formats \<Rightarrow> string \<Rightarrow> string \<Rightarrow> (mesh_error, string \<times> string) result" where
  "parseTaskFileName fmt path name =
     (let stem = take (length name - 5) name in
      case index_of ''--'' stem of
        None \<Rightarrow> Inl (Storage_Corruption path)
      | Some separator \<Rightarrow>
          if separator = 0 \<or> last_index_of ''--'' stem \<noteq> Some separator
          then Inl (Storage_Corruption path)
          else case (uuidSchema fmt (take separator stem), uuidSchema fmt (drop (separator + 2) stem)) of
            (Some peerId, Some taskId) \<Rightarrow>
              if name \<noteq> peerId @ ''--'' @ taskId @ ''.json'' then Inl (Storage_Corruption path)
              else Inr (peerId, taskId)
          | _ \<Rightarrow> Inl (Storage_Corruption path))"

definition parseRecord :: "formats \<Rightarrow> string \<Rightarrow> task_json \<Rightarrow> (mesh_error, task_record) result" where
  "parseRecord fmt path v =
     (case v of
        Foreign_Json \<Rightarrow> Inl (Storage_Corruption path)
      | Record_Json r \<Rightarrow>
          (case persistedTaskRecordSchema fmt r of
             None \<Rightarrow> Inl (Storage_Corruption path)
           | Some r' \<Rightarrow> Inr r'))"

section \<open>Fenced writes\<close>

definition worker_draining :: mesh_error where
  "worker_draining = Mesh_Domain_Error WORKER_DRAINING True"

definition assertWritable :: "store_config \<Rightarrow> ownership_env \<Rightarrow> (mesh_error, unit) result" where
  "assertWritable cfg env =
     (if \<not> sc_fenced cfg then Inr ()
      else case sc_generation cfg of
        None \<Rightarrow> Inl worker_draining
      | Some generation \<Rightarrow>
          if \<not> ow_isOwner env \<or> ow_generation env \<noteq> Some generation then Inl worker_draining
          else bindR (ow_assertOwner env) (\<lambda>_.
            if ow_generationAfter env \<noteq> Some generation then Inl worker_draining else Inr ()))"

text \<open>The sequence every writer of the store ends with.\<close>

definition fenced_write ::
  "store_config \<Rightarrow> save_env \<Rightarrow> string \<Rightarrow> task_record \<Rightarrow> task_record store_op" where
  "fenced_write cfg env path r =
     bindS (liftS (assertWritable cfg (sv_before env))) (\<lambda>_.
     bindS (writeJson (sv_write env) (Inr ()) path (Record_Json r)) (\<lambda>_.
     bindS (liftS (assertWritable cfg (sv_during env))) (\<lambda>_.
       liftS (Inr r))))"

definition compactOnRead ::
  "formats \<Rightarrow> store_config \<Rightarrow> save_env \<Rightarrow> string \<Rightarrow> task_record \<Rightarrow> task_record store_op" where
  "compactOnRead fmt cfg env path r =
     bindS (liftS (case (tr_schema r, sc_migrationDeviceId cfg) of
                     (SchemaV1, Some deviceId) \<Rightarrow> migrateTaskRecordV1 fmt r deviceId
                   | _ \<Rightarrow> Inr r)) (\<lambda>migrated.
     bindS (liftS (compactTaskEventJournal migrated (sv_now env))) (\<lambda>compacted.
       if compacted = r then liftS (Inr r)
       else case persistedTaskRecordSchema fmt compacted of
         None \<Rightarrow> liftS (Inl (Storage_Corruption path))
       | Some validated \<Rightarrow> fenced_write cfg env path validated))"

definition saveUnlocked ::
  "formats \<Rightarrow> store_config \<Rightarrow> save_env \<Rightarrow> task_record \<Rightarrow> task_record store_op" where
  "saveUnlocked fmt cfg env r =
     bindS (liftS (compactTaskEventJournal r (sv_now env))) (\<lambda>compacted.
       case persistedTaskRecordSchema fmt compacted of
         None \<Rightarrow> liftS (Inl Type_Error)
       | Some validated \<Rightarrow>
           fenced_write cfg env (taskPath (tr_peerId validated) (tr_taskId validated)) validated)"

section \<open>Reading\<close>

definition getOwnedUnlocked ::
  "formats \<Rightarrow> store_config \<Rightarrow> read_env \<Rightarrow> string \<Rightarrow> string \<Rightarrow> task_record option store_op" where
  "getOwnedUnlocked fmt cfg env peerId taskId =
     (case (uuidSchema fmt peerId, uuidSchema fmt taskId) of
        (Some parsedPeerId, Some parsedId) \<Rightarrow>
          (let path = taskPath parsedPeerId parsedId in
           bindS (\<lambda>d. (readJson (rd_readable env) path d, d)) (\<lambda>value.
             case value of
               None \<Rightarrow> liftS (Inr None)
             | Some v \<Rightarrow>
                 bindS (liftS (parseRecord fmt path v)) (\<lambda>r.
                   if tr_peerId r \<noteq> parsedPeerId \<or> tr_taskId r \<noteq> parsedId
                   then liftS (Inl (Storage_Corruption path))
                   else bindS (compactOnRead fmt cfg (rd_save env) path r) (\<lambda>r'. liftS (Inr (Some r'))))))
      | _ \<Rightarrow> liftS (Inr None))"

definition task_file :: "string \<Rightarrow> string" where
  "task_file name = ''tasks/'' @ name"

fun list_loop ::
  "formats \<Rightarrow> store_config \<Rightarrow> (string \<Rightarrow> read_env) \<Rightarrow> task_record list \<Rightarrow> string list
     \<Rightarrow> task_record list store_op" where
  "list_loop fmt cfg env records [] = liftS (Inr records)"
| "list_loop fmt cfg env records (name # names) =
     (if \<not> ends_with name ''.json'' then list_loop fmt cfg env records names
      else let path = task_file name in
        bindS (liftS (parseTaskFileName fmt path name)) (\<lambda>(peerId, taskId).
        bindS (\<lambda>d. (readJson (rd_readable (env path)) path d, d)) (\<lambda>value.
          case value of
            None \<Rightarrow> list_loop fmt cfg env records names
          | Some v \<Rightarrow>
              bindS (liftS (parseRecord fmt path v)) (\<lambda>r.
                if tr_peerId r \<noteq> peerId \<or> tr_taskId r \<noteq> taskId
                then liftS (Inl (Storage_Corruption path))
                else bindS (compactOnRead fmt cfg (rd_save (env path)) path r) (\<lambda>r'.
                  list_loop fmt cfg env (records @ [r']) names)))))"

definition listUnlocked ::
  "formats \<Rightarrow> store_config \<Rightarrow> store_env \<Rightarrow> task_record list store_op" where
  "listUnlocked fmt cfg env =
     bindS (\<lambda>d. (list_directory (se_readdir env) ''tasks'' d, d)) (\<lambda>names.
       list_loop fmt cfg (se_list env) [] (sort names))"

definition listForRecovery ::
  "formats \<Rightarrow> store_config \<Rightarrow> store_env \<Rightarrow> task_record list store_op" where
  "listForRecovery fmt cfg env =
     bindS (listUnlocked fmt cfg env) (\<lambda>records.
       liftS (Inr (filter (\<lambda>r. tr_state r \<notin> {Completed, Failed, Cancelled, TimedOut}) records)))"

section \<open>Operations\<close>

definition createUnlocked ::
  "formats \<Rightarrow> store_config \<Rightarrow> store_env \<Rightarrow> task_record \<Rightarrow> task_record store_op" where
  "createUnlocked fmt cfg env r =
     bindS (liftS (compactTaskEventJournal r (sv_now (se_save env)))) (\<lambda>compacted.
       case persistedTaskRecordSchema fmt compacted of
         None \<Rightarrow> liftS (Inl Type_Error)
       | Some validated \<Rightarrow>
           bindS (getOwnedUnlocked fmt cfg (se_get env) (tr_peerId validated) (tr_taskId validated))
             (\<lambda>existing.
                if existing \<noteq> None then liftS (Inl (mesh_fail TASK_ID_CONFLICT))
                else fenced_write cfg (se_save env)
                       (taskPath (tr_peerId validated) (tr_taskId validated)) validated))"

definition create_task ::
  "formats \<Rightarrow> store_config \<Rightarrow> store_env \<Rightarrow> task_record \<Rightarrow> unit store_op" where
  "create_task fmt cfg env r = bindS (createUnlocked fmt cfg env r) (\<lambda>_. liftS (Inr ()))"

definition createIdempotent ::
  "formats \<Rightarrow> (string \<Rightarrow> string) \<Rightarrow> store_config \<Rightarrow> store_env \<Rightarrow> owned_task_start \<Rightarrow> task_record
     \<Rightarrow> (task_record \<times> bool) store_op" where
  "createIdempotent fmt sha cfg env request r =
     bindS (listUnlocked fmt cfg env) (\<lambda>records.
     bindS (liftS (matchIdempotentStart fmt sha records request)) (\<lambda>existing.
       case existing of
         Some e \<Rightarrow> liftS (Inr (e, False))
       | None \<Rightarrow> bindS (createUnlocked fmt cfg env r) (\<lambda>created. liftS (Inr (created, True)))))"

definition createRoutedIdempotent ::
  "formats \<Rightarrow> (string \<Rightarrow> string) \<Rightarrow> store_config \<Rightarrow> store_env \<Rightarrow> owned_routed_start \<Rightarrow> task_record
     \<Rightarrow> (task_record \<times> bool) store_op" where
  "createRoutedIdempotent fmt sha cfg env request r =
     bindS (listUnlocked fmt cfg env) (\<lambda>records.
     bindS (liftS (matchIdempotentRoutedStart fmt sha records request)) (\<lambda>existing.
       case existing of
         Some e \<Rightarrow> liftS (Inr (e, False))
       | None \<Rightarrow> bindS (createUnlocked fmt cfg env r) (\<lambda>created. liftS (Inr (created, True)))))"

definition findIdempotentStart ::
  "formats \<Rightarrow> (string \<Rightarrow> string) \<Rightarrow> store_config \<Rightarrow> store_env \<Rightarrow> owned_task_start
     \<Rightarrow> task_record option store_op" where
  "findIdempotentStart fmt sha cfg env request =
     bindS (listUnlocked fmt cfg env) (\<lambda>records. liftS (matchIdempotentStart fmt sha records request))"

definition current_owned ::
  "formats \<Rightarrow> store_config \<Rightarrow> store_env \<Rightarrow> string \<Rightarrow> string \<Rightarrow> task_record store_op" where
  "current_owned fmt cfg env peerId taskId =
     bindS (getOwnedUnlocked fmt cfg (se_get env) peerId taskId) (\<lambda>r.
       liftS (getOwnedTask fmt r peerId))"

definition transitionOwned ::
  "formats \<Rightarrow> store_config \<Rightarrow> store_env \<Rightarrow> string \<Rightarrow> string \<Rightarrow> domain_event \<Rightarrow> task_record store_op" where
  "transitionOwned fmt cfg env peerId taskId event =
     bindS (current_owned fmt cfg env peerId taskId) (\<lambda>current.
     bindS (liftS (taskReducer current event)) (\<lambda>updated.
       if updated \<noteq> current then saveUnlocked fmt cfg (se_save env) updated
       else liftS (Inr updated)))"

definition recordRecoveryDescriptorOwned ::
  "formats \<Rightarrow> store_config \<Rightarrow> store_env \<Rightarrow> string \<Rightarrow> string \<Rightarrow> recovery_descriptor
     \<Rightarrow> task_record store_op" where
  "recordRecoveryDescriptorOwned fmt cfg env peerId taskId descriptor =
     bindS (current_owned fmt cfg env peerId taskId) (\<lambda>current.
       if \<not> recoveryDescriptorSchema descriptor then liftS (Inl Zod_Error)
       else case tr_recoveryDescriptor current of
         Some existing \<Rightarrow>
           if rd_adapter existing \<noteq> rd_adapter descriptor
              \<or> rd_sessionId existing \<noteq> rd_sessionId descriptor
              \<or> rd_conversationId existing \<noteq> rd_conversationId descriptor
           then liftS (Inl (mesh_fail TASK_ID_CONFLICT))
           else liftS (Inr current)
       | None \<Rightarrow>
           saveUnlocked fmt cfg (se_save env) (current\<lparr>tr_recoveryDescriptor := Some descriptor\<rparr>))"

definition migrateOwnedV1 ::
  "formats \<Rightarrow> store_config \<Rightarrow> store_env \<Rightarrow> string \<Rightarrow> string \<Rightarrow> string \<Rightarrow> task_record store_op" where
  "migrateOwnedV1 fmt cfg env peerId taskId deviceId =
     bindS (current_owned fmt cfg env peerId taskId) (\<lambda>current.
       if tr_schema current \<noteq> SchemaV1 then liftS (Inr current)
       else bindS (liftS (migrateTaskRecordV1 fmt current deviceId)) (saveUnlocked fmt cfg (se_save env)))"

section \<open>File names determine the task\<close>

text \<open>A string without a double dash inside or at its ends, as every UUID is.\<close>

definition dash_separated :: "string \<Rightarrow> bool" where
  "dash_separated s \<longleftrightarrow>
     s \<noteq> [] \<and> hd s \<noteq> CHR ''-'' \<and> last s \<noteq> CHR ''-'' \<and> \<not> has_infix ''--'' s"

lemma last_index_None: "pat \<noteq> [] \<Longrightarrow> last_index_of pat s = None \<longleftrightarrow> \<not> has_infix pat s"
  by (induction s) (auto split: option.splits)

lemma last_index_append: "last_index_of pat s = Some i \<Longrightarrow> last_index_of pat (p @ s) = Some (length p + i)"
  by (induction p) auto

lemma last_index_dashes: "dash_separated t \<Longrightarrow> last_index_of ''--'' (''--'' @ t) = Some 0"
proof -
  assume t: "dash_separated t"
  then have "\<not> has_infix ''--'' (CHR ''-'' # t)"
    by (cases t) (auto simp: dash_separated_def)
  then have "last_index_of ''--'' (CHR ''-'' # t) = None"
    using last_index_None [of "''--''"] by blast
  then show ?thesis by simp
qed

lemma index_dashes:
  "p = [] \<or> last p \<noteq> CHR ''-'' \<and> \<not> has_infix ''--'' p \<Longrightarrow> index_of ''--'' (p @ ''--'' @ t) = Some (length p)"
proof (induction p)
  case (Cons c p)
  then have "index_of ''--'' (p @ ''--'' @ t) = Some (length p)"
    by (auto split: if_splits)
  moreover have "take 2 (c # p @ ''--'' @ t) \<noteq> ''--''"
    using Cons.prems by (cases p) (auto simp: numeral_2_eq_2)
  ultimately show ?case by (simp add: numeral_2_eq_2)
qed simp

definition file_name :: "string \<Rightarrow> string \<Rightarrow> string" where
  "file_name peerId taskId = peerId @ ''--'' @ taskId @ ''.json''"

lemma taskPath_file_name: "taskPath p t = task_file (file_name p t)"
  by (simp add: taskPath_def file_name_def task_file_def)

lemma task_file_inject [simp]: "task_file a = task_file b \<longleftrightarrow> a = b"
  by (simp add: task_file_def)

lemma file_name_stem: "take (length (file_name p t) - 5) (file_name p t) = p @ ''--'' @ t"
  by (simp add: file_name_def)

lemma uuid_dash_separated: "uuids_regular fmt \<Longrightarrow> fmt_uuid fmt s \<Longrightarrow> dash_separated s"
  by (simp add: uuids_regular_def dash_separated_def has_infix_iff)

text \<open>An identifier in normal form.\<close>

definition normal_uuid :: "formats \<Rightarrow> string \<Rightarrow> bool" where
  "normal_uuid fmt s \<longleftrightarrow> fmt_uuid fmt s \<and> js_lower s = s"

lemma normal_uuidSchema: "normal_uuid fmt s \<Longrightarrow> uuidSchema fmt s = Some s"
  by (simp add: normal_uuid_def uuidSchema_def)

lemma uuidSchema_normal: "uuids_regular fmt \<Longrightarrow> uuidSchema fmt s = Some t \<Longrightarrow> normal_uuid fmt t"
  by (auto simp: normal_uuid_def uuidSchema_Some uuid_lower)

lemma parse_file_name:
  assumes "uuids_regular fmt" "normal_uuid fmt p" "normal_uuid fmt t"
  shows "parseTaskFileName fmt path (file_name p t) = Inr (p, t)"
proof -
  have p: "dash_separated p" and t: "dash_separated t"
    using assms uuid_dash_separated by (auto simp: normal_uuid_def)
  have "index_of ''--'' (p @ ''--'' @ t) = Some (length p)"
    using p by (intro index_dashes) (simp add: dash_separated_def)
  moreover have "last_index_of ''--'' (p @ ''--'' @ t) = Some (length p)"
    using last_index_append [OF last_index_dashes [OF t], of p] by simp
  moreover have "p \<noteq> []" using p by (simp add: dash_separated_def)
  ultimately show ?thesis
    using assms(2,3)
    by (simp add: parseTaskFileName_def file_name_stem normal_uuidSchema Let_def del: append_Cons)
      (simp add: file_name_def)
qed

lemma parse_file_name_Inr:
  assumes "uuids_regular fmt" "parseTaskFileName fmt path name = Inr (p, t)"
  shows "name = file_name p t \<and> normal_uuid fmt p \<and> normal_uuid fmt t"
proof -
  define stem where "stem = take (length name - 5) name"
  note parse = assms(2) [unfolded parseTaskFileName_def Let_def, folded stem_def]
  then obtain sep where sep: "index_of ''--'' stem = Some sep"
    by (cases "index_of ''--'' stem") simp_all
  define u v where "u = uuidSchema fmt (take sep stem)" and "v = uuidSchema fmt (drop (sep + 2) stem)"
  have "u = Some p \<and> v = Some t \<and> name = p @ ''--'' @ t @ ''.json''"
    using parse unfolding sep option.case u_def [symmetric] v_def [symmetric]
    by (cases u; cases v) (auto split: if_splits)
  with uuidSchema_normal [OF assms(1)] show ?thesis
    unfolding u_def v_def file_name_def by blast
qed

lemma file_name_inject:
  assumes "uuids_regular fmt" "normal_uuid fmt p" "normal_uuid fmt t" "normal_uuid fmt q" "normal_uuid fmt u"
    and "file_name p t = file_name q u"
  shows "p = q \<and> t = u"
  using parse_file_name [OF assms(1-3), of "[]"] parse_file_name [OF assms(1,4,5), of "[]"]
  unfolding assms(6) by simp

lemma uuid_no_slash: "uuids_regular fmt \<Longrightarrow> fmt_uuid fmt s \<Longrightarrow> CHR ''/'' \<notin> set s"
proof
  assume "uuids_regular fmt" "fmt_uuid fmt s" "CHR ''/'' \<in> set s"
  then have "is_hex_char (js_lower_char (CHR ''/''))"
    by (auto simp: uuids_regular_def list_all_iff)
  then show False by (simp add: is_hex_char_def is_digit_def js_lower_char_def Let_def)
qed

lemma file_name_plain:
  assumes "uuids_regular fmt" "normal_uuid fmt p" "normal_uuid fmt t"
  shows "CHR ''/'' \<notin> set (file_name p t)" "plain_segment (file_name p t)" "ends_with (file_name p t) ''.json''"
proof -
  show "CHR ''/'' \<notin> set (file_name p t)"
    using assms uuid_no_slash by (auto simp: file_name_def normal_uuid_def)
  show "plain_segment (file_name p t)"
    by (cases p) (simp_all add: plain_segment_def file_name_def)
  show "ends_with (file_name p t) ''.json''"
    by (simp add: ends_with_def file_name_def)
qed

lemma resolve_tasks: "CHR ''/'' \<notin> set name \<Longrightarrow> plain_segment name \<Longrightarrow> resolve_path (task_file name) = Inr (task_file name)"
  unfolding task_file_def by (rule resolve_plain) (simp add: split_single plain_segment_def)

lemma resolve_taskPath:
  "uuids_regular fmt \<Longrightarrow> normal_uuid fmt p \<Longrightarrow> normal_uuid fmt t \<Longrightarrow>
   resolve_path (taskPath p t) = Inr (taskPath p t)"
  using file_name_plain [of fmt p t] resolve_tasks by (simp add: taskPath_file_name)

section \<open>The abstract store\<close>

text \<open>What the disk means: the tasks, by peer and task id.\<close>

type_synonym task_key = "string \<times> string"

definition key_of :: "task_record \<Rightarrow> task_key" where
  "key_of r = (tr_peerId r, tr_taskId r)"

definition tasks :: "task_disk \<Rightarrow> task_key \<Rightarrow> task_record option" where
  "tasks d k =
     (case js_get (dk_files d) (taskPath (fst k) (snd k)) of
        Some (Json (Record_Json r)) \<Rightarrow> if key_of r = k then Some r else None
      | _ \<Rightarrow> None)"

text \<open>Every task file holds a valid record under the name of its task.\<close>

definition store_ok :: "formats \<Rightarrow> task_disk \<Rightarrow> bool" where
  "store_ok fmt d \<longleftrightarrow>
     js_wf (dk_files d)
     \<and> (\<forall>name c. js_get (dk_files d) (task_file name) = Some c
          \<longrightarrow> ends_with name ''.json''
          \<longrightarrow> (\<exists>r. c = Json (Record_Json r) \<and> record_valid fmt r
                \<and> task_file name = taskPath (tr_peerId r) (tr_taskId r)))"

lemma store_ok_alt:
  "store_ok fmt d \<longleftrightarrow>
     js_wf (dk_files d)
     \<and> (\<forall>name c. js_get (dk_files d) (task_file name) = Some c
          \<longrightarrow> ends_with name ''.json''
          \<longrightarrow> (\<exists>r. c = Json (Record_Json r) \<and> record_valid fmt r
                \<and> name = file_name (tr_peerId r) (tr_taskId r)))"
  by (simp add: store_ok_def taskPath_file_name)

lemma valid_ids: "record_valid fmt r \<Longrightarrow> normal_uuid fmt (tr_peerId r) \<and> normal_uuid fmt (tr_taskId r)"
  by (simp add: record_valid_split normal_uuid_def)

lemma taskPath_inject:
  assumes "uuids_regular fmt" "normal_uuid fmt p" "normal_uuid fmt t" "normal_uuid fmt q" "normal_uuid fmt u"
  shows "taskPath p t = taskPath q u \<longleftrightarrow> p = q \<and> t = u"
  using file_name_inject [OF assms] by (auto simp: taskPath_file_name)

lemma store_ok_file:
  assumes "uuids_regular fmt" "store_ok fmt d" "normal_uuid fmt p" "normal_uuid fmt t"
  shows "js_get (dk_files d) (taskPath p t) = map_option (\<lambda>r. Json (Record_Json r)) (tasks d (p, t))"
proof (cases "js_get (dk_files d) (taskPath p t)")
  case (Some c)
  from assms(2) Some obtain r where r: "c = Json (Record_Json r)" "record_valid fmt r"
    "file_name p t = file_name (tr_peerId r) (tr_taskId r)"
    using file_name_plain [OF assms(1,3,4)] unfolding store_ok_alt taskPath_file_name by metis
  with file_name_inject [OF assms(1,3,4), of "tr_peerId r" "tr_taskId r"] valid_ids [OF r(2)]
  have "key_of r = (p, t)" by (simp add: key_of_def)
  with Some r show ?thesis by (simp add: tasks_def)
qed (simp add: tasks_def)

lemma tasks_valid:
  assumes "store_ok fmt d" "tasks d k = Some r"
  shows "record_valid fmt r" "key_of r = k" "normal_uuid fmt (fst k)" "normal_uuid fmt (snd k)"
proof -
  from assms(2) have content: "js_get (dk_files d) (taskPath (fst k) (snd k)) = Some (Json (Record_Json r))"
    and key: "key_of r = k"
    by (auto simp: tasks_def split: option.splits content.splits task_json.splits if_splits)
  show "key_of r = k" by (rule key)
  have "ends_with (file_name (fst k) (snd k)) ''.json''"
    by (simp add: ends_with_def file_name_def)
  with assms(1) content show v: "record_valid fmt r"
    unfolding store_ok_alt taskPath_file_name by blast
  from valid_ids [OF v] key show "normal_uuid fmt (fst k)" "normal_uuid fmt (snd k)"
    by (auto simp: key_of_def)
qed

section \<open>Writing one record\<close>

text \<open>What a write of \<open>v\<close> may leave behind: nothing, or \<open>v\<close> under its key.\<close>

definition wrote :: "task_record \<Rightarrow> task_disk \<Rightarrow> task_disk \<Rightarrow> bool" where
  "wrote v d d' \<longleftrightarrow> tasks d' = tasks d \<or> tasks d' = (tasks d)(key_of v \<mapsto> v)"

lemma json_not_temporary:
  "ends_with name ''.json'' \<Longrightarrow> task_file name \<noteq> temporary_path target i"
proof
  assume j: "ends_with name ''.json''" and eq: "task_file name = temporary_path target i"
  from j obtain stem where "name = stem @ ''.json''"
    unfolding ends_with_def by (metis append_take_drop_id)
  with eq have "task_file stem @ ''.json'' = (target @ CHR ''.'' # i) @ ''.tmp''"
    by (simp add: temporary_path_def task_file_def)
  from arg_cong [OF this, of last] show False by simp
qed

lemma writeJson_wf:
  "writeJson env a p v d = (res, d') \<Longrightarrow> js_wf (dk_files d) \<Longrightarrow> js_wf (dk_files d')"
  by (auto simp: writeJson_def write_steps_def Let_def js_map
      split: sum.splits prod.splits if_splits write_answer.splits)

lemma write_task:
  assumes "uuids_regular fmt" "store_ok fmt d" "record_valid fmt v"
    and "writeJson env a (taskPath (tr_peerId v) (tr_taskId v)) (Record_Json v) d = (res, d')"
  shows "store_ok fmt d'" "wrote v d d'" "res = Inr () \<Longrightarrow> tasks d' = (tasks d)(key_of v \<mapsto> v)"
proof -
  let ?t = "taskPath (tr_peerId v) (tr_taskId v)"
  note ids = valid_ids [OF assms(3)]
  have target: "resolve_path ?t = Inr ?t"
    using resolve_taskPath [OF assms(1)] ids by blast
  note w = writeJson_frame [OF assms(4) target]
  have json: "ends_with (file_name p t) ''.json''" for p t
    by (simp add: ends_with_def file_name_def)
  have other: "js_get (dk_files d') (task_file name) = js_get (dk_files d) (task_file name)"
    if "ends_with name ''.json''" "task_file name \<noteq> ?t" for name
    using w(1) [OF that(2) json_not_temporary [OF that(1)]] .
  show "store_ok fmt d'"
    unfolding store_ok_alt
  proof (intro conjI allI impI)
    show "js_wf (dk_files d')"
      using writeJson_wf [OF assms(4)] assms(2) by (simp add: store_ok_alt)
    fix name c assume c: "js_get (dk_files d') (task_file name) = Some c" and n: "ends_with name ''.json''"
    show "\<exists>r. c = Json (Record_Json r) \<and> record_valid fmt r
      \<and> name = file_name (tr_peerId r) (tr_taskId r)"
    proof (cases "task_file name = ?t")
      case True
      with c w(2) assms(3) have "js_get (dk_files d) (task_file name) = Some c \<or> c = Json (Record_Json v)"
        by auto
      then show ?thesis
      proof
        assume "js_get (dk_files d) (task_file name) = Some c"
        with assms(2) n show ?thesis unfolding store_ok_alt by blast
      next
        assume "c = Json (Record_Json v)"
        with True assms(3) show ?thesis by (auto simp: taskPath_file_name)
      qed
    next
      case False
      with c other [OF n] assms(2) n show ?thesis unfolding store_ok_alt by auto
    qed
  qed
  have rest: "tasks d' k = tasks d k" if "k \<noteq> key_of v" for k
  proof (cases "taskPath (fst k) (snd k) = ?t")
    case True
    have "tasks d k = None"
    proof (rule ccontr)
      assume "tasks d k \<noteq> None"
      then obtain r where "tasks d k = Some r" by blast
      from tasks_valid [OF assms(2) this] have "k = key_of v"
        using taskPath_inject [OF assms(1)] ids True by (cases k) (simp add: key_of_def)
      with that show False by simp
    qed
    moreover have "tasks d' k = None"
    proof (rule ccontr)
      assume "tasks d' k \<noteq> None"
      then obtain r where "tasks d' k = Some r" by blast
      from tasks_valid [OF \<open>store_ok fmt d'\<close> this] have "k = key_of v"
        using taskPath_inject [OF assms(1)] ids True by (cases k) (simp add: key_of_def)
      with that show False by simp
    qed
    ultimately show ?thesis by simp
  next
    case False
    then have "js_get (dk_files d') (taskPath (fst k) (snd k)) = js_get (dk_files d) (taskPath (fst k) (snd k))"
      using other [OF json] by (simp add: taskPath_file_name)
    then show ?thesis by (simp add: tasks_def)
  qed
  have "tasks d' (key_of v) \<in> {tasks d (key_of v), Some v}"
    using w(2) by (auto simp: tasks_def key_of_def)
  then consider "tasks d' (key_of v) = tasks d (key_of v)" | "tasks d' (key_of v) = Some v" by blast
  then show "wrote v d d'"
  proof cases
    case 1
    have "tasks d' k = tasks d k" for k using 1 rest [of k] by (cases "k = key_of v") simp_all
    then show ?thesis by (simp add: wrote_def fun_eq_iff)
  next
    case 2
    have "tasks d' k = ((tasks d)(key_of v \<mapsto> v)) k" for k
      using 2 rest [of k] by (cases "k = key_of v") simp_all
    then have "tasks d' = (tasks d)(key_of v \<mapsto> v)" by (rule ext)
    then show ?thesis by (simp add: wrote_def)
  qed
  assume "res = Inr ()"
  from w(3) [OF this] have "tasks d' (key_of v) = Some v" by (simp add: tasks_def key_of_def)
  with rest show "tasks d' = (tasks d)(key_of v \<mapsto> v)" by (auto simp: fun_eq_iff)
qed

lemma fenced_write_triple:
  assumes "uuids_regular fmt" "record_valid fmt v"
  shows "triple (\<lambda>d. d = d0 \<and> store_ok fmt d) (fenced_write cfg env (taskPath (tr_peerId v) (tr_taskId v)) v)
    (\<lambda>x d. store_ok fmt d \<and> x = v \<and> tasks d = (tasks d0)(key_of v \<mapsto> v))
    (\<lambda>d. store_ok fmt d \<and> wrote v d0 d)"
proof -
  let ?E = "\<lambda>d. store_ok fmt d \<and> wrote v d0 d"
  have "triple (\<lambda>d. d = d0 \<and> store_ok fmt d)
      (writeJson (sv_write env) (Inr ()) (taskPath (tr_peerId v) (tr_taskId v)) (Record_Json v))
      (\<lambda>_ d. store_ok fmt d \<and> tasks d = (tasks d0)(key_of v \<mapsto> v)) ?E"
    using write_task [OF assms(1) _ assms(2)]
    by (auto simp: triple_def split: prod.split sum.split)
  then show ?thesis
    unfolding fenced_write_def
    by (intro triple_rules)
      (rule triple_lift, simp add: wrote_def, assumption | assumption |
        (rule triple_lift; simp add: wrote_def))+
qed

section \<open>Rewriting on read\<close>

text \<open>
  Reading may rewrite a record: old events are dropped and a version 1 record is migrated.
  Everything else is kept; \<open>core\<close> is what compaction and migration never touch.
\<close>

definition core :: "task_record \<Rightarrow> task_record" where
  "core r = r\<lparr>tr_schema := SchemaV1, tr_events := [], tr_eventsTruncated := False,
     tr_earliestAvailableEventSeq := None\<rparr>"

definition schema_step :: "task_schema \<Rightarrow> task_schema \<Rightarrow> bool" where
  "schema_step s s' \<longleftrightarrow>
     s' = s \<or> s = SchemaV1 \<and> (\<exists>v. s' = SchemaV2 v \<and> v2_sourceWorkspaceIdentity v = None)"

definition rewritten :: "task_record \<Rightarrow> task_record \<Rightarrow> bool" where
  "rewritten r r' \<longleftrightarrow> core r' = core r \<and> schema_step (tr_schema r) (tr_schema r')"

lemma rewritten_refl [simp, intro]: "rewritten r r"
  by (simp add: rewritten_def schema_step_def)

lemma rewritten_trans: "rewritten a b \<Longrightarrow> rewritten b c \<Longrightarrow> rewritten a c"
  unfolding rewritten_def schema_step_def by (metis task_schema.distinct(1))

lemma core_simps:
  "tr_peerId (core r) = tr_peerId r" "tr_taskId (core r) = tr_taskId r"
  "tr_delegationRequestId (core r) = tr_delegationRequestId r" "tr_state (core r) = tr_state r"
  "tr_requestHash (core r) = tr_requestHash r" "tr_workspaceId (core r) = tr_workspaceId r"
  "tr_summary (core r) = tr_summary r" "tr_failure (core r) = tr_failure r"
  "tr_eventSeq (core r) = tr_eventSeq r" "tr_pendingInput (core r) = tr_pendingInput r"
  "tr_answeredInputs (core r) = tr_answeredInputs r"
  "tr_recoveryDescriptor (core r) = tr_recoveryDescriptor r"
  "tr_cancellationDeadline (core r) = tr_cancellationDeadline r"
  "tr_workspaceLeaseKey (core r) = tr_workspaceLeaseKey r" "tr_updatedAt (core r) = tr_updatedAt r"
  by (simp_all add: core_def)

lemma rewritten_fields:
  assumes "rewritten r r'"
  shows "key_of r' = key_of r" "tr_delegationRequestId r' = tr_delegationRequestId r"
    "tr_state r' = tr_state r" "tr_requestHash r' = tr_requestHash r" "tr_summary r' = tr_summary r"
    "tr_failure r' = tr_failure r" "tr_eventSeq r' = tr_eventSeq r" "tr_peerId r' = tr_peerId r"
    "tr_taskId r' = tr_taskId r" "tr_workspaceId r' = tr_workspaceId r" "source_of r' = source_of r"
    "tr_recoveryDescriptor r' = tr_recoveryDescriptor r"
proof -
  have c: "core r' = core r" using assms by (simp add: rewritten_def)
  show "key_of r' = key_of r" "tr_delegationRequestId r' = tr_delegationRequestId r"
    "tr_state r' = tr_state r" "tr_requestHash r' = tr_requestHash r" "tr_summary r' = tr_summary r"
    "tr_failure r' = tr_failure r" "tr_eventSeq r' = tr_eventSeq r" "tr_peerId r' = tr_peerId r"
    "tr_taskId r' = tr_taskId r" "tr_workspaceId r' = tr_workspaceId r"
    "tr_recoveryDescriptor r' = tr_recoveryDescriptor r"
    unfolding key_of_def by (metis c core_simps)+
  show "source_of r' = source_of r"
    using assms by (auto simp: rewritten_def schema_step_def source_of_def)
qed

lemma compact_core:
  assumes "compactTaskEventJournal r at = Inr r'"
  shows "core r' = core r" "tr_schema r' = tr_schema r"
proof -
  from arg_cong [OF compact_forms [OF assms], of core] show "core r' = core r"
    by (simp add: core_def)
  show "tr_schema r' = tr_schema r" by (rule compact_frame(11) [OF assms])
qed

lemma compact_rewritten: "compactTaskEventJournal r at = Inr r' \<Longrightarrow> rewritten r r'"
  using compact_core [of r at r'] by (simp add: rewritten_def schema_step_def)

lemma compact_events_subset:
  "compactTaskEventJournal r at = Inr r' \<Longrightarrow> set (tr_events r') \<subseteq> set (tr_events r)"
  using compact_events_suffix [of r at r'] by (auto dest: in_set_dropD)

lemma compact_record_valid:
  assumes "record_valid fmt r" "compactTaskEventJournal r at = Inr r'"
  shows "record_valid fmt r'"
proof -
  note v = assms(1) [unfolded record_valid_split]
  note f = compact_frame [OF assms(2)]
  have "validateFullJournal r'"
    using compact_valid [OF _ assms(2)] v by (simp add: validateFullJournal_iff)
  moreover have "list_all (taskEventRecordSchema fmt) (tr_events r')"
    using v compact_events_subset [OF assms(2)] by (auto simp: list_all_iff)
  moreover have "body_ok fmt r' = body_ok fmt r" "validateTaskState r' = validateTaskState r"
    "target_matches_workspace r' = target_matches_workspace r"
    by (simp_all only: body_ok_def validateTaskState_def target_matches_workspace_def f)
  ultimately show ?thesis using v by (simp only: record_valid_split f)
qed

lemma valid_schema: "record_valid fmt r \<Longrightarrow> persistedTaskRecordSchema fmt r = Some r"
  by (simp add: record_valid_def)

lemma migrate_rewritten:
  assumes "uuids_regular fmt" "record_valid fmt r" "migrateTaskRecordV1 fmt r dev = Inr r'"
  shows "rewritten r r'" "record_valid fmt r'"
proof -
  have "r' = r \<or> tr_schema r = SchemaV1 \<and> fmt_uuid fmt dev"
    using assms(3) by (auto simp: migrateTaskRecordV1_def uuidSchema_def split: task_schema.splits if_splits)
  moreover have "rewritten r r' \<and> record_valid fmt r'" if s: "tr_schema r = SchemaV1" "fmt_uuid fmt dev"
    using migrate_forms [OF assms(1,2) s] assms(3)
    by (auto simp: rewritten_def core_def schema_step_def s)
  ultimately show "rewritten r r'" "record_valid fmt r'" using assms(2) by auto
qed

text \<open>Reads leave every task in place, possibly rewritten.\<close>

definition settled :: "task_disk \<Rightarrow> task_disk \<Rightarrow> bool" where
  "settled d0 d \<longleftrightarrow> (\<forall>k. rel_option rewritten (tasks d0 k) (tasks d k))"

lemma settled_refl [simp, intro]: "settled d d"
  by (simp add: settled_def option.rel_refl)

lemma settled_trans: "settled a b \<Longrightarrow> settled b c \<Longrightarrow> settled a c"
  unfolding settled_def
  by (metis (mono_tags, opaque_lifting) option.rel_transp rewritten_trans transpD transpI)

lemma settled_update:
  "tasks d0 (key_of r) = Some r \<Longrightarrow> rewritten r r' \<Longrightarrow> tasks d = (tasks d0)(key_of r \<mapsto> r') \<Longrightarrow> settled d0 d"
  by (auto simp: settled_def option.rel_refl)

lemma settled_wrote:
  "tasks d0 (key_of r) = Some r \<Longrightarrow> rewritten r v \<Longrightarrow> wrote v d0 d \<Longrightarrow> settled d0 d"
  using rewritten_fields(1) [of r v] by (auto simp: settled_def wrote_def option.rel_refl)

lemma settled_at: "settled d0 d \<Longrightarrow> rel_option rewritten (tasks d0 k) (tasks d k)"
  unfolding settled_def by blast

lemma settled_Some: "settled d0 d \<Longrightarrow> tasks d0 k = Some r \<Longrightarrow> \<exists>r'. tasks d k = Some r' \<and> rewritten r r'"
  using settled_at [of d0 d k] by (cases "tasks d k") simp_all

lemma settled_None: "settled d0 d \<Longrightarrow> tasks d k = None \<longleftrightarrow> tasks d0 k = None"
  using settled_at [of d0 d k] by (cases "tasks d k"; cases "tasks d0 k") simp_all

text \<open>\<open>confined k d0 d\<close>: a read that may have rewritten the task \<open>k\<close> and no other.\<close>

definition confined :: "task_key \<Rightarrow> task_disk \<Rightarrow> task_disk \<Rightarrow> bool" where
  "confined k d0 d \<longleftrightarrow> settled d0 d \<and> (\<forall>j. j \<noteq> k \<longrightarrow> tasks d j = tasks d0 j)"

lemma confined_refl [simp, intro]: "confined k d d"
  by (simp add: confined_def)

lemma confined_settled: "confined k d0 d \<Longrightarrow> settled d0 d"
  by (simp add: confined_def)

lemma confined_wrote:
  "tasks d0 (key_of r) = Some r \<Longrightarrow> rewritten r v \<Longrightarrow> wrote v d0 d \<Longrightarrow> confined (key_of r) d0 d"
  using settled_wrote [of d0 r v d] rewritten_fields(1) [of r v]
  by (auto simp: confined_def wrote_def)

lemma confined_other: "confined k d0 d \<Longrightarrow> j \<noteq> k \<Longrightarrow> tasks d j = tasks d0 j"
  unfolding confined_def by blast

lemma confined_Some:
  assumes "confined k d0 d" "tasks d0 k = Some r"
  shows "\<exists>x. tasks d = (tasks d0)(k \<mapsto> x) \<and> rewritten r x"
proof -
  obtain x where x: "tasks d k = Some x" "rewritten r x"
    using settled_Some [OF confined_settled [OF assms(1)] assms(2)] by blast
  have "tasks d j = ((tasks d0)(k \<mapsto> x)) j" for j
    using confined_other [OF assms(1), of j] x(1) by (cases "j = k") simp_all
  with x(2) show ?thesis by blast
qed

section \<open>The readers\<close>

lemma triple_if:
  "(b \<Longrightarrow> triple P m Q E) \<Longrightarrow> (\<not> b \<Longrightarrow> triple P n Q E) \<Longrightarrow> triple P (if b then m else n) Q E"
  by simp

lemma compactOnRead_triple:
  assumes "uuids_regular fmt" "record_valid fmt r" "tasks d0 (key_of r) = Some r"
  shows "triple (\<lambda>d. d = d0 \<and> store_ok fmt d)
    (compactOnRead fmt cfg env (taskPath (tr_peerId r) (tr_taskId r)) r)
    (\<lambda>r' d. store_ok fmt d \<and> tasks d = (tasks d0)(key_of r \<mapsto> r') \<and> rewritten r r' \<and> record_valid fmt r')
    (\<lambda>d. store_ok fmt d \<and> confined (key_of r) d0 d)"
proof -
  let ?P = "\<lambda>d. d = d0 \<and> store_ok fmt d" and ?E = "\<lambda>d. store_ok fmt d \<and> confined (key_of r) d0 d"
  let ?mig = "case (tr_schema r, sc_migrationDeviceId cfg) of
    (SchemaV1, Some deviceId) \<Rightarrow> migrateTaskRecordV1 fmt r deviceId | _ \<Rightarrow> Inr r"
  have mig: "rewritten r m \<and> record_valid fmt m" if "?mig = Inr m" for m
    using that assms(2) migrate_rewritten [OF assms(1,2)]
    by (auto split: task_schema.splits option.splits)
  have compact: "rewritten r c \<and> record_valid fmt c"
    if "?mig = Inr m" "compactTaskEventJournal m (sv_now env) = Inr c" for m c
    using mig [OF that(1)] compact_rewritten [OF that(2)] compact_record_valid [OF _ that(2)] rewritten_trans
    by blast
  have keep: "tasks d0 = (tasks d0)(key_of r \<mapsto> r)" using assms(3) by (simp add: fun_upd_idem)
  have save: "triple ?P (fenced_write cfg env (taskPath (tr_peerId r) (tr_taskId r)) c)
      (\<lambda>r' d. store_ok fmt d \<and> tasks d = (tasks d0)(key_of r \<mapsto> r') \<and> rewritten r r' \<and> record_valid fmt r') ?E"
    if c: "rewritten r c" "record_valid fmt c" for c
    using triple_weaken [OF fenced_write_triple [OF assms(1) c(2), of d0 cfg env]]
      rewritten_fields(1,8,9) [OF c(1)] confined_wrote [OF assms(3) c(1)] c by fastforce
  show ?thesis
    unfolding compactOnRead_def
  proof (rule triple_bind [where R = "\<lambda>m d. ?P d \<and> ?mig = Inr m"])
    show "triple ?P (liftS ?mig) (\<lambda>m d. ?P d \<and> ?mig = Inr m) ?E"
      by (rule triple_lift) auto
    fix m
    show "triple (\<lambda>d. ?P d \<and> ?mig = Inr m)
      (bindS (liftS (compactTaskEventJournal m (sv_now env))) (\<lambda>compacted.
         if compacted = r then liftS (Inr r)
         else case persistedTaskRecordSchema fmt compacted of
           None \<Rightarrow> liftS (Inl (Storage_Corruption (taskPath (tr_peerId r) (tr_taskId r))))
         | Some validated \<Rightarrow> fenced_write cfg env (taskPath (tr_peerId r) (tr_taskId r)) validated))
      (\<lambda>r' d. store_ok fmt d \<and> tasks d = (tasks d0)(key_of r \<mapsto> r') \<and> rewritten r r' \<and> record_valid fmt r') ?E"
    proof (rule triple_bind [where R = "\<lambda>c d. ?P d \<and> rewritten r c \<and> record_valid fmt c"])
      show "triple (\<lambda>d. ?P d \<and> ?mig = Inr m) (liftS (compactTaskEventJournal m (sv_now env)))
        (\<lambda>c d. ?P d \<and> rewritten r c \<and> record_valid fmt c) ?E"
        using compact by (intro triple_lift) auto
      fix c
      show "triple (\<lambda>d. ?P d \<and> rewritten r c \<and> record_valid fmt c)
        (if c = r then liftS (Inr r)
         else case persistedTaskRecordSchema fmt c of
           None \<Rightarrow> liftS (Inl (Storage_Corruption (taskPath (tr_peerId r) (tr_taskId r))))
         | Some validated \<Rightarrow> fenced_write cfg env (taskPath (tr_peerId r) (tr_taskId r)) validated)
        (\<lambda>r' d. store_ok fmt d \<and> tasks d = (tasks d0)(key_of r \<mapsto> r') \<and> rewritten r r' \<and> record_valid fmt r') ?E"
      proof (cases "rewritten r c \<and> record_valid fmt c")
        case True
        then show ?thesis
          using triple_weaken [OF save [of c]] keep assms(2)
          by (auto simp: valid_schema intro!: triple_lift)
      qed (auto simp: triple_def)
    qed
  qed
qed

lemma readJson_task:
  assumes "uuids_regular fmt" "store_ok fmt d" "normal_uuid fmt p" "normal_uuid fmt t"
  shows "readJson readable (taskPath p t) d =
    (if readable then Inr (map_option Record_Json (tasks d (p, t))) else Inl Plain_Error)"
  using resolve_taskPath [OF assms(1,3,4)] store_ok_file [OF assms]
  by (cases "tasks d (p, t)") (simp_all add: readJson_def)

lemma parseRecord_stored: "record_valid fmt r \<Longrightarrow> parseRecord fmt path (Record_Json r) = Inr r"
  by (simp add: parseRecord_def valid_schema)

text \<open>What a lookup returns is what is stored afterwards.\<close>

definition read_result ::
  "task_disk \<Rightarrow> formats \<Rightarrow> string \<Rightarrow> string \<Rightarrow> task_record option \<Rightarrow> task_disk \<Rightarrow> bool" where
  "read_result d0 fmt peerId taskId x d \<longleftrightarrow>
     (case x of
        None \<Rightarrow> d = d0 \<and> (\<not> fmt_uuid fmt peerId \<or> \<not> fmt_uuid fmt taskId
                          \<or> tasks d0 (js_lower peerId, js_lower taskId) = None)
      | Some r \<Rightarrow> key_of r = (js_lower peerId, js_lower taskId) \<and> fmt_uuid fmt peerId
          \<and> (\<exists>r0. tasks d0 (key_of r) = Some r0 \<and> rewritten r0 r)
          \<and> tasks d = (tasks d0)(key_of r \<mapsto> r) \<and> record_valid fmt r)"

lemma read_result_settled: "read_result d0 fmt p t x d \<Longrightarrow> settled d0 d"
  by (auto simp: read_result_def settled_def option.rel_refl split: option.splits)

lemma read_result_confined: "read_result d0 fmt p t x d \<Longrightarrow> confined (js_lower p, js_lower t) d0 d"
  by (auto simp: read_result_def settled_def confined_def option.rel_refl split: option.splits)

lemma getOwned_triple:
  assumes "uuids_regular fmt"
  shows "triple (\<lambda>d. d = d0 \<and> store_ok fmt d) (getOwnedUnlocked fmt cfg env peerId taskId)
    (\<lambda>x d. store_ok fmt d \<and> read_result d0 fmt peerId taskId x d)
    (\<lambda>d. store_ok fmt d \<and> confined (js_lower peerId, js_lower taskId) d0 d)"
proof (cases "store_ok fmt d0 \<and> fmt_uuid fmt peerId \<and> fmt_uuid fmt taskId")
  case False
  then show ?thesis
    by (auto simp: triple_def getOwnedUnlocked_def liftS_def read_result_def uuidSchema_def
        split: option.splits if_splits)
next
  case True
  let ?p = "js_lower peerId" and ?t = "js_lower taskId"
  let ?Q = "\<lambda>x d. store_ok fmt d \<and> read_result d0 fmt peerId taskId x d"
  let ?E = "\<lambda>d. store_ok fmt d \<and> confined (js_lower peerId, js_lower taskId) d0 d"
  have norm: "normal_uuid fmt ?p" "normal_uuid fmt ?t"
    using True uuid_lower [OF assms] by (simp_all add: normal_uuid_def)
  have read: "readJson b (taskPath ?p ?t) d0 =
      (if b then Inr (map_option Record_Json (tasks d0 (?p, ?t))) else Inl Plain_Error)" for b
    using readJson_task [OF assms _ norm] True by blast
  show ?thesis
  proof (cases "tasks d0 (?p, ?t)")
    case None
    then show ?thesis
      using True read by (auto simp: triple_def getOwnedUnlocked_def read_result_def uuidSchema_def
          Let_def liftS_def)
  next
    case (Some r)
    have r: "record_valid fmt r" "key_of r = (?p, ?t)"
      using tasks_valid [of fmt d0] Some True by auto
    have c: "triple (\<lambda>d. d = d0 \<and> store_ok fmt d)
        (compactOnRead fmt cfg (rd_save env) (taskPath ?p ?t) r)
        (\<lambda>r' d. store_ok fmt d \<and> tasks d = (tasks d0)(key_of r \<mapsto> r') \<and> rewritten r r' \<and> record_valid fmt r') ?E"
      using compactOnRead_triple [OF assms r(1), of d0 cfg "rd_save env"] r(2) Some
      by (simp add: key_of_def)
    have "triple (\<lambda>d. d = d0 \<and> store_ok fmt d)
        (bindS (compactOnRead fmt cfg (rd_save env) (taskPath ?p ?t) r) (\<lambda>r'. liftS (Inr (Some r')))) ?Q ?E"
      by (rule triple_bind [OF c])
        (rule triple_lift; use Some r True rewritten_fields(1) in \<open>auto simp: read_result_def\<close>)
    moreover have "getOwnedUnlocked fmt cfg env peerId taskId d0 =
        (if rd_readable env
         then bindS (compactOnRead fmt cfg (rd_save env) (taskPath ?p ?t) r) (\<lambda>r'. liftS (Inr (Some r'))) d0
         else (Inl Plain_Error, d0))"
      using True read Some r parseRecord_stored [OF r(1)]
      by (simp add: getOwnedUnlocked_def uuidSchema_def key_of_def Let_def)
    ultimately show ?thesis
      using True by (simp add: triple_def)
  qed
qed

section \<open>Listing\<close>

definition listed :: "string list \<Rightarrow> task_disk \<Rightarrow> task_record list \<Rightarrow> bool" where
  "listed names d rs \<longleftrightarrow>
     (\<forall>r. r \<in> set rs \<longleftrightarrow> tasks d (key_of r) = Some r \<and> file_name (tr_peerId r) (tr_taskId r) \<in> set names)"

lemma list_loop_triple:
  assumes "uuids_regular fmt"
  shows "distinct (seen @ names) \<Longrightarrow>
    triple (\<lambda>d. store_ok fmt d \<and> settled d0 d \<and> listed seen d rs)
      (list_loop fmt cfg env rs names)
      (\<lambda>rs' d. store_ok fmt d \<and> settled d0 d \<and> listed (seen @ names) d rs')
      (\<lambda>d. store_ok fmt d \<and> settled d0 d)"
proof (induction names arbitrary: seen rs)
  case Nil
  show ?case by (auto intro!: triple_lift)
next
  case (Cons name names)
  let ?E = "\<lambda>d. store_ok fmt d \<and> settled d0 d"
  let ?Q = "\<lambda>rs' d. store_ok fmt d \<and> settled d0 d \<and> listed (seen @ name # names) d rs'"
  note IH = Cons.IH [of "seen @ [name]", simplified]
  have dist: "distinct (seen @ name # names)" by (rule Cons.prems)
  show ?case
  proof (rule triple_pre)
    fix d assume d: "store_ok fmt d \<and> settled d0 d \<and> listed seen d rs"
    have skip: "triple (\<lambda>x. x = d) (list_loop fmt cfg env rs names) ?Q ?E"
      if "\<And>r. tasks d (key_of r) = Some r \<Longrightarrow> file_name (tr_peerId r) (tr_taskId r) \<noteq> name"
    proof (rule triple_weaken [OF IH [of rs]])
      show "store_ok fmt x \<and> settled d0 x \<and> listed (seen @ [name]) x rs" if "x = d" for x
        using d that \<open>\<And>r. tasks d (key_of r) = Some r \<Longrightarrow> file_name (tr_peerId r) (tr_taskId r) \<noteq> name\<close>
        by (auto simp: listed_def)
    qed (use dist in auto)
    show "triple (\<lambda>x. x = d) (list_loop fmt cfg env rs (name # names)) ?Q ?E"
    proof (cases "ends_with name ''.json''")
      case False
      have "file_name a b \<noteq> name" for a b
        using False by (auto simp: ends_with_def file_name_def)
      with skip False show ?thesis by simp
    next
      case json: True
      show ?thesis
      proof (cases "parseTaskFileName fmt (task_file name) name")
        case (Inl e)
        with d json show ?thesis by (simp add: triple_def Let_def) (simp add: liftS_def)
      next
        case (Inr pt)
        obtain p t where pt: "pt = (p, t)" by (cases pt)
        from parse_file_name_Inr [OF assms Inr [unfolded pt]]
        have name: "name = file_name p t" and norm: "normal_uuid fmt p" "normal_uuid fmt t" by simp_all
        have path: "task_file name = taskPath p t" by (simp add: name taskPath_file_name)
        have read: "readJson b (taskPath p t) d =
            (if b then Inr (map_option Record_Json (tasks d (p, t))) else Inl Plain_Error)" for b
          using readJson_task [OF assms _ norm] d by blast
        note Inr' = Inr [unfolded path pt]
        show ?thesis
        proof (cases "tasks d (p, t)")
          case None
          have "file_name (tr_peerId r) (tr_taskId r) \<noteq> name" if "tasks d (key_of r) = Some r" for r
          proof
            assume "file_name (tr_peerId r) (tr_taskId r) = name"
            with file_name_inject [OF assms _ _ norm] tasks_valid [of fmt d, OF _ that] d
            have "key_of r = (p, t)" by (auto simp: name key_of_def)
            with None that show False by simp
          qed
          note rest = skip [OF this]
          show ?thesis
          proof (cases "rd_readable (env (taskPath p t))")
            case True
            then have "list_loop fmt cfg env rs (name # names) d = list_loop fmt cfg env rs names d"
              using json Inr' read None by (simp add: Let_def path)
            with rest show ?thesis by (simp add: triple_def)
          next
            case False
            then have "list_loop fmt cfg env rs (name # names) d = (Inl Plain_Error, d)"
              using json Inr' read None by (simp add: Let_def path)
            with d show ?thesis by (simp add: triple_def)
          qed
        next
          case (Some r)
          have r: "record_valid fmt r" "key_of r = (p, t)"
            using tasks_valid [of fmt d] Some d by auto
          then have r_ids: "tr_peerId r = p" "tr_taskId r = t" by (simp_all add: key_of_def)
          have c: "triple (\<lambda>x. x = d \<and> store_ok fmt x)
              (compactOnRead fmt cfg (rd_save (env (taskPath p t))) (taskPath p t) r)
              (\<lambda>r' x. store_ok fmt x \<and> tasks x = (tasks d)(key_of r \<mapsto> r') \<and> rewritten r r' \<and> record_valid fmt r')
              (\<lambda>x. store_ok fmt x \<and> settled d x)"
            by (rule triple_weaken [OF compactOnRead_triple [OF assms r(1), of d cfg, unfolded r_ids]])
              (use Some r(2) confined_settled in auto)
          have fresh: "file_name p t \<notin> set seen" using dist by (simp add: name)
          have step: "store_ok fmt x \<and> settled d0 x \<and> listed (seen @ [name]) x (rs @ [r'])"
            if "store_ok fmt x" "tasks x = (tasks d)(key_of r \<mapsto> r')" "rewritten r r'" for r' x
          proof (intro conjI)
            show "store_ok fmt x" by (rule that(1))
            have "settled d x" using settled_update [of d r r' x] Some r(2) that by simp
            with d settled_trans show "settled d0 x" by blast
            have k: "key_of r' = (p, t)" using rewritten_fields(1) [OF that(3)] r(2) by simp
            show "listed (seen @ [name]) x (rs @ [r'])"
              unfolding listed_def
            proof
              fix q
              have mem: "q \<in> set rs \<longleftrightarrow>
                  tasks d (key_of q) = Some q \<and> file_name (tr_peerId q) (tr_taskId q) \<in> set seen"
                using d by (simp add: listed_def)
              show "q \<in> set (rs @ [r']) \<longleftrightarrow> tasks x (key_of q) = Some q
                \<and> file_name (tr_peerId q) (tr_taskId q) \<in> set (seen @ [name])"
              proof (cases "key_of q = (p, t)")
                case True
                then have "q \<notin> set rs" using mem fresh by (auto simp: key_of_def)
                with True show ?thesis
                  using that(2) r(2) name by (auto simp: key_of_def)
              next
                case False
                then have "q \<noteq> r'" "tasks x (key_of q) = tasks d (key_of q)"
                  using k that(2) r(2) by auto
                moreover have "tasks d (key_of q) = Some q \<Longrightarrow>
                    file_name (tr_peerId q) (tr_taskId q) \<noteq> name"
                  using file_name_inject [OF assms _ _ norm] tasks_valid(3,4) [of fmt d "key_of q"] d False
                  by (auto simp: name key_of_def)
                ultimately show ?thesis using mem by auto
              qed
            qed
          qed
          have body: "triple (\<lambda>x. x = d)
              (bindS (compactOnRead fmt cfg (rd_save (env (taskPath p t))) (taskPath p t) r)
                 (\<lambda>r'. list_loop fmt cfg env (rs @ [r']) names)) ?Q ?E"
          proof (rule triple_bind)
            show "triple (\<lambda>x. x = d) (compactOnRead fmt cfg (rd_save (env (taskPath p t))) (taskPath p t) r)
              (\<lambda>r' x. store_ok fmt x \<and> tasks x = (tasks d)(key_of r \<mapsto> r') \<and> rewritten r r' \<and> record_valid fmt r') ?E"
              by (rule triple_weaken [OF c]) (use d settled_trans in blast)+
            show "triple (\<lambda>x. store_ok fmt x \<and> tasks x = (tasks d)(key_of r \<mapsto> r') \<and> rewritten r r' \<and> record_valid fmt r')
              (list_loop fmt cfg env (rs @ [r']) names) ?Q ?E" for r'
              by (rule triple_weaken [OF IH [of "rs @ [r']"]]) (use dist step in auto)
          qed
          show ?thesis
          proof (cases "rd_readable (env (taskPath p t))")
            case True
            then have "list_loop fmt cfg env rs (name # names) d =
                bindS (compactOnRead fmt cfg (rd_save (env (taskPath p t))) (taskPath p t) r)
                  (\<lambda>r'. list_loop fmt cfg env (rs @ [r']) names) d"
              using json Inr' read Some r parseRecord_stored [OF r(1)]
              by (simp add: Let_def path key_of_def)
            with body show ?thesis by (simp add: triple_def)
          next
            case False
            then have "list_loop fmt cfg env rs (name # names) d = (Inl Plain_Error, d)"
              using json Inr' read by (simp add: Let_def path)
            with d show ?thesis by (simp add: triple_def)
          qed
        qed
      qed
    qed
  qed
qed

lemma file_name_in_directory:
  assumes "uuids_regular fmt" "store_ok fmt d" "tasks d k = Some r"
  shows "file_name (tr_peerId r) (tr_taskId r) \<in> set (names_in ''tasks'' d)"
proof -
  note v = tasks_valid [OF assms(2,3)]
  let ?n = "file_name (tr_peerId r) (tr_taskId r)"
  from v(2) assms(3) have "js_get (dk_files d) (task_file ?n) \<noteq> None"
    by (auto simp: tasks_def key_of_def taskPath_file_name split: option.splits)
  then have "task_file ?n \<in> set (map fst (dk_files d))"
    by (metis domIff dom_map_of_conv_image_fst set_map)
  moreover have "CHR ''/'' \<notin> set ?n"
    using file_name_plain(1) [OF assms(1)] valid_ids [OF v(1)] by blast
  ultimately show ?thesis
    unfolding names_in_def set_map by (intro rev_image_eqI [of "task_file ?n"]) (simp_all add: task_file_def)
qed

lemma distinct_names_in: "js_wf (dk_files d) \<Longrightarrow> distinct (names_in dir d)"
proof -
  assume "js_wf (dk_files d)"
  then have "distinct (map fst (dk_files d))" by (simp add: js_wf_def)
  then show ?thesis
    unfolding names_in_def
    by (auto simp: distinct_map intro!: inj_onI) (metis append_take_drop_id)
qed

lemma list_triple:
  assumes "uuids_regular fmt"
  shows "triple (\<lambda>d. d = d0 \<and> store_ok fmt d) (listUnlocked fmt cfg env)
    (\<lambda>rs d. store_ok fmt d \<and> settled d0 d \<and> set rs = ran (tasks d))
    (\<lambda>d. store_ok fmt d \<and> settled d0 d)"
proof (rule triple_pre)
  fix d assume d: "d = d0 \<and> store_ok fmt d"
  let ?names = "names_in ''tasks'' d0"
  let ?E = "\<lambda>d. store_ok fmt d \<and> settled d0 d"
  have dir: "list_directory b ''tasks'' d0 = (if b then Inr ?names else Inl Plain_Error)" for b
    using resolve_plain [of "''tasks''"] by (simp add: list_directory_def plain_segment_def split_single)
  have dist: "distinct ([] @ sort ?names)"
  proof -
    have "js_wf (dk_files d0)" using d unfolding store_ok_alt by blast
    from distinct_names_in [OF this] show ?thesis by simp
  qed
  have all: "set rs = ran (tasks x)" if "store_ok fmt x" "settled d0 x" "listed (sort ?names) x rs" for rs x
  proof -
    have "file_name (tr_peerId r) (tr_taskId r) \<in> set ?names" if r: "tasks x (key_of r) = Some r" for r
    proof -
      obtain r0 where r0: "tasks d0 (key_of r) = Some r0" "rewritten r0 r"
        using settled_at [OF \<open>settled d0 x\<close>, of "key_of r"] r by (cases "tasks d0 (key_of r)") auto
      then show ?thesis
        using file_name_in_directory [OF assms _ r0(1)] d rewritten_fields(8,9) [OF r0(2)] by auto
    qed
    moreover from tasks_valid(2) [OF \<open>store_ok fmt x\<close>] have "tasks x k = Some r \<Longrightarrow> key_of r = k" for k r
      by blast
    then have "r \<in> ran (tasks x) \<longleftrightarrow> tasks x (key_of r) = Some r" for r
      unfolding ran_def by blast
    ultimately show ?thesis using that(3) by (auto simp: listed_def)
  qed
  have loop: "triple (\<lambda>x. x = d0) (list_loop fmt cfg (se_list env) [] (sort ?names))
      (\<lambda>rs d. store_ok fmt d \<and> settled d0 d \<and> set rs = ran (tasks d)) ?E"
    by (rule triple_weaken [OF list_loop_triple [OF assms dist]])
      (use d all in \<open>auto simp: listed_def\<close>)
  show "triple (\<lambda>x. x = d) (listUnlocked fmt cfg env)
      (\<lambda>rs d. store_ok fmt d \<and> settled d0 d \<and> set rs = ran (tasks d)) ?E"
    using loop d dir by (auto simp: triple_def listUnlocked_def)
qed

section \<open>The writers\<close>

text \<open>What is stored for a record: its compaction, normalised by the schema.\<close>

definition saved :: "formats \<Rightarrow> task_record \<Rightarrow> task_record \<Rightarrow> bool" where
  "saved fmt r v \<longleftrightarrow>
     (\<exists>at c. compactTaskEventJournal r at = Inr c \<and> persistedTaskRecordSchema fmt c = Some v)"

lemma saved_valid: "uuids_regular fmt \<Longrightarrow> saved fmt r v \<Longrightarrow> record_valid fmt v"
  using schema_result_valid by (auto simp: saved_def)

lemma saved_rewritten: "record_valid fmt r \<Longrightarrow> saved fmt r v \<Longrightarrow> rewritten r v"
  using compact_record_valid valid_schema compact_rewritten by (fastforce simp: saved_def)

lemma saved_fields:
  assumes "uuids_regular fmt" "saved fmt r v"
  shows "tr_peerId v = js_lower (tr_peerId r)" "tr_taskId v = js_lower (tr_taskId r)"
    "tr_delegationRequestId v = js_lower (tr_delegationRequestId r)"
    "tr_requestHash v = tr_requestHash r" "tr_state v = tr_state r" "tr_summary v = tr_summary r"
    "tr_failure v = tr_failure r" "tr_eventSeq v = tr_eventSeq r" "tr_createdAt v = tr_createdAt r"
    "tr_title v = tr_title r" "source_of v = source_of r" "tr_schema v = lower_schema (tr_schema r)"
    "tr_workspaceId v = js_lower (tr_workspaceId r)"
proof -
  from assms(2) obtain at c where c: "compactTaskEventJournal r at = Inr c"
    and p: "persistedTaskRecordSchema fmt c = Some v" by (auto simp: saved_def)
  note f = compact_frame [OF c] schema_result_valid(2) [OF assms(1) p]
  show "tr_peerId v = js_lower (tr_peerId r)" "tr_taskId v = js_lower (tr_taskId r)"
    "tr_delegationRequestId v = js_lower (tr_delegationRequestId r)"
    "tr_requestHash v = tr_requestHash r" "tr_state v = tr_state r" "tr_summary v = tr_summary r"
    "tr_failure v = tr_failure r" "tr_eventSeq v = tr_eventSeq r" "tr_createdAt v = tr_createdAt r"
    "tr_title v = tr_title r" "tr_schema v = lower_schema (tr_schema r)"
    "tr_workspaceId v = js_lower (tr_workspaceId r)"
    by (simp_all add: f lower_record_def)
  then show "source_of v = source_of r"
    by (cases "tr_schema r") (simp_all add: source_of_def lower_v2_def)
qed

lemma save_triple:
  assumes "uuids_regular fmt"
  shows "triple (\<lambda>d. d = d0 \<and> store_ok fmt d) (saveUnlocked fmt cfg env r)
    (\<lambda>v d. store_ok fmt d \<and> saved fmt r v \<and> tasks d = (tasks d0)(key_of v \<mapsto> v))
    (\<lambda>d. store_ok fmt d \<and> (tasks d = tasks d0 \<or> (\<exists>v. saved fmt r v \<and> tasks d = (tasks d0)(key_of v \<mapsto> v))))"
proof (cases "compactTaskEventJournal r (sv_now env)")
  case (Inl e)
  then show ?thesis by (simp add: saveUnlocked_def triple_def) (simp add: liftS_def)
next
  case (Inr c)
  show ?thesis
  proof (cases "persistedTaskRecordSchema fmt c")
    case None
    with Inr show ?thesis by (simp add: saveUnlocked_def triple_def) (simp add: liftS_def)
  next
    case (Some v)
    with Inr have s: "saved fmt r v" by (auto simp: saved_def)
    have "saveUnlocked fmt cfg env r = fenced_write cfg env (taskPath (tr_peerId v) (tr_taskId v)) v"
      by (simp add: saveUnlocked_def Inr Some)
    moreover have "triple (\<lambda>d. d = d0 \<and> store_ok fmt d)
        (fenced_write cfg env (taskPath (tr_peerId v) (tr_taskId v)) v)
        (\<lambda>v d. store_ok fmt d \<and> saved fmt r v \<and> tasks d = (tasks d0)(key_of v \<mapsto> v))
        (\<lambda>d. store_ok fmt d \<and> (tasks d = tasks d0 \<or> (\<exists>v. saved fmt r v \<and> tasks d = (tasks d0)(key_of v \<mapsto> v))))"
      by (rule triple_weaken [OF fenced_write_triple [OF assms saved_valid [OF assms s]]])
        (use s in \<open>auto simp: wrote_def\<close>)
    ultimately show ?thesis by simp
  qed
qed


text \<open>A lookup for its owner.\<close>

definition owned_current :: "task_disk \<Rightarrow> formats \<Rightarrow> string \<Rightarrow> string \<Rightarrow> task_record \<Rightarrow> task_disk \<Rightarrow> bool" where
  "owned_current d0 fmt peerId taskId r d \<longleftrightarrow>
     key_of r = (js_lower peerId, js_lower taskId)
     \<and> (\<exists>r0. tasks d0 (key_of r) = Some r0 \<and> rewritten r0 r)
     \<and> tasks d = (tasks d0)(key_of r \<mapsto> r) \<and> record_valid fmt r"

lemma current_owned_triple:
  assumes "uuids_regular fmt"
  shows "triple (\<lambda>d. d = d0 \<and> store_ok fmt d) (current_owned fmt cfg env peerId taskId)
    (\<lambda>r d. store_ok fmt d \<and> owned_current d0 fmt peerId taskId r d)
    (\<lambda>d. store_ok fmt d \<and> confined (js_lower peerId, js_lower taskId) d0 d)"
  unfolding current_owned_def
  by (rule triple_bind [OF getOwned_triple [OF assms]], rule triple_lift)
    (auto simp: getOwnedTask_def owned_current_def read_result_def uuidSchema_def key_of_def
      dest: read_result_confined split: option.splits if_splits)

section \<open>Evolution of a stored task\<close>

text \<open>
  What any operation may do to a stored task: its identity is fixed, its event counter never
  goes back, its status moves along the life cycle, and once it is terminal its outcome stays.
\<close>

definition evolved :: "task_record \<Rightarrow> task_record \<Rightarrow> bool" where
  "evolved r r' \<longleftrightarrow>
     key_of r' = key_of r \<and> tr_delegationRequestId r' = tr_delegationRequestId r
     \<and> tr_requestHash r' = tr_requestHash r \<and> source_of r' = source_of r
     \<and> schema_step (tr_schema r) (tr_schema r') \<and> tr_workspaceId r' = tr_workspaceId r
     \<and> tr_eventSeq r \<le> tr_eventSeq r' \<and> rtranclp lifecycle_step (tr_state r) (tr_state r')
     \<and> (is_terminal (tr_state r) \<longrightarrow>
          tr_state r' = tr_state r \<and> tr_summary r' = tr_summary r \<and> tr_failure r' = tr_failure r
          \<and> tr_eventSeq r' = tr_eventSeq r)"

lemma evolved_refl [simp, intro]: "evolved r r"
  by (simp add: evolved_def schema_step_def)

lemma evolved_trans: "evolved a b \<Longrightarrow> evolved b c \<Longrightarrow> evolved a c"
  unfolding evolved_def schema_step_def by (auto intro: rtranclp_trans)

lemma rewritten_evolved: "rewritten r r' \<Longrightarrow> evolved r r'"
  using rewritten_fields [of r r'] by (simp add: evolved_def rewritten_def)

definition progress :: "task_disk \<Rightarrow> task_disk \<Rightarrow> bool" where
  "progress d0 d \<longleftrightarrow> (\<forall>k. rel_option evolved (tasks d0 k) (tasks d k))"

lemma progress_at: "progress d0 d \<Longrightarrow> rel_option evolved (tasks d0 k) (tasks d k)"
  unfolding progress_def by blast

lemma progress_refl [simp, intro]: "progress d d"
  by (simp add: progress_def option.rel_refl)

lemma progress_trans: "progress a b \<Longrightarrow> progress b c \<Longrightarrow> progress a c"
  unfolding progress_def
  by (metis (mono_tags, opaque_lifting) option.rel_transp evolved_trans transpD transpI)

lemma settled_progress: "settled d0 d \<Longrightarrow> progress d0 d"
  unfolding progress_def settled_def using rewritten_evolved by (metis option.rel_mono_strong)

lemma progress_update:
  "tasks d0 k = Some r \<Longrightarrow> evolved r r' \<Longrightarrow> tasks d = (tasks d0)(k \<mapsto> r') \<Longrightarrow> progress d0 d"
  by (simp add: progress_def option.rel_refl)

lemma progress_same: "tasks d = tasks d0 \<Longrightarrow> progress d0 d"
  by (simp add: progress_def option.rel_refl)

lemma progress_Some: "progress d0 d \<Longrightarrow> tasks d0 k = Some r \<Longrightarrow> \<exists>r'. tasks d k = Some r' \<and> evolved r r'"
  using progress_at [of d0 d k] by (cases "tasks d k") simp_all

lemma progress_back: "progress d0 d \<Longrightarrow> tasks d k = Some r' \<Longrightarrow> \<exists>r. tasks d0 k = Some r \<and> evolved r r'"
  using progress_at [of d0 d k] by (cases "tasks d0 k") simp_all

text \<open>The same, when tasks may also have been added.\<close>

definition grown :: "task_disk \<Rightarrow> task_disk \<Rightarrow> bool" where
  "grown d0 d \<longleftrightarrow> (\<forall>k r. tasks d0 k = Some r \<longrightarrow> (\<exists>r'. tasks d k = Some r' \<and> evolved r r'))"

lemma grown_refl [simp, intro]: "grown d d"
  by (auto simp: grown_def)

lemma grown_trans: "grown a b \<Longrightarrow> grown b c \<Longrightarrow> grown a c"
  unfolding grown_def by (meson evolved_trans)

lemma progress_grown: "progress d0 d \<Longrightarrow> grown d0 d"
  unfolding grown_def using progress_Some by blast

lemma grown_new: "tasks d0 k = None \<Longrightarrow> tasks d = (tasks d0)(k \<mapsto> r) \<Longrightarrow> grown d0 d"
  by (auto simp: grown_def)

lemma owned_current_progress: "owned_current d0 fmt p t r d \<Longrightarrow> progress d0 d"
  unfolding owned_current_def using progress_update rewritten_evolved by blast

lemma reducer_evolved: "taskReducer r e = Inr r' \<Longrightarrow> evolved r r'"
proof -
  assume step: "taskReducer r e = Inr r'"
  have "rtranclp lifecycle_step (tr_state r) (tr_state r')"
    using reducer_lifecycle [OF step] by auto
  moreover have "is_terminal (tr_state r) \<Longrightarrow> r' = r"
    using step by (simp add: taskReducer.simps)
  moreover have "source_of r' = source_of r \<and> tr_schema r' = tr_schema r \<and> tr_eventSeq r \<le> tr_eventSeq r'"
    using step by (cases rule: reducer_cases)
      (auto simp: source_of_def transition_identity(1) changes_frame transition_frame(7))
  ultimately show ?thesis
    using same_identity_reducer [OF step]
    by (auto simp: evolved_def same_identity_def key_of_def schema_step_def)
qed

lemma valid_lower:
  assumes "record_valid fmt r"
  shows "js_lower (tr_peerId r) = tr_peerId r" "js_lower (tr_taskId r) = tr_taskId r"
    "js_lower (tr_delegationRequestId r) = tr_delegationRequestId r"
    "js_lower (tr_workspaceId r) = tr_workspaceId r" "lower_schema (tr_schema r) = tr_schema r"
  using assms by (simp_all add: record_valid_split)

text \<open>A record that evolved from a valid one, saved, has evolved from it too.\<close>

lemma saved_evolved:
  assumes "uuids_regular fmt" "record_valid fmt r" "evolved r u" "tr_schema u = tr_schema r" "saved fmt u v"
  shows "evolved r v"
  using assms(3,4) saved_fields [OF assms(1,5)] valid_lower [OF assms(2)]
  by (simp add: evolved_def key_of_def)

lemma save_evolved_triple:
  assumes "uuids_regular fmt" "record_valid fmt r" "\<And>v. saved fmt u v \<Longrightarrow> evolved r v"
  shows "triple (\<lambda>d. store_ok fmt d \<and> progress d0 d \<and> tasks d (key_of r) = Some r)
    (saveUnlocked fmt cfg env u)
    (\<lambda>v d. store_ok fmt d \<and> progress d0 d) (\<lambda>d. store_ok fmt d \<and> progress d0 d)"
proof (rule triple_pre)
  fix d assume d: "store_ok fmt d \<and> progress d0 d \<and> tasks d (key_of r) = Some r"
  have upd: "progress d0 x" if "saved fmt u v" "tasks x = (tasks d)(key_of v \<mapsto> v)" for v x
  proof -
    have "evolved r v" by (rule assms(3) [OF that(1)])
    then have "progress d x"
      using progress_update [of d "key_of r" r v x] d that(2) by (simp add: evolved_def)
    with d progress_trans show ?thesis by blast
  qed
  show "triple (\<lambda>x. x = d) (saveUnlocked fmt cfg env u)
      (\<lambda>v d. store_ok fmt d \<and> progress d0 d) (\<lambda>d. store_ok fmt d \<and> progress d0 d)"
    by (rule triple_weaken [OF save_triple [OF assms(1), of d]])
      (use d upd progress_same progress_trans in blast)+
qed

section \<open>Every operation preserves the store\<close>

abbreviation kept :: "formats \<Rightarrow> task_disk \<Rightarrow> task_disk \<Rightarrow> bool" where
  "kept fmt d0 d \<equiv> store_ok fmt d \<and> progress d0 d"

lemma owned_current_stored:
  "owned_current d0 fmt p t r d \<Longrightarrow> tasks d (key_of r) = Some r \<and> record_valid fmt r"
  by (simp add: owned_current_def)

lemma settled_same: "tasks d = tasks d0 \<Longrightarrow> settled d0 d"
  by (simp add: settled_def option.rel_refl)

lemma owned_current_kept:
  assumes "uuids_regular fmt"
  shows "triple (\<lambda>d. d = d0 \<and> store_ok fmt d) (current_owned fmt cfg env peerId taskId)
    (\<lambda>r d. kept fmt d0 d \<and> tasks d (key_of r) = Some r \<and> record_valid fmt r) (kept fmt d0)"
  by (rule triple_weaken [OF current_owned_triple [OF assms]])
    (use owned_current_progress owned_current_stored confined_settled settled_progress in blast)+

lemma transition_kept:
  assumes "uuids_regular fmt"
  shows "triple (\<lambda>d. d = d0 \<and> store_ok fmt d) (transitionOwned fmt cfg env peerId taskId e)
    (\<lambda>_. kept fmt d0) (kept fmt d0)"
  unfolding transitionOwned_def
proof (rule triple_bind [OF owned_current_kept [OF assms]])
  fix r
  let ?P = "\<lambda>d. kept fmt d0 d \<and> tasks d (key_of r) = Some r \<and> record_valid fmt r"
  show "triple ?P (bindS (liftS (taskReducer r e)) (\<lambda>updated.
      if updated \<noteq> r then saveUnlocked fmt cfg (se_save env) updated else liftS (Inr updated)))
    (\<lambda>_. kept fmt d0) (kept fmt d0)"
  proof (rule triple_bind [where R = "\<lambda>u d. ?P d \<and> taskReducer r e = Inr u"])
    show "triple ?P (liftS (taskReducer r e)) (\<lambda>u d. ?P d \<and> taskReducer r e = Inr u) (kept fmt d0)"
      by (rule triple_lift) auto
    fix u
    have "triple (\<lambda>d. ?P d \<and> taskReducer r e = Inr u) (saveUnlocked fmt cfg (se_save env) u)
        (\<lambda>_. kept fmt d0) (kept fmt d0)"
    proof (cases "record_valid fmt r \<and> taskReducer r e = Inr u")
      case True
      then have "tr_schema u = tr_schema r"
        using same_identity_reducer [of r e u] by (simp add: same_identity_def)
      then have "saved fmt u v \<Longrightarrow> evolved r v" for v
        using True reducer_evolved saved_evolved [OF assms] by blast
      then show ?thesis
        using True by (intro triple_weaken [OF save_evolved_triple [OF assms, of r u d0]]) auto
    qed (auto simp: triple_def)
    then show "triple (\<lambda>d. ?P d \<and> taskReducer r e = Inr u)
        (if u \<noteq> r then saveUnlocked fmt cfg (se_save env) u else liftS (Inr u)) (\<lambda>_. kept fmt d0) (kept fmt d0)"
      by (auto intro!: triple_lift)
  qed
qed

lemma recovery_kept:
  assumes "uuids_regular fmt"
  shows "triple (\<lambda>d. d = d0 \<and> store_ok fmt d) (recordRecoveryDescriptorOwned fmt cfg env peerId taskId descr)
    (\<lambda>_. kept fmt d0) (kept fmt d0)"
  unfolding recordRecoveryDescriptorOwned_def
proof (rule triple_bind [OF owned_current_kept [OF assms]])
  fix r
  let ?P = "\<lambda>d. kept fmt d0 d \<and> tasks d (key_of r) = Some r \<and> record_valid fmt r"
  let ?u = "r\<lparr>tr_recoveryDescriptor := Some descr\<rparr>"
  have save: "triple ?P (saveUnlocked fmt cfg (se_save env) ?u) (\<lambda>_. kept fmt d0) (kept fmt d0)"
  proof (cases "record_valid fmt r")
    case True
    have "evolved r ?u"
      by (simp add: evolved_def key_of_def source_of_def schema_step_def)
    then have "saved fmt ?u v \<Longrightarrow> evolved r v" for v
      using saved_evolved [OF assms True, of ?u v] by simp
    then show ?thesis
      using True by (intro triple_weaken [OF save_evolved_triple [OF assms, of r ?u d0]]) auto
  qed (auto simp: triple_def)
  show "triple ?P (if \<not> recoveryDescriptorSchema descr then liftS (Inl Zod_Error)
      else case tr_recoveryDescriptor r of
         Some existing \<Rightarrow>
           if rd_adapter existing \<noteq> rd_adapter descr
              \<or> rd_sessionId existing \<noteq> rd_sessionId descr
              \<or> rd_conversationId existing \<noteq> rd_conversationId descr
           then liftS (Inl (mesh_fail TASK_ID_CONFLICT))
           else liftS (Inr r)
       | None \<Rightarrow> saveUnlocked fmt cfg (se_save env) ?u) (\<lambda>_. kept fmt d0) (kept fmt d0)"
    using save by (auto intro!: triple_lift split: option.split)
qed

lemma migrate_kept:
  assumes "uuids_regular fmt"
  shows "triple (\<lambda>d. d = d0 \<and> store_ok fmt d) (migrateOwnedV1 fmt cfg env peerId taskId dev)
    (\<lambda>_. kept fmt d0) (kept fmt d0)"
  unfolding migrateOwnedV1_def
proof (rule triple_bind [OF owned_current_kept [OF assms]])
  fix r
  let ?P = "\<lambda>d. kept fmt d0 d \<and> tasks d (key_of r) = Some r \<and> record_valid fmt r"
  have "triple ?P (bindS (liftS (migrateTaskRecordV1 fmt r dev)) (saveUnlocked fmt cfg (se_save env)))
      (\<lambda>_. kept fmt d0) (kept fmt d0)"
  proof (rule triple_bind [where R = "\<lambda>m d. ?P d \<and> migrateTaskRecordV1 fmt r dev = Inr m"])
    show "triple ?P (liftS (migrateTaskRecordV1 fmt r dev))
        (\<lambda>m d. ?P d \<and> migrateTaskRecordV1 fmt r dev = Inr m) (kept fmt d0)"
      by (rule triple_lift) auto
    fix m
    show "triple (\<lambda>d. ?P d \<and> migrateTaskRecordV1 fmt r dev = Inr m)
        (saveUnlocked fmt cfg (se_save env) m) (\<lambda>_. kept fmt d0) (kept fmt d0)"
    proof (cases "record_valid fmt r \<and> migrateTaskRecordV1 fmt r dev = Inr m")
      case True
      have "saved fmt m v \<Longrightarrow> evolved r v" for v
        using migrate_rewritten [OF assms] True saved_rewritten rewritten_evolved evolved_trans by meson
      then show ?thesis
        using True by (intro triple_weaken [OF save_evolved_triple [OF assms, of r m d0]]) auto
    qed (auto simp: triple_def)
  qed
  then show "triple ?P (if tr_schema r \<noteq> SchemaV1 then liftS (Inr r)
      else bindS (liftS (migrateTaskRecordV1 fmt r dev)) (saveUnlocked fmt cfg (se_save env)))
      (\<lambda>_. kept fmt d0) (kept fmt d0)"
    by (auto intro!: triple_lift)
qed

text \<open>Creation never touches an existing task.\<close>

lemma create_triple:
  assumes "uuids_regular fmt"
  shows "triple (\<lambda>d. d = d0 \<and> store_ok fmt d) (createUnlocked fmt cfg env r)
    (\<lambda>v d. store_ok fmt d \<and> saved fmt r v \<and> tasks d0 (key_of v) = None
       \<and> tasks d = (tasks d0)(key_of v \<mapsto> v))
    (\<lambda>d. store_ok fmt d \<and> (settled d0 d
       \<or> (\<exists>v. saved fmt r v \<and> tasks d0 (key_of v) = None \<and> tasks d = (tasks d0)(key_of v \<mapsto> v))))"
proof (cases "compactTaskEventJournal r (sv_now (se_save env))")
  case (Inl e)
  then show ?thesis by (simp add: createUnlocked_def triple_def) (simp add: liftS_def)
next
  case c: (Inr c)
  show ?thesis
  proof (cases "persistedTaskRecordSchema fmt c")
    case None
    with c show ?thesis by (simp add: createUnlocked_def triple_def) (simp add: liftS_def)
  next
    case (Some v)
    with c have s: "saved fmt r v" by (auto simp: saved_def)
    note v = saved_valid [OF assms s]
    let ?Q = "\<lambda>v d. store_ok fmt d \<and> saved fmt r v \<and> tasks d0 (key_of v) = None
       \<and> tasks d = (tasks d0)(key_of v \<mapsto> v)"
    let ?E = "\<lambda>d. store_ok fmt d \<and> (settled d0 d \<or> (\<exists>v. ?Q v d))"
    have "triple (\<lambda>d. d = d0 \<and> store_ok fmt d)
      (bindS (getOwnedUnlocked fmt cfg (se_get env) (tr_peerId v) (tr_taskId v))
        (\<lambda>existing. if existing \<noteq> None then liftS (Inl (mesh_fail TASK_ID_CONFLICT))
           else fenced_write cfg (se_save env) (taskPath (tr_peerId v) (tr_taskId v)) v)) ?Q ?E"
    proof (rule triple_bind [where R = "\<lambda>x d. store_ok fmt d
        \<and> read_result d0 fmt (tr_peerId v) (tr_taskId v) x d"])
      show "triple (\<lambda>d. d = d0 \<and> store_ok fmt d)
        (getOwnedUnlocked fmt cfg (se_get env) (tr_peerId v) (tr_taskId v))
        (\<lambda>x d. store_ok fmt d \<and> read_result d0 fmt (tr_peerId v) (tr_taskId v) x d) ?E"
        by (rule triple_weaken [OF getOwned_triple [OF assms]]) (use confined_settled in auto)
      fix x
      show "triple (\<lambda>d. store_ok fmt d \<and> read_result d0 fmt (tr_peerId v) (tr_taskId v) x d)
        (if x \<noteq> None then liftS (Inl (mesh_fail TASK_ID_CONFLICT))
         else fenced_write cfg (se_save env) (taskPath (tr_peerId v) (tr_taskId v)) v) ?Q ?E"
      proof (cases x)
        case (Some y)
        then show ?thesis by (auto intro!: triple_lift read_result_settled)
      next
        case None
        have "tasks d0 (key_of v) = None" if "read_result d0 fmt (tr_peerId v) (tr_taskId v) None d" for d
          using that valid_ids [OF v] by (simp add: read_result_def normal_uuid_def key_of_def)
        then have "triple (\<lambda>d. store_ok fmt d \<and> read_result d0 fmt (tr_peerId v) (tr_taskId v) None d)
            (fenced_write cfg (se_save env) (taskPath (tr_peerId v) (tr_taskId v)) v)
            (\<lambda>x d. ?Q x d \<and> tasks d0 (key_of v) = None) ?E"
          by (cases "tasks d0 (key_of v) = None")
            (rule triple_weaken [OF fenced_write_triple [OF assms v, of d0]],
             use s in \<open>auto simp: read_result_def wrote_def triple_def settled_same\<close>)
        then show ?thesis by (simp add: None) (rule triple_weaken, assumption, auto)
      qed
    qed
    moreover have "createUnlocked fmt cfg env r =
      bindS (getOwnedUnlocked fmt cfg (se_get env) (tr_peerId v) (tr_taskId v))
        (\<lambda>existing. if existing \<noteq> None then liftS (Inl (mesh_fail TASK_ID_CONFLICT))
           else fenced_write cfg (se_save env) (taskPath (tr_peerId v) (tr_taskId v)) v)"
      by (simp add: createUnlocked_def c Some)
    ultimately show ?thesis by (simp only:) (rule triple_weaken, assumption, auto)
  qed
qed

text \<open>What a start leaves behind, however it ends: at most its own record is new.\<close>

definition left :: "formats \<Rightarrow> task_record \<Rightarrow> task_disk \<Rightarrow> task_disk \<Rightarrow> bool" where
  "left fmt r d0 d \<longleftrightarrow> store_ok fmt d \<and> grown d0 d
     \<and> (\<forall>k v. tasks d0 k = None \<longrightarrow> tasks d k = Some v \<longrightarrow> saved fmt r v)"

lemma left_settled: "store_ok fmt d \<Longrightarrow> settled d0 d \<Longrightarrow> left fmt r d0 d"
proof -
  assume "store_ok fmt d" and d: "settled d0 d"
  moreover have "\<not> (tasks d0 k = None \<and> tasks d k = Some v)" for k v
    using settled_None [OF d, of k] by auto
  ultimately show ?thesis
    using progress_grown [OF settled_progress [OF d]] unfolding left_def by blast
qed

lemma left_trans:
  assumes "settled d0 d" "left fmt r d d'"
  shows "left fmt r d0 d'"
proof -
  from settled_None [OF assms(1)] assms(2) grown_trans [OF progress_grown [OF settled_progress [OF assms(1)]]] show ?thesis
    unfolding left_def by blast
qed

lemma create_left:
  assumes "uuids_regular fmt"
  shows "triple (\<lambda>d. d = d0 \<and> store_ok fmt d) (createUnlocked fmt cfg env r) (\<lambda>_. left fmt r d0) (left fmt r d0)"
proof -
  have "left fmt r d0 d" if "store_ok fmt d" "saved fmt r v" "tasks d0 (key_of v) = None"
    "tasks d = (tasks d0)(key_of v \<mapsto> v)" for v d
    using that grown_new [OF that(3,4)] by (auto simp: left_def split: if_splits)
  then show ?thesis
    by (intro triple_weaken [OF create_triple [OF assms]]) (use left_settled in blast)+
qed

lemma start_left:
  assumes "uuids_regular fmt"
  shows "triple (\<lambda>d. d = d0 \<and> store_ok fmt d)
    (bindS (listUnlocked fmt cfg env) (\<lambda>rs.
     bindS (liftS (look rs)) (\<lambda>existing. case existing of
         Some e \<Rightarrow> liftS (Inr (e, False))
       | None \<Rightarrow> bindS (createUnlocked fmt cfg env r) (\<lambda>created. liftS (Inr (created, True))))))
    (\<lambda>_. left fmt r d0) (left fmt r d0)"
proof (rule triple_bind [where R = "\<lambda>rs d. store_ok fmt d \<and> settled d0 d"])
  show "triple (\<lambda>d. d = d0 \<and> store_ok fmt d) (listUnlocked fmt cfg env)
      (\<lambda>rs d. store_ok fmt d \<and> settled d0 d) (left fmt r d0)"
    by (rule triple_weaken [OF list_triple [OF assms]]) (use left_settled in auto)
  fix rs
  show "triple (\<lambda>d. store_ok fmt d \<and> settled d0 d)
      (bindS (liftS (look rs)) (\<lambda>existing. case existing of
         Some e \<Rightarrow> liftS (Inr (e, False))
       | None \<Rightarrow> bindS (createUnlocked fmt cfg env r) (\<lambda>created. liftS (Inr (created, True)))))
      (\<lambda>_. left fmt r d0) (left fmt r d0)"
  proof (rule triple_pre)
    fix d
    assume d: "store_ok fmt d \<and> settled d0 d"
    have base: "triple (\<lambda>x. x = d \<and> store_ok fmt x)
        (bindS (createUnlocked fmt cfg env r) (\<lambda>created. liftS (Inr (created, True))))
        (\<lambda>_. left fmt r d) (left fmt r d)"
      by (rule triple_bind [OF create_left [OF assms]]) (rule triple_lift; simp)
    have create: "triple (\<lambda>x. x = d)
        (bindS (createUnlocked fmt cfg env r) (\<lambda>created. liftS (Inr (created, True))))
        (\<lambda>_. left fmt r d0) (left fmt r d0)"
      by (rule triple_weaken [OF base]) (use d left_trans in blast)+
    have stay: "left fmt r d0 d" using d by (auto intro: left_settled)
    show "triple (\<lambda>x. x = d)
        (bindS (liftS (look rs)) (\<lambda>existing. case existing of
           Some e \<Rightarrow> liftS (Inr (e, False))
         | None \<Rightarrow> bindS (createUnlocked fmt cfg env r) (\<lambda>created. liftS (Inr (created, True)))))
        (\<lambda>_. left fmt r d0) (left fmt r d0)"
    proof (cases "look rs")
      case (Inl e)
      with stay show ?thesis by (auto intro: triple_lift)
    next
      case (Inr m)
      with stay create show ?thesis by (cases m) (auto intro: triple_lift)
    qed
  qed
qed

lemma createRoutedIdempotent_left:
  assumes "uuids_regular fmt" "store_ok fmt d" "createRoutedIdempotent fmt sha cfg env q r d = (res, d')"
  shows "left fmt r d d'"
  using triple_snd [OF start_left [OF assms(1), of d cfg env "\<lambda>rs. matchIdempotentRoutedStart fmt sha rs q" r], of d]
    assms(2,3) by (simp add: createRoutedIdempotent_def)

section \<open>One task per request\<close>

text \<open>Within a peer and source workspace, a delegation id belongs to one task.\<close>

definition uniq :: "task_disk \<Rightarrow> bool" where
  "uniq d \<longleftrightarrow>
     (\<forall>k r j s. tasks d k = Some r \<longrightarrow> tasks d j = Some s \<longrightarrow>
        tr_peerId r = tr_peerId s \<and> tr_delegationRequestId r = tr_delegationRequestId s
        \<and> source_of r = source_of s \<longrightarrow> k = j)"

lemma evolved_fields:
  "evolved r r' \<Longrightarrow> tr_peerId r' = tr_peerId r \<and> tr_taskId r' = tr_taskId r
     \<and> tr_delegationRequestId r' = tr_delegationRequestId r \<and> source_of r' = source_of r"
  by (simp add: evolved_def key_of_def)

lemma uniq_progress:
  assumes "uniq d0" "progress d0 d"
  shows "uniq d"
  unfolding uniq_def
proof (intro allI impI)
  fix k r j s
  assume r: "tasks d k = Some r" and s: "tasks d j = Some s"
    and same: "tr_peerId r = tr_peerId s \<and> tr_delegationRequestId r = tr_delegationRequestId s
      \<and> source_of r = source_of s"
  obtain r0 where r0: "tasks d0 k = Some r0" "evolved r0 r" using progress_back [OF assms(2) r] by blast
  obtain s0 where s0: "tasks d0 j = Some s0" "evolved s0 s" using progress_back [OF assms(2) s] by blast
  have "tr_peerId r0 = tr_peerId s0" "tr_delegationRequestId r0 = tr_delegationRequestId s0"
    "source_of r0 = source_of s0"
    using evolved_fields [OF r0(2)] evolved_fields [OF s0(2)] same by auto
  with assms(1) r0(1) s0(1) show "k = j" unfolding uniq_def by blast
qed

lemma uniq_new:
  assumes "uniq d0" "tasks d = (tasks d0)(key_of v \<mapsto> v)"
    and "\<And>k r. tasks d0 k = Some r \<Longrightarrow> \<not> (tr_peerId r = tr_peerId v
      \<and> tr_delegationRequestId r = tr_delegationRequestId v \<and> source_of r = source_of v)"
  shows "uniq d"
  unfolding uniq_def
proof (intro allI impI)
  fix k r j s
  assume r: "tasks d k = Some r" and s: "tasks d j = Some s"
    and same: "tr_peerId r = tr_peerId s \<and> tr_delegationRequestId r = tr_delegationRequestId s
      \<and> source_of r = source_of s"
  show "k = j"
  proof (cases "k = key_of v"; cases "j = key_of v")
    assume "k = key_of v" "j \<noteq> key_of v"
    with r s same assms(2) assms(3) [of j s] show ?thesis by simp
  next
    assume "k \<noteq> key_of v" "j = key_of v"
    with r s same assms(2) assms(3) [of k r] show ?thesis by simp
  next
    assume "k \<noteq> key_of v" "j \<noteq> key_of v"
    then have "tasks d0 k = Some r" "tasks d0 j = Some s" using r s assms(2) by simp_all
    with same assms(1) show ?thesis unfolding uniq_def by blast
  qed simp
qed

lemma uniq_ids:
  assumes "store_ok fmt d" "uniq d" "set rs = ran (tasks d)"
  shows "ids_unique rs"
  unfolding ids_unique_def
proof (intro ballI impI)
  fix r s
  assume "r \<in> set rs" "s \<in> set rs" and same: "tr_peerId r = tr_peerId s
    \<and> (tr_taskId r = tr_taskId s \<or> tr_delegationRequestId r = tr_delegationRequestId s \<and> source_of r = source_of s)"
  then obtain k j where r: "tasks d k = Some r" and s: "tasks d j = Some s"
    using assms(3) by (auto simp: ran_def)
  have "key_of r = k" "key_of s = j" using tasks_valid(2) [OF assms(1)] r s by auto
  moreover have "k = j"
    using same calculation r s assms(2) unfolding uniq_def key_of_def by blast
  ultimately show "r = s" using r s by simp
qed

text \<open>A match that finds nothing leaves room for the request.\<close>

lemma match_plain_None:
  assumes "matchIdempotentStart fmt sha rs q = Inr None" "normalizeOwnedTaskStart fmt q = Inr n"
    and "x \<in> set rs" "tr_peerId x = ot_peerId n"
  shows "tr_delegationRequestId x \<noteq> ts_delegationRequestId (ot_params n)"
proof -
  have "find (\<lambda>r. tr_delegationRequestId r = ts_delegationRequestId (ot_params n)
      \<or> tr_taskId r = ts_taskId (ot_params n)) (filter (\<lambda>r. tr_peerId r = ot_peerId n) rs) = None"
    (is "?f = None")
  proof (cases ?f)
    case (Some y)
    with assms(1,2) show ?thesis
      by (simp add: matchIdempotentStart_def Let_def bindR_Inr_conv split: if_splits)
  qed
  with assms(3,4) show ?thesis by (auto simp: find_None_iff_all)
qed

lemma match_routed_find:
  assumes "matchIdempotentRoutedStart fmt sha rs q = Inr None"
    and "normalizeOwnedRoutedTaskStart fmt q = Inr n"
  shows "find (\<lambda>r. tr_delegationRequestId r = rs_delegationRequestId (or_params n)
      \<or> tr_taskId r = rs_taskId (or_params n)) (filter (same_source n) rs) = None"
    (is "?f = None")
proof (cases ?f)
  case (Some y)
  with assms show ?thesis
    by (simp add: matchIdempotentRoutedStart_def Let_def bindR_Inr_conv split: if_splits)
qed

lemma match_routed_None:
  assumes "matchIdempotentRoutedStart fmt sha rs q = Inr None"
    and "normalizeOwnedRoutedTaskStart fmt q = Inr n" and "x \<in> set rs" "same_source n x"
  shows "tr_delegationRequestId x \<noteq> rs_delegationRequestId (or_params n)"
  using match_routed_find [OF assms(1,2)] assms(3,4) by (auto simp: find_None_iff_all)

text \<open>The record a caller passes with a request: the one the request creates, after any steps.\<close>

definition record_for_plain ::
  "formats \<Rightarrow> (string \<Rightarrow> string) \<Rightarrow> owned_task_start \<Rightarrow> task_record \<Rightarrow> bool" where
  "record_for_plain fmt sha q r \<longleftrightarrow>
     (\<exists>at r0. createAcceptedTask fmt sha q at = Inr r0 \<and> same_identity r0 r)"

definition record_for_routed ::
  "formats \<Rightarrow> (string \<Rightarrow> string) \<Rightarrow> owned_routed_start \<Rightarrow> task_record \<Rightarrow> bool" where
  "record_for_routed fmt sha q r \<longleftrightarrow>
     (\<exists>at r0. createAcceptedRoutedTask fmt sha q at = Inr r0 \<and> same_identity r0 r)"

lemma plain_ids:
  assumes "uuids_regular fmt" "record_for_plain fmt sha q r"
  obtains n where "normalizeOwnedTaskStart fmt q = Inr n" "tr_peerId r = ot_peerId n"
    "tr_delegationRequestId r = ts_delegationRequestId (ot_params n)" "tr_taskId r = ts_taskId (ot_params n)"
    "tr_schema r = SchemaV1" "js_lower (tr_peerId r) = tr_peerId r"
    "js_lower (tr_delegationRequestId r) = tr_delegationRequestId r" "js_lower (tr_taskId r) = tr_taskId r"
proof -
  from assms(2) obtain at r0 where r0: "createAcceptedTask fmt sha q at = Inr r0" "same_identity r0 r"
    by (auto simp: record_for_plain_def)
  then obtain n where n: "normalizeOwnedTaskStart fmt q = Inr n"
    by (auto simp: createAcceptedTask_def bindR_Inr_conv)
  then have p: "taskStartParamsSchema fmt (ot_params q) = Some (ot_params n)"
    and peer: "uuidSchema fmt (ot_peerId q) = Some (ot_peerId n)" by (simp_all add: normalizeTask_Inr)
  show thesis
    using that [OF n] createAcceptedTask_forms [OF assms(1) r0(1) n] r0(2)
      start_schema_result [OF assms(1) p] peer_schema_result [OF assms(1) peer]
    by (simp add: same_identity_def)
qed

lemma routed_ids:
  assumes "uuids_regular fmt" "record_for_routed fmt sha q r"
  obtains n where "normalizeOwnedRoutedTaskStart fmt q = Inr n" "tr_peerId r = or_peerId n"
    "tr_delegationRequestId r = rs_delegationRequestId (or_params n)" "tr_taskId r = rs_taskId (or_params n)"
    "tr_schema r = SchemaV2 (v2_of_request n)" "lower_schema (tr_schema r) = tr_schema r"
    "js_lower (tr_peerId r) = tr_peerId r"
    "js_lower (tr_delegationRequestId r) = tr_delegationRequestId r" "js_lower (tr_taskId r) = tr_taskId r"
    "js_lower (tr_workspaceId r) = tr_workspaceId r"
proof -
  from assms(2) obtain at r0 where r0: "createAcceptedRoutedTask fmt sha q at = Inr r0" "same_identity r0 r"
    by (auto simp: record_for_routed_def)
  then obtain n where n: "normalizeOwnedRoutedTaskStart fmt q = Inr n"
    by (auto simp: createAcceptedRoutedTask_def bindR_Inr_conv)
  note f = createAcceptedRoutedTask_forms [OF assms(1) r0(1) n]
  have eq: "tr_schema r = tr_schema r0" "tr_taskId r = tr_taskId r0" "tr_peerId r = tr_peerId r0"
    "tr_delegationRequestId r = tr_delegationRequestId r0" "tr_workspaceId r = tr_workspaceId r0"
    using r0(2) by (simp_all add: same_identity_def)
  show thesis
    using f valid_lower [OF createAcceptedRoutedTask_valid [OF assms(1) r0(1)]]
    by (intro that [OF n]) (simp_all only: eq)
qed

text \<open>The effect of both starts on the store.\<close>

definition started :: "formats \<Rightarrow> task_disk \<Rightarrow> task_disk \<Rightarrow> bool" where
  "started fmt d0 d \<longleftrightarrow> store_ok fmt d \<and> grown d0 d \<and> uniq d"

lemma settled_started:
  "uniq d0 \<Longrightarrow> store_ok fmt d \<Longrightarrow> settled d0 d \<Longrightarrow> started fmt d0 d"
  using settled_progress uniq_progress progress_grown by (auto simp: started_def)

lemma create_started:
  assumes "uuids_regular fmt" "uniq d0"
    and fresh: "\<And>v k x. saved fmt r v \<Longrightarrow> tasks d0 k = Some x \<Longrightarrow> \<not> (tr_peerId x = tr_peerId v
      \<and> tr_delegationRequestId x = tr_delegationRequestId v \<and> source_of x = source_of v)"
  shows "triple (\<lambda>d. d = d0 \<and> store_ok fmt d) (createUnlocked fmt cfg env r)
    (\<lambda>v d. started fmt d0 d \<and> saved fmt r v \<and> tasks d0 (key_of v) = None \<and> tasks d (key_of v) = Some v)
    (started fmt d0)"
proof -
  have new: "started fmt d0 d" if "store_ok fmt d" "saved fmt r v" "tasks d0 (key_of v) = None"
    "tasks d = (tasks d0)(key_of v \<mapsto> v)" for v d
  proof -
    have "uniq d" by (rule uniq_new [OF assms(2) that(4)]) (rule fresh [OF that(2)])
    with that(1) grown_new [OF that(3,4)] show ?thesis unfolding started_def by blast
  qed
  show ?thesis
    by (rule triple_weaken [OF create_triple [OF assms(1)]])
      (use new settled_started [OF assms(2)] in fastforce)+
qed

text \<open>Both kinds of start have this shape; they differ in how a match is looked for.\<close>

definition start_result ::
  "formats \<Rightarrow> task_disk \<Rightarrow> task_record \<Rightarrow> task_record \<times> bool \<Rightarrow> task_disk \<Rightarrow> bool" where
  "start_result fmt d0 r x d \<longleftrightarrow>
     started fmt d0 d \<and> (snd x \<longrightarrow> saved fmt r (fst x) \<and> tasks d (key_of (fst x)) = Some (fst x))"

lemma start_result_started: "start_result fmt d0 r x d \<Longrightarrow> started fmt d0 d"
  by (simp add: start_result_def)

lemma start_started:
  assumes "uuids_regular fmt" "uniq d0"
    and none: "\<And>rs v x. look rs = Inr None \<Longrightarrow> x \<in> set rs \<Longrightarrow> saved fmt r v \<Longrightarrow>
      \<not> (tr_peerId x = tr_peerId v
        \<and> tr_delegationRequestId x = tr_delegationRequestId v \<and> source_of x = source_of v)"
  shows "triple (\<lambda>d. d = d0 \<and> store_ok fmt d)
    (bindS (listUnlocked fmt cfg env) (\<lambda>rs.
     bindS (liftS (look rs)) (\<lambda>existing. case existing of
         Some e \<Rightarrow> liftS (Inr (e, False))
       | None \<Rightarrow> bindS (createUnlocked fmt cfg env r) (\<lambda>created. liftS (Inr (created, True))))))
    (start_result fmt d0 r) (started fmt d0)"
proof (rule triple_bind [where R = "\<lambda>rs d. store_ok fmt d \<and> settled d0 d \<and> set rs = ran (tasks d)"])
  let ?P = "\<lambda>rs d. store_ok fmt d \<and> settled d0 d \<and> set rs = ran (tasks d)"
  let ?next = "\<lambda>existing. case existing of
         Some e \<Rightarrow> liftS (Inr (e, False))
       | None \<Rightarrow> bindS (createUnlocked fmt cfg env r) (\<lambda>created. liftS (Inr (created, True)))"
  show "triple (\<lambda>d. d = d0 \<and> store_ok fmt d) (listUnlocked fmt cfg env) ?P (started fmt d0)"
    by (rule triple_weaken [OF list_triple [OF assms(1)]]) (use settled_started [OF assms(2)] in auto)
  fix rs
  show "triple (?P rs) (bindS (liftS (look rs)) ?next) (start_result fmt d0 r) (started fmt d0)"
  proof (rule triple_bind [where R = "\<lambda>m d. ?P rs d \<and> look rs = Inr m"])
    show "triple (?P rs) (liftS (look rs)) (\<lambda>m d. ?P rs d \<and> look rs = Inr m) (started fmt d0)"
      by (rule triple_lift) (use settled_started [OF assms(2)] in auto)
    fix m
    show "triple (\<lambda>d. ?P rs d \<and> look rs = Inr m) (?next m) (start_result fmt d0 r) (started fmt d0)"
    proof (cases m)
      case (Some e)
      then show ?thesis by (auto intro!: triple_lift settled_started [OF assms(2)] simp: start_result_def)
    next
      case None
      show ?thesis
      proof (rule triple_pre)
        fix d assume d: "?P rs d \<and> look rs = Inr m"
        have u: "uniq d" and g: "grown d0 d"
          using d settled_progress uniq_progress [OF assms(2)] progress_grown by auto
        have fresh: "\<not> (tr_peerId x = tr_peerId v
            \<and> tr_delegationRequestId x = tr_delegationRequestId v \<and> source_of x = source_of v)"
          if "saved fmt r v" and x: "tasks d k = Some x" for v k x
          using none [of rs x v] d None that(1) ranI [of "tasks d", OF x] by simp
        have "triple (\<lambda>x. x = d \<and> store_ok fmt x) (createUnlocked fmt cfg env r)
            (\<lambda>v. start_result fmt d0 r (v, True)) (started fmt d0)"
          by (rule triple_weaken [OF create_started [OF assms(1) u fresh]])
            (use g grown_trans in \<open>auto simp: started_def start_result_def\<close>)
        then have "triple (\<lambda>x. x = d \<and> store_ok fmt x) (?next None) (start_result fmt d0 r) (started fmt d0)"
          by (simp, rule triple_bind) (rule triple_lift; simp)
        then show "triple (\<lambda>x. x = d) (?next m) (start_result fmt d0 r) (started fmt d0)"
          using d None by (simp add: triple_def)
      qed
    qed
  qed
qed

lemma createIdempotent_started:
  assumes "uuids_regular fmt" "uniq d0" "record_for_plain fmt sha q r"
  shows "triple (\<lambda>d. d = d0 \<and> store_ok fmt d) (createIdempotent fmt sha cfg env q r)
    (start_result fmt d0 r) (started fmt d0)"
proof -
  obtain n where n: "normalizeOwnedTaskStart fmt q = Inr n" "tr_peerId r = ot_peerId n"
    "tr_delegationRequestId r = ts_delegationRequestId (ot_params n)"
    and low: "js_lower (tr_peerId r) = tr_peerId r"
      "js_lower (tr_delegationRequestId r) = tr_delegationRequestId r"
    by (rule plain_ids [OF assms(1,3)])
  show ?thesis
    unfolding createIdempotent_def
  proof (rule start_started [OF assms(1,2)])
    fix rs v x
    assume m: "matchIdempotentStart fmt sha rs q = Inr None" "x \<in> set rs" and v: "saved fmt r v"
    from saved_fields(1,3) [OF assms(1) v] low n(2,3)
    have "tr_peerId v = ot_peerId n"
      "tr_delegationRequestId v = ts_delegationRequestId (ot_params n)" by simp_all
    with match_plain_None [OF m(1) n(1) m(2)] show "\<not> (tr_peerId x = tr_peerId v
        \<and> tr_delegationRequestId x = tr_delegationRequestId v \<and> source_of x = source_of v)" by auto
  qed
qed

lemma createRoutedIdempotent_started:
  assumes "uuids_regular fmt" "uniq d0" "record_for_routed fmt sha q r"
  shows "triple (\<lambda>d. d = d0 \<and> store_ok fmt d) (createRoutedIdempotent fmt sha cfg env q r)
    (start_result fmt d0 r) (started fmt d0)"
proof -
  obtain n where n: "normalizeOwnedRoutedTaskStart fmt q = Inr n" "tr_peerId r = or_peerId n"
    "tr_delegationRequestId r = rs_delegationRequestId (or_params n)"
    "tr_schema r = SchemaV2 (v2_of_request n)"
    and low: "js_lower (tr_peerId r) = tr_peerId r"
      "js_lower (tr_delegationRequestId r) = tr_delegationRequestId r"
    by (rule routed_ids [OF assms(1,3)])
  show ?thesis
    unfolding createRoutedIdempotent_def
  proof (rule start_started [OF assms(1,2)])
    fix rs v x
    assume m: "matchIdempotentRoutedStart fmt sha rs q = Inr None" "x \<in> set rs" and v: "saved fmt r v"
    have ids: "tr_peerId v = or_peerId n"
      "tr_delegationRequestId v = rs_delegationRequestId (or_params n)"
      "source_of v = rs_sourceWorkspaceIdentity (or_params n)"
      using saved_fields(1,3,11) [OF assms(1) v] low n(2,3) source_of_created [OF n(4)] by simp_all
    show "\<not> (tr_peerId x = tr_peerId v
        \<and> tr_delegationRequestId x = tr_delegationRequestId v \<and> source_of x = source_of v)"
    proof
      assume same: "tr_peerId x = tr_peerId v
        \<and> tr_delegationRequestId x = tr_delegationRequestId v \<and> source_of x = source_of v"
      then have "same_source n x"
        using ids by (auto simp: same_source_def source_of_def split: task_schema.splits)
      from match_routed_None [OF m(1) n(1) m(2) this] same ids show False by simp
    qed
  qed
qed

section \<open>Sequences of calls\<close>

datatype store_call =
    Create_Task task_record
  | Start_Plain owned_task_start task_record
  | Start_Routed owned_routed_start task_record
  | Apply_Event string string domain_event
  | Record_Recovery string string recovery_descriptor
  | Migrate_V1 string string string
  | Get_Owned string string
  | List_Tasks
  | List_For_Recovery
  | Find_Start owned_task_start

text \<open>
  A start that is given the record its own request creates. The plain \<open>create\<close> is not one: it
  looks only whether the task id is free.
\<close>

fun call_ok :: "formats \<Rightarrow> (string \<Rightarrow> string) \<Rightarrow> store_call \<Rightarrow> bool" where
  "call_ok fmt sha (Create_Task r) = False"
| "call_ok fmt sha (Start_Plain q r) = record_for_plain fmt sha q r"
| "call_ok fmt sha (Start_Routed q r) = record_for_routed fmt sha q r"
| "call_ok fmt sha _ = True"

text \<open>
  A call runs under the configuration of its time: the migration device may be bound between two
  calls, and after a restart the store is that of another generation.
\<close>

type_synonym store_event = "store_config \<times> store_env \<times> store_call"

fun run_call ::
  "formats \<Rightarrow> (string \<Rightarrow> string) \<Rightarrow> store_event \<Rightarrow> task_disk \<Rightarrow> task_disk" where
  "run_call fmt sha (cfg, env, Create_Task r) d = snd (create_task fmt cfg env r d)"
| "run_call fmt sha (cfg, env, Start_Plain q r) d = snd (createIdempotent fmt sha cfg env q r d)"
| "run_call fmt sha (cfg, env, Start_Routed q r) d = snd (createRoutedIdempotent fmt sha cfg env q r d)"
| "run_call fmt sha (cfg, env, Apply_Event p t e) d = snd (transitionOwned fmt cfg env p t e d)"
| "run_call fmt sha (cfg, env, Record_Recovery p t x) d =
     snd (recordRecoveryDescriptorOwned fmt cfg env p t x d)"
| "run_call fmt sha (cfg, env, Migrate_V1 p t x) d = snd (migrateOwnedV1 fmt cfg env p t x d)"
| "run_call fmt sha (cfg, env, Get_Owned p t) d = snd (getOwnedUnlocked fmt cfg (se_get env) p t d)"
| "run_call fmt sha (cfg, env, List_Tasks) d = snd (listUnlocked fmt cfg env d)"
| "run_call fmt sha (cfg, env, List_For_Recovery) d = snd (listForRecovery fmt cfg env d)"
| "run_call fmt sha (cfg, env, Find_Start q) d = snd (findIdempotentStart fmt sha cfg env q d)"

definition calls_of :: "store_event list \<Rightarrow> store_call list" where
  "calls_of es = map (\<lambda>(cfg, env, call). call) es"

text \<open>
  Every call keeps the store complete and only lets its tasks evolve; a call that is no plain
  \<open>create\<close>, with a record of its own, keeps the delegation ids unique as well.
\<close>

definition safe_store :: "formats \<Rightarrow> task_disk \<Rightarrow> task_disk \<Rightarrow> bool" where
  "safe_store fmt d0 d \<longleftrightarrow> store_ok fmt d \<and> grown d0 d"

lemma kept_safe: "kept fmt d0 d \<Longrightarrow> safe_store fmt d0 d"
  using progress_grown by (simp add: safe_store_def)

lemma left_safe: "left fmt r d0 d \<Longrightarrow> safe_store fmt d0 d"
  by (simp add: left_def safe_store_def)

lemma kept_started: "uniq d0 \<Longrightarrow> kept fmt d0 d \<Longrightarrow> started fmt d0 d"
  using uniq_progress progress_grown by (auto simp: started_def)

lemma list_snd:
  "snd (listForRecovery fmt cfg env d) = snd (listUnlocked fmt cfg env d)"
  "snd (findIdempotentStart fmt sha cfg env q d) = snd (listUnlocked fmt cfg env d)"
  by (simp_all add: listForRecovery_def findIdempotentStart_def bindS_def liftS_def split: prod.split sum.split)

text \<open>Every call but the starts leaves no new task.\<close>

fun starts :: "store_call \<Rightarrow> bool" where
  "starts (Create_Task r) = True"
| "starts (Start_Plain q r) = True"
| "starts (Start_Routed q r) = True"
| "starts _ = False"

lemma run_call_kept:
  assumes "uuids_regular fmt" "store_ok fmt d" "\<not> starts call"
  shows "kept fmt d (run_call fmt sha (cfg, env, call) d)"
proof -
  have get: "triple (\<lambda>x. x = d \<and> store_ok fmt x) (getOwnedUnlocked fmt cfg (se_get env) p t)
      (\<lambda>_. kept fmt d) (kept fmt d)" for p t
    by (rule triple_weaken [OF getOwned_triple [OF assms(1)]])
      (use read_result_settled settled_progress confined_settled in blast)+
  have lst: "triple (\<lambda>x. x = d \<and> store_ok fmt x) (listUnlocked fmt cfg env) (\<lambda>_. kept fmt d) (kept fmt d)"
    by (rule triple_weaken [OF list_triple [OF assms(1)]]) (use settled_progress in blast)+
  show ?thesis
    using assms(2,3) triple_snd [OF transition_kept [OF assms(1), of d]]
      triple_snd [OF recovery_kept [OF assms(1), of d]] triple_snd [OF migrate_kept [OF assms(1), of d]]
      triple_snd [OF get] triple_snd [OF lst]
    by (cases call) (simp_all add: list_snd)
qed

lemma run_call_safe:
  assumes "uuids_regular fmt" "store_ok fmt d"
  shows "safe_store fmt d (run_call fmt sha (cfg, env, call) d)"
proof (cases "starts call")
  case True
  have create: "triple (\<lambda>x. x = d \<and> store_ok fmt x) (create_task fmt cfg env r) (\<lambda>_. left fmt r d) (left fmt r d)" for r
    unfolding create_task_def by (rule triple_bind [OF create_left [OF assms(1)]]) (rule triple_lift; simp)
  have "safe_store fmt d (snd (create_task fmt cfg env r d))"
    "safe_store fmt d (snd (createIdempotent fmt sha cfg env q r d))"
    "safe_store fmt d (snd (createRoutedIdempotent fmt sha cfg env p r d))" for r q p
    unfolding createIdempotent_def createRoutedIdempotent_def
    by (rule left_safe, rule triple_snd, rule create start_left [OF assms(1)], simp add: assms(2))+
  with True show ?thesis by (cases call) simp_all
next
  case False
  then show ?thesis by (rule kept_safe [OF run_call_kept [OF assms]])
qed

lemma run_call_started:
  assumes "uuids_regular fmt" "store_ok fmt d" "uniq d" "call_ok fmt sha call"
  shows "started fmt d (run_call fmt sha (cfg, env, call) d)"
proof (cases "starts call")
  case True
  with assms triple_result [OF createIdempotent_started [OF assms(1,3)] start_result_started]
    triple_result [OF createRoutedIdempotent_started [OF assms(1,3)] start_result_started]
  show ?thesis by (cases call) simp_all
next
  case False
  then show ?thesis by (rule kept_started [OF assms(3) run_call_kept [OF assms(1,2)]])
qed

text \<open>A call whose caller broke the obligation is left out of the run.\<close>

definition checked_call ::
  "formats \<Rightarrow> (string \<Rightarrow> string) \<Rightarrow> store_event \<Rightarrow> task_disk \<Rightarrow> task_disk" where
  "checked_call fmt sha e d =
     (case e of (cfg, env, call) \<Rightarrow> if call_ok fmt sha call then run_call fmt sha e d else d)"

lemma safe_machine:
  assumes "uuids_regular fmt"
  shows "state_machine (run_call fmt sha) (safe_store fmt d0)"
proof
  fix d and e :: store_event
  assume s: "safe_store fmt d0 d"
  obtain cfg env call where e: "e = (cfg, env, call)" by (cases e)
  have "safe_store fmt d (run_call fmt sha e d)"
    unfolding e by (rule run_call_safe [OF assms]) (use s in \<open>simp add: safe_store_def\<close>)
  with s grown_trans show "safe_store fmt d0 (run_call fmt sha e d)" by (auto simp: safe_store_def)
qed

lemma store_machine:
  assumes "uuids_regular fmt"
  shows "state_machine (checked_call fmt sha) (started fmt d0)"
proof
  fix d and e :: store_event
  assume s: "started fmt d0 d"
  obtain cfg env call where e: "e = (cfg, env, call)" by (cases e)
  show "started fmt d0 (checked_call fmt sha e d)"
  proof (cases "call_ok fmt sha call")
    case True
    then have "started fmt d (run_call fmt sha e d)"
      unfolding e by (intro run_call_started [OF assms]) (use s in \<open>simp_all add: started_def\<close>)
    with s True grown_trans e show ?thesis by (auto simp: checked_call_def started_def)
  qed (use s e in \<open>simp add: checked_call_def\<close>)
qed

lemma run_calls_safe:
  "uuids_regular fmt \<Longrightarrow> store_ok fmt d \<Longrightarrow> safe_store fmt d (fold (run_call fmt sha) es d)"
  using state_machine.run_inv [OF safe_machine, of fmt d d sha es] by (simp add: safe_store_def)

lemma run_calls:
  assumes "uuids_regular fmt" "store_ok fmt d" "uniq d" "list_all (call_ok fmt sha) (calls_of es)"
  shows "started fmt d (fold (run_call fmt sha) es d)"
proof -
  have "fold (run_call fmt sha) es x = fold (checked_call fmt sha) es x" for x
    using assms(4) by (induction es arbitrary: x) (auto simp: checked_call_def calls_of_def)
  moreover have "started fmt d d" using assms(2,3) by (simp add: started_def)
  ultimately show ?thesis
    using state_machine.run_inv [OF store_machine [OF assms(1)]] by simp
qed

section \<open>Refinement of a transition\<close>

text \<open>The abstract transition: what an event does to a task, the journal left out.\<close>

definition spec_step :: "domain_event \<Rightarrow> task_record \<Rightarrow> task_record" where
  "spec_step e c =
     (if guard_of e c
      then (changes_of e c)\<lparr>tr_updatedAt := event_at e, tr_eventSeq := tr_eventSeq c + 1\<rparr>
      else c)"

lemma guard_core [simp]: "guard_of e (core r) = guard_of e r"
  by (cases e) (simp_all add: core_def)

lemma changes_core:
  "(changes_of e (core r))\<lparr>tr_updatedAt := event_at e, tr_eventSeq := tr_eventSeq (core r) + 1\<rparr>
   = core (transition_record r e (changes_of e) s)"
  by (cases e; cases r) (auto simp: core_def transition_record_def split: option.splits)

lemma reducer_core: "taskReducer r e = Inr r' \<Longrightarrow> core r' = spec_step e (core r)"
proof (erule reducer_cases)
  assume "r' = r" "\<not> guard_of e r"
  then show ?thesis by (simp add: spec_step_def guard_core)
next
  assume "guard_of e r" and t: "transition r e (changes_of e) (summary_of e) = Inr r'"
  then show ?thesis
    using compact_core(1) [OF t [unfolded transition_def]]
    using changes_core [where e = e and r = r and s = "summary_of e"] by (simp add: spec_step_def)
qed

definition refined :: "domain_event \<Rightarrow> task_disk \<Rightarrow> task_key \<Rightarrow> task_record \<Rightarrow> task_record \<Rightarrow> task_disk \<Rightarrow> bool" where
  "refined e d0 k r0 x d \<longleftrightarrow> tasks d = (tasks d0)(k \<mapsto> x) \<and> core x = spec_step e (core r0)"

definition refined_or_not :: "domain_event \<Rightarrow> task_disk \<Rightarrow> task_key \<Rightarrow> task_record \<Rightarrow> task_disk \<Rightarrow> bool" where
  "refined_or_not e d0 k r0 d \<longleftrightarrow>
     (\<exists>x. tasks d = (tasks d0)(k \<mapsto> x) \<and> (core x = core r0 \<or> core x = spec_step e (core r0)))"

lemma refined_or_not_kept:
  "tasks d = (tasks d0)(k \<mapsto> x) \<Longrightarrow> core x = core r0 \<Longrightarrow> refined_or_not e d0 k r0 d"
  by (auto simp: refined_or_not_def)

lemma refined_or_not_confined: "confined k d0 d \<Longrightarrow> tasks d0 k = Some r0 \<Longrightarrow> refined_or_not e d0 k r0 d"
  unfolding refined_or_not_def using confined_Some [of k d0 d r0] rewritten_def by blast

lemma save_refines_triple:
  assumes "uuids_regular fmt" "record_valid fmt u" "tasks d1 = (tasks d0)(k \<mapsto> r)" "key_of u = k"
    and "core r = core r0" "core u = spec_step e (core r0)"
  shows "triple (\<lambda>d. d = d1 \<and> store_ok fmt d) (saveUnlocked fmt cfg env u)
    (\<lambda>x d. refined e d0 k r0 x d) (refined_or_not e d0 k r0)"
proof (rule triple_weaken [OF save_triple [OF assms(1), of d1 cfg env u]])
  have v: "core v = spec_step e (core r0) \<and> key_of v = k" if "saved fmt u v" for v
    using saved_rewritten [OF assms(2) that] rewritten_fields(1) [of u v] assms(4,6)
    by (simp add: rewritten_def)
  show "store_ok fmt d \<and> saved fmt u x \<and> tasks d = (tasks d1)(key_of x \<mapsto> x) \<Longrightarrow> refined e d0 k r0 x d" for x d
    using v [of x] assms(3) by (auto simp: refined_def)
  show "store_ok fmt d \<and> (tasks d = tasks d1 \<or> (\<exists>v. saved fmt u v \<and> tasks d = (tasks d1)(key_of v \<mapsto> v)))
      \<Longrightarrow> refined_or_not e d0 k r0 d" for d
    using v assms(3,5) by (auto simp: refined_or_not_def)
qed

lemma transition_refines_triple:
  assumes "uuids_regular fmt" "event_ok fmt e" "k = (js_lower p, js_lower t)" "tasks d0 k = Some r0"
  shows "triple (\<lambda>d. d = d0 \<and> store_ok fmt d) (transitionOwned fmt cfg env p t e)
    (\<lambda>x d. refined e d0 k r0 x d) (refined_or_not e d0 k r0)"
  unfolding transitionOwned_def
proof (rule triple_bind [where R = "\<lambda>r d. store_ok fmt d \<and> owned_current d0 fmt p t r d"])
  show "triple (\<lambda>d. d = d0 \<and> store_ok fmt d) (current_owned fmt cfg env p t)
      (\<lambda>r d. store_ok fmt d \<and> owned_current d0 fmt p t r d) (refined_or_not e d0 k r0)"
    by (rule triple_weaken [OF current_owned_triple [OF assms(1)]])
      (use refined_or_not_confined assms(3,4) in blast)+
  fix r
  show "triple (\<lambda>d. store_ok fmt d \<and> owned_current d0 fmt p t r d)
      (bindS (liftS (taskReducer r e)) (\<lambda>u.
         if u \<noteq> r then saveUnlocked fmt cfg (se_save env) u else liftS (Inr u)))
      (\<lambda>x d. refined e d0 k r0 x d) (refined_or_not e d0 k r0)"
  proof (rule triple_pre)
    fix d1 assume d1: "store_ok fmt d1 \<and> owned_current d0 fmt p t r d1"
    then have r: "key_of r = k" "tasks d1 = (tasks d0)(k \<mapsto> r)" "record_valid fmt r" "core r = core r0"
      using assms(3,4) by (auto simp: owned_current_def rewritten_def)
    show "triple (\<lambda>d. d = d1)
      (bindS (liftS (taskReducer r e)) (\<lambda>u.
         if u \<noteq> r then saveUnlocked fmt cfg (se_save env) u else liftS (Inr u)))
      (\<lambda>x d. refined e d0 k r0 x d) (refined_or_not e d0 k r0)"
    proof (cases "taskReducer r e")
      case (Inl err)
      then show ?thesis
        using refined_or_not_kept [OF r(2,4)] by (simp add: triple_def) (simp add: liftS_def)
    next
      case (Inr u)
      have u: "core u = spec_step e (core r0)" using reducer_core [OF Inr] r(4) by simp
      have "key_of u = k" using reducer_evolved [OF Inr] r(1) by (simp add: evolved_def)
      from save_refines_triple [OF assms(1) reducer_record_valid [OF r(3) assms(2) Inr] r(2) this r(4) u]
      have "triple (\<lambda>d. d = d1) (saveUnlocked fmt cfg (se_save env) u)
          (\<lambda>x d. refined e d0 k r0 x d) (refined_or_not e d0 k r0)"
        by (rule triple_weaken) (use d1 in auto)
      moreover have "u = r \<Longrightarrow> refined e d0 k r0 u d1" using r(2) u by (simp add: refined_def)
      ultimately show ?thesis using Inr by (auto intro!: triple_lift)
    qed
  qed
qed

section \<open>Retries\<close>

lemma evolved_identity:
  assumes "tr_schema r = SchemaV2 v" "evolved r r'"
  shows "same_identity r r'"
  using assms by (auto simp: same_identity_def evolved_def schema_step_def key_of_def)

lemma saved_identity:
  assumes "uuids_regular fmt" "record_for_routed fmt sha q r" "saved fmt r v"
  shows "same_identity r v"
proof -
  obtain n where n: "normalizeOwnedRoutedTaskStart fmt q = Inr n" "tr_peerId r = or_peerId n"
    "lower_schema (tr_schema r) = tr_schema r" "js_lower (tr_peerId r) = tr_peerId r"
    "js_lower (tr_delegationRequestId r) = tr_delegationRequestId r" "js_lower (tr_taskId r) = tr_taskId r"
    "js_lower (tr_workspaceId r) = tr_workspaceId r"
    by (rule routed_ids [OF assms(1,2)])
  with saved_fields [OF assms(1,3)] show ?thesis by (simp add: same_identity_def)
qed

text \<open>The task a routed start left is found again by a retry, whatever happened in between.\<close>

lemma retry_finds:
  assumes "normalizeOwnedRoutedTaskStart fmt q = Inr n" "w \<in> set rs" "same_source n w"
    "tr_taskId w = rs_taskId (or_params n)"
  shows "matchIdempotentRoutedStart fmt sha rs q \<noteq> Inr None"
proof
  assume "matchIdempotentRoutedStart fmt sha rs q = Inr None"
  from match_routed_find [OF this assms(1)] assms(2-4) show False
    by (auto simp: find_None_iff_all)
qed

lemma routed_retry:
  assumes "uuids_regular fmt" "store_ok fmt d" "uniq d" "record_for_routed fmt sha q r"
    and n: "normalizeOwnedRoutedTaskStart fmt q = Inr n"
    and first: "createRoutedIdempotent fmt sha cfg env q r d = (res, d1)"
    and new: "tasks d (or_peerId n, rs_taskId (or_params n)) = None"
      "tasks d1 (or_peerId n, rs_taskId (or_params n)) = Some v"
    and calls: "list_all (call_ok fmt sha) (calls_of es)"
    and look: "listUnlocked fmt cfg' env' (fold (run_call fmt sha) es d1) = (Inr rs, d3)"
  shows "\<exists>a. createRoutedIdempotent fmt sha cfg' env' q r' (fold (run_call fmt sha) es d1) = (a, d3)
    \<and> (\<forall>w. a \<noteq> Inr (w, True))
    \<and> (rs_sourceWorkspaceIdentity (or_params n) \<noteq> None \<longrightarrow>
        (\<exists>w. a = Inr (w, False) \<and> evolved v w \<and> tasks d3 (or_peerId n, rs_taskId (or_params n)) = Some w))"
proof -
  let ?d2 = "fold (run_call fmt sha) es d1" and ?k = "(or_peerId n, rs_taskId (or_params n))"
  have d1: "started fmt d d1"
  proof -
    have "triple (\<lambda>x. x = d \<and> store_ok fmt x) (createRoutedIdempotent fmt sha cfg env q r)
        (\<lambda>_. started fmt d) (started fmt d)"
      by (rule triple_weaken [OF createRoutedIdempotent_started [OF assms(1,3,4)]])
        (auto dest: start_result_started)
    from triple_snd [OF this, of d] first assms(2) show ?thesis by simp
  qed
  have "left fmt r d d1" by (rule createRoutedIdempotent_left [OF assms(1,2) first])
  then have v: "saved fmt r v" using new unfolding left_def by blast
  from run_calls [OF assms(1) _ _ calls, of d1] d1 have d2: "store_ok fmt ?d2" "uniq ?d2" "grown d1 ?d2"
    by (simp_all add: started_def)
  have "store_ok fmt d3 \<and> settled ?d2 d3 \<and> set rs = ran (tasks d3)"
    by (rule triple_Inr [OF list_triple [OF assms(1)] _ look]) (simp add: d2)
  then have d3: "store_ok fmt d3" "settled ?d2 d3" "set rs = ran (tasks d3)" by simp_all
  obtain u where u: "tasks ?d2 ?k = Some u" "evolved v u"
    using d2(3) new(2) unfolding grown_def by blast
  obtain w where w: "tasks d3 ?k = Some w" "evolved v w"
    using settled_Some [OF d3(2) u(1)] rewritten_evolved evolved_trans [OF u(2)] by blast
  have w_in: "w \<in> set rs" using w(1) d3(3) by (simp add: ranI)
  from assms(4) obtain at r0 where r0: "createAcceptedRoutedTask fmt sha q at = Inr r0" "same_identity r0 r"
    by (auto simp: record_for_routed_def)
  have "tr_schema r = SchemaV2 (v2_of_request n)"
    using createAcceptedRoutedTask_forms [OF assms(1) r0(1) n] r0(2) by (simp add: same_identity_def)
  with saved_identity [OF assms(1,4) v] have schema: "tr_schema v = SchemaV2 (v2_of_request n)"
    by (simp add: same_identity_def)
  have id: "same_identity r0 w"
    using r0(2) saved_identity [OF assms(1,4) v] evolved_identity [OF schema w(2)]
    by (simp add: same_identity_def)
  have "tr_schema w = SchemaV2 (v2_of_request n)" "tr_peerId w = or_peerId n" "tr_taskId w = rs_taskId (or_params n)"
    using createAcceptedRoutedTask_forms [OF assms(1) r0(1) n] id by (simp_all add: same_identity_def)
  then have "same_source n w" by (simp add: same_source_def v2_of_request_def Let_def)
  from retry_finds [OF n w_in this \<open>tr_taskId w = _\<close>]
  have found: "matchIdempotentRoutedStart fmt sha rs q \<noteq> Inr None" .
  have "uniq d3" using uniq_progress [OF d2(2) settled_progress [OF d3(2)]] .
  from uniq_ids [OF d3(1) this d3(3)]
  have match: "matchIdempotentRoutedStart fmt sha rs q = Inr (Some w)"
    if "rs_sourceWorkspaceIdentity (or_params n) \<noteq> None"
    using routed_match [OF assms(1) _ w_in r0(1) id n n] that by (simp add: no_collision_refl)
  have run: "createRoutedIdempotent fmt sha cfg' env' q r' ?d2 =
      (case matchIdempotentRoutedStart fmt sha rs q of
         Inl e \<Rightarrow> (Inl e, d3)
       | Inr (Some x) \<Rightarrow> (Inr (x, False), d3)
       | Inr None \<Rightarrow> bindS (createUnlocked fmt cfg' env' r') (\<lambda>created. liftS (Inr (created, True))) d3)"
    using look by (simp add: createRoutedIdempotent_def bindS_def liftS_def split: sum.split option.split)
  show ?thesis
  proof (cases "matchIdempotentRoutedStart fmt sha rs q")
    case (Inl e)
    with match have "rs_sourceWorkspaceIdentity (or_params n) = None" by fastforce
    with run Inl show ?thesis by simp
  next
    case (Inr m)
    with found obtain x where "m = Some x" by (cases m) auto
    with run match Inr w show ?thesis by auto
  qed
qed

section \<open>Fencing\<close>

definition shut_out :: "store_config \<Rightarrow> save_env \<Rightarrow> bool" where
  "shut_out cfg env \<longleftrightarrow> assertWritable cfg (sv_before env) \<noteq> Inr ()"

lemma shut_out_write: "shut_out cfg env \<Longrightarrow> unchanging (fenced_write cfg env path r)"
  by (cases "assertWritable cfg (sv_before env)") (simp_all add: shut_out_def fenced_write_def)

lemma shut_out_compact: "shut_out cfg env \<Longrightarrow> unchanging (compactOnRead fmt cfg env path r)"
  unfolding compactOnRead_def
  by (intro unchanging_bind unchanging_lift) (auto simp: shut_out_write split: option.split)

lemma shut_out_save: "shut_out cfg env \<Longrightarrow> unchanging (saveUnlocked fmt cfg env r)"
  unfolding saveUnlocked_def
  by (intro unchanging_bind unchanging_lift) (auto simp: shut_out_write split: option.split)

lemma shut_out_get:
  "shut_out cfg (rd_save env) \<Longrightarrow> unchanging (getOwnedUnlocked fmt cfg env p t)"
  unfolding getOwnedUnlocked_def Let_def
  by (auto intro!: unchanging_bind simp: shut_out_compact split: option.split)

lemma shut_out_list_loop:
  "(\<And>path. shut_out cfg (rd_save (env path))) \<Longrightarrow> unchanging (list_loop fmt cfg env rs names)"
  by (induction names arbitrary: rs)
    (auto simp: Let_def shut_out_compact split: option.split intro!: unchanging_bind)


lemma shut_out_list:
  assumes "\<And>path. shut_out cfg (rd_save (se_list env path))"
  shows "unchanging (listUnlocked fmt cfg env)"
  unfolding listUnlocked_def
  by (intro unchanging_bind unchanging_read shut_out_list_loop assms)

definition env_shut_out :: "store_config \<Rightarrow> store_env \<Rightarrow> bool" where
  "env_shut_out cfg env \<longleftrightarrow>
     shut_out cfg (se_save env) \<and> shut_out cfg (rd_save (se_get env))
     \<and> (\<forall>path. shut_out cfg (rd_save (se_list env path)))"

lemma shut_out_create: "env_shut_out cfg env \<Longrightarrow> unchanging (createUnlocked fmt cfg env r)"
  unfolding createUnlocked_def
  by (intro unchanging_bind unchanging_lift)
    (auto simp: env_shut_out_def shut_out_get shut_out_write intro!: unchanging_bind split: option.split)

lemma shut_out_create_task: "env_shut_out cfg env \<Longrightarrow> unchanging (create_task fmt cfg env r)"
  unfolding create_task_def by (intro unchanging_bind shut_out_create) simp_all

lemma shut_out_current: "env_shut_out cfg env \<Longrightarrow> unchanging (current_owned fmt cfg env p t)"
  unfolding current_owned_def
  by (intro unchanging_bind unchanging_lift) (simp add: env_shut_out_def shut_out_get)

lemma shut_out_start:
  assumes "env_shut_out cfg env"
  shows "unchanging (createIdempotent fmt sha cfg env q r)" "unchanging (createRoutedIdempotent fmt sha cfg env p r)"
proof -
  have l: "unchanging (listUnlocked fmt cfg env)"
    using assms shut_out_list by (simp add: env_shut_out_def)
  have c: "unchanging (bindS (createUnlocked fmt cfg env r) (\<lambda>created. liftS (Inr (created, True))))"
    using shut_out_create [OF assms] by (intro unchanging_bind) simp_all
  show "unchanging (createIdempotent fmt sha cfg env q r)" "unchanging (createRoutedIdempotent fmt sha cfg env p r)"
    unfolding createIdempotent_def createRoutedIdempotent_def
    by (intro unchanging_bind unchanging_lift l; use c in \<open>simp split: option.split\<close>)+
qed

lemma shut_out_update:
  assumes "env_shut_out cfg env"
  shows "unchanging (transitionOwned fmt cfg env p t e)" "unchanging (recordRecoveryDescriptorOwned fmt cfg env p t x)"
    "unchanging (migrateOwnedV1 fmt cfg env p t dev)"
  unfolding transitionOwned_def recordRecoveryDescriptorOwned_def migrateOwnedV1_def
  by (intro unchanging_bind shut_out_current [OF assms];
      use assms in \<open>auto simp: env_shut_out_def shut_out_save intro!: unchanging_bind split: option.split\<close>)+

lemma shut_out_run: "env_shut_out cfg env \<Longrightarrow> run_call fmt sha (cfg, env, call) d = d"
  using shut_out_start shut_out_update shut_out_list shut_out_get shut_out_create_task
  by (cases call) (simp_all add: unchanging_def env_shut_out_def list_snd)

section \<open>Properties\<close>

text \<open>
  C31. File names are reversible. For a normalised peer and task id \<open>taskPath\<close> is the path of a
  file in the task directory whose name ends in \<open>.json\<close>, and a name in that directory parses to
  these two ids exactly when its path is the one \<open>taskPath\<close> builds. So the listing finds every
  task under its own ids, and two tasks never share a file.
\<close>
theorem task_file_names_round_trip:
  assumes "uuids_regular fmt" "normal_uuid fmt peerId" "normal_uuid fmt taskId"
  shows "(\<exists>name. taskPath peerId taskId = ''tasks/'' @ name \<and> ends_with name ''.json'')
    \<and> (\<forall>name. parseTaskFileName fmt (''tasks/'' @ name) name = Inr (peerId, taskId)
         \<longleftrightarrow> taskPath peerId taskId = ''tasks/'' @ name)"
proof -
  have path: "taskPath peerId taskId = ''tasks/'' @ file_name peerId taskId"
    by (simp add: taskPath_def file_name_def)
  have "parseTaskFileName fmt (''tasks/'' @ name) name = Inr (peerId, taskId)
      \<longleftrightarrow> name = file_name peerId taskId" for name
    using parse_file_name [OF assms] parse_file_name_Inr [OF assms(1)] by blast
  then show ?thesis unfolding path using file_name_plain(3) [OF assms] by auto
qed

text \<open>
  C2. The store survives every fault: after any sequence of calls of its public methods, each
  under an arbitrary environment (failing reads, writes, syncs, renames and unlinks, a lost
  ownership lock) and configuration, every task file still holds a complete valid record under
  the name of its task, and every task stored before is still there with the same identity, in a
  state reachable along the life cycle, its outcome unchanged if it was terminal and its event
  counter not decreased. If besides no call is the plain \<open>create\<close>, which checks only the task
  id, and every start is given the record its own request creates, then delegation ids stay
  unique within a peer and source workspace.
\<close>
theorem store_survives_faults:
  assumes "uuids_regular fmt" "store_ok fmt d" "d' = fold (run_call fmt sha) calls d"
  shows "store_ok fmt d'
    \<and> (\<forall>k r. tasks d k = Some r \<longrightarrow> (\<exists>r'. tasks d' k = Some r' \<and> evolved r r'))
    \<and> (uniq d \<and> list_all (call_ok fmt sha) (calls_of calls) \<longrightarrow> uniq d')"
  using run_calls_safe [OF assms(1,2), of sha calls] run_calls [OF assms(1,2), of sha calls] assms(3)
  by (auto simp: started_def safe_store_def grown_def)

text \<open>
  C6. \<open>transitionOwned\<close> refines the abstract transition of a task: when it returns a record, that
  record is stored under its key and is the abstract successor of the stored task (compaction and
  migration apart); when it fails, the task is the old one or its successor, nothing in between;
  and in both cases no other task of the store changes.
\<close>
theorem transition_refines_specification:
  assumes "uuids_regular fmt" "event_ok fmt e" "store_ok fmt d"
    and "tasks d (js_lower peerId, js_lower taskId) = Some r"
    and "transitionOwned fmt cfg env peerId taskId e d = (res, d')"
  shows "\<exists>x. tasks d' = (tasks d)((js_lower peerId, js_lower taskId) \<mapsto> x)
    \<and> (case res of
         Inr y \<Rightarrow> y = x \<and> core x = spec_step e (core r)
       | Inl _ \<Rightarrow> core x = core r \<or> core x = spec_step e (core r))"
  using triple_Inr [OF transition_refines_triple [OF assms(1,2) refl assms(4)]]
    triple_Inl [OF transition_refines_triple [OF assms(1,2) refl assms(4)]] assms(3,5)
  by (cases res) (auto simp: refined_def refined_or_not_def)

text \<open>
  C3. A routed start creates its task at most once. Let a start leave its task in the store, which
  was not there before, whether the call itself succeeded or failed after the file was written.
  Then after any further calls under any faults (plain \<open>create\<close>s apart, and each start with the
  record its own request creates) a retry of the request that can read the store creates nothing
  and changes nothing beyond that reading. If the request names its source workspace, the retry
  returns the task left first, as it has evolved, and reports it as not created. (Without a source
  workspace the match looks at all tasks of the peer, and the retry may run into a conflict with
  one that a source workspace has since started under the same delegation id.)
\<close>
theorem routed_start_at_most_once:
  assumes "uuids_regular fmt" "store_ok fmt d" "uniq d" "record_for_routed fmt sha q r"
    and "normalizeOwnedRoutedTaskStart fmt q = Inr n"
    and "createRoutedIdempotent fmt sha cfg env q r d = (res, d1)"
    and "tasks d (or_peerId n, rs_taskId (or_params n)) = None"
    and "tasks d1 (or_peerId n, rs_taskId (or_params n)) = Some v"
    and "list_all (call_ok fmt sha) (calls_of calls)" "d2 = fold (run_call fmt sha) calls d1"
    and "listUnlocked fmt cfg' env' d2 = (Inr rs, d3)"
  shows "\<exists>a. createRoutedIdempotent fmt sha cfg' env' q r' d2 = (a, d3)
    \<and> (\<forall>w. a \<noteq> Inr (w, True))
    \<and> (rs_sourceWorkspaceIdentity (or_params n) \<noteq> None \<longrightarrow>
        (\<exists>w. a = Inr (w, False) \<and> evolved v w \<and> tasks d3 (or_peerId n, rs_taskId (or_params n)) = Some w))"
  using routed_retry [OF assms(1-9)] assms(10,11) by blast

text \<open>
  C23. A host that lost the store's ownership lock writes nothing: when every ownership check made
  before a write refuses, no operation of the store, whatever it is given, changes the disk.
\<close>
theorem fenced_store_is_read_only:
  assumes "env_shut_out cfg env"
  shows "run_call fmt sha (cfg, env, call) d = d"
  by (rule shut_out_run [OF assms])

section \<open>Progress in a quiet environment\<close>

definition quiet_write :: "write_env \<Rightarrow> bool" where
  "quiet_write env \<longleftrightarrow>
     we_id env \<noteq> [] \<and> list_all safe_id_char (we_id env)
     \<and> (\<forall>p. de_mkdir (we_dirs env p) \<noteq> Mkdir_Failed \<and> de_syncDirectory (we_dirs env p))
     \<and> we_writeFile env = Written \<and> we_syncFile env \<and> we_rename env \<and> we_syncDirectory env"

definition quiet_save :: "store_config \<Rightarrow> save_env \<Rightarrow> bool" where
  "quiet_save cfg env \<longleftrightarrow>
     date_parse (sv_now env) \<noteq> None \<and> assertWritable cfg (sv_before env) = Inr ()
     \<and> quiet_write (sv_write env) \<and> assertWritable cfg (sv_during env) = Inr ()"

lemma quiet_directories:
  assumes "quiet_write env"
  shows "\<exists>p. ensureOwnedDirectory (we_dirs env) parent segments pending = (Inr (), p)"
  using assms by (induction segments arbitrary: parent pending) (simp_all add: quiet_write_def Let_def)

lemma quiet_writeJson:
  assumes "quiet_write env" "resolve_path path = Inr target"
  shows "\<exists>d'. writeJson env (Inr ()) path v d = (Inr (), d')"
proof -
  obtain p where "ensureOwnedDirectory (we_dirs env) [] (directory_segments target)
      (dk_pendingDirectorySyncs d) = (Inr (), p)"
    using quiet_directories [OF assms(1)] by blast
  with assms show ?thesis
    by (simp add: writeJson_def write_steps_def quiet_write_def Let_def)
qed

lemma quiet_fenced_write:
  assumes "quiet_save cfg env" "resolve_path path = Inr target"
  shows "\<exists>d'. fenced_write cfg env path r d = (Inr r, d')"
proof -
  have w: "quiet_write (sv_write env)" using assms(1) by (simp add: quiet_save_def)
  from quiet_writeJson [OF this assms(2), of "Record_Json r" d] assms(1) show ?thesis
    by (auto simp: fenced_write_def quiet_save_def bindS_def liftS_def)
qed

lemma stale_scan_total:
  "list_all (\<lambda>e. date_parse (ev_at e) \<noteq> None) es \<Longrightarrow> \<exists>k. stale_scan cutoff i j es = Inr k"
  by (induction es arbitrary: i j) (auto split: option.split)

lemma compact_total:
  assumes "datetimes_parse fmt" "list_all (taskEventRecordSchema fmt) (tr_events r)" "date_parse at \<noteq> None"
  shows "\<exists>c. compactTaskEventJournal r at = Inr c"
proof -
  have "list_all (\<lambda>e. date_parse (ev_at e) \<noteq> None) (tr_events r)"
    using assms(1,2) by (auto simp: list_all_iff taskEventRecordSchema_def datetimes_parse_def)
  from stale_scan_total [OF this]
  have "\<And>t. \<exists>k. stale_scan (t - TASK_EVENT_RETENTION_MS) 0 0 (tr_events r) = Inr k" by blast
  moreover obtain t where "date_parse at = Some t" using assms(3) by blast
  ultimately obtain k where "date_parse at = Some t"
    "stale_scan (t - TASK_EVENT_RETENTION_MS) 0 0 (tr_events r) = Inr k" by blast
  then show ?thesis by (simp add: compactTaskEventJournal_def Let_def)
qed

lemma valid_events: "record_valid fmt r \<Longrightarrow> list_all (taskEventRecordSchema fmt) (tr_events r)"
  by (simp add: record_valid_split)

lemma quiet_saveUnlocked:
  assumes "uuids_regular fmt" "datetimes_parse fmt" "quiet_save cfg env" "record_valid fmt r"
  shows "\<exists>v d'. saveUnlocked fmt cfg env r d = (Inr v, d')"
proof -
  obtain c where c: "compactTaskEventJournal r (sv_now env) = Inr c"
    using compact_total [OF assms(2) valid_events [OF assms(4)]] assms(3) by (auto simp: quiet_save_def)
  have v: "record_valid fmt c" by (rule compact_record_valid [OF assms(4) c])
  with valid_ids resolve_taskPath [OF assms(1)]
  have "resolve_path (taskPath (tr_peerId c) (tr_taskId c)) = Inr (taskPath (tr_peerId c) (tr_taskId c))"
    by blast
  from quiet_fenced_write [OF assms(3) this, of c d] c valid_schema [OF v] show ?thesis
    by (auto simp: saveUnlocked_def)
qed

lemma quiet_compactOnRead:
  assumes "uuids_regular fmt" "datetimes_parse fmt" "quiet_save cfg env" "record_valid fmt r"
    and "opt_all (fmt_uuid fmt) (sc_migrationDeviceId cfg)" "resolve_path path = Inr target"
  shows "\<exists>x d'. compactOnRead fmt cfg env path r d = (Inr x, d')"
proof -
  obtain m where m: "(case (tr_schema r, sc_migrationDeviceId cfg) of
      (SchemaV1, Some deviceId) \<Rightarrow> migrateTaskRecordV1 fmt r deviceId | _ \<Rightarrow> Inr r) = Inr m"
    "record_valid fmt m"
  proof (cases "\<exists>dev. tr_schema r = SchemaV1 \<and> sc_migrationDeviceId cfg = Some dev")
    case True
    then obtain dev where dev: "tr_schema r = SchemaV1" "sc_migrationDeviceId cfg = Some dev" by blast
    with migrate_forms [OF assms(1,4) dev(1), of dev] assms(5) that show thesis
      by (auto simp: opt_all_def)
  next
    case False
    then have "(case (tr_schema r, sc_migrationDeviceId cfg) of
      (SchemaV1, Some deviceId) \<Rightarrow> migrateTaskRecordV1 fmt r deviceId | _ \<Rightarrow> Inr r) = Inr r"
      by (auto split: task_schema.split option.split)
    with that assms(4) show thesis by blast
  qed
  obtain c where c: "compactTaskEventJournal m (sv_now env) = Inr c"
    using compact_total [OF assms(2) valid_events [OF m(2)]] assms(3) by (auto simp: quiet_save_def)
  have v: "record_valid fmt c" by (rule compact_record_valid [OF m(2) c])
  show ?thesis
  proof (cases "c = r")
    case True
    with m(1) c show ?thesis by (simp add: compactOnRead_def) (simp add: liftS_def)
  next
    case False
    with m(1) c valid_schema [OF v] quiet_fenced_write [OF assms(3,6), of c d] show ?thesis
      by (auto simp: compactOnRead_def)
  qed
qed

definition quiet_read :: "store_config \<Rightarrow> read_env \<Rightarrow> bool" where
  "quiet_read cfg env \<longleftrightarrow> rd_readable env \<and> quiet_save cfg (rd_save env)"

lemma quiet_getOwned:
  assumes "uuids_regular fmt" "datetimes_parse fmt" "quiet_read cfg env" "store_ok fmt d"
    and "opt_all (fmt_uuid fmt) (sc_migrationDeviceId cfg)" "normal_uuid fmt p" "normal_uuid fmt t"
    and "tasks d (p, t) = Some r"
  shows "\<exists>x d'. getOwnedUnlocked fmt cfg env p t d = (Inr (Some x), d')"
proof -
  have r: "record_valid fmt r" "key_of r = (p, t)" using tasks_valid [OF assms(4,8)] by simp_all
  have path: "resolve_path (taskPath p t) = Inr (taskPath p t)"
    by (rule resolve_taskPath [OF assms(1,6,7)])
  have "quiet_save cfg (rd_save env)" using assms(3) by (simp add: quiet_read_def)
  from quiet_compactOnRead [OF assms(1,2) this r(1) assms(5) path, of d]
  obtain x d' where "compactOnRead fmt cfg (rd_save env) (taskPath p t) r d = (Inr x, d')" by blast
  moreover have "readJson (rd_readable env) (taskPath p t) d = Inr (Some (Record_Json r))"
    using readJson_task [OF assms(1,4,6,7)] assms(3,8) by (simp add: quiet_read_def)
  ultimately show ?thesis
    using assms(6,7) r parseRecord_stored [OF r(1)]
    by (simp add: getOwnedUnlocked_def normal_uuidSchema bindS_def key_of_def Let_def) (simp add: liftS_def)
qed

lemma quiet_transition:
  assumes "uuids_regular fmt" "datetimes_parse fmt" "store_ok fmt d" "event_ok fmt e"
    and "opt_all (fmt_uuid fmt) (sc_migrationDeviceId cfg)"
    and "quiet_read cfg (se_get env)" "quiet_save cfg (se_save env)"
    and "normal_uuid fmt p" "normal_uuid fmt t" "tasks d (p, t) = Some r" "guard_of e r"
  shows "\<exists>x d'. transitionOwned fmt cfg env p t e d = (Inr x, d') \<and> refined e d (p, t) r x d'"
proof -
  have low: "js_lower p = p" "js_lower t = t" using assms(8,9) by (simp_all add: normal_uuid_def)
  obtain y d1 where get: "getOwnedUnlocked fmt cfg (se_get env) p t d = (Inr (Some y), d1)"
    using quiet_getOwned [OF assms(1,2,6,3,5,8,9,10)] by blast
  have "read_result d fmt p t (Some y) d1"
    using triple_Inr [OF getOwned_triple [OF assms(1)] _ get] assms(3) by blast
  then have y: "key_of y = (p, t)" "rewritten r y" "record_valid fmt y"
    using low assms(10) by (auto simp: read_result_def)
  have cur: "current_owned fmt cfg env p t d = (Inr y, d1)"
    using get y(1) assms(8) by (simp add: current_owned_def bindS_def getOwnedTask_def
        normal_uuidSchema key_of_def) (simp add: liftS_def)
  have "guard_of e y" using y(2) assms(11) guard_core unfolding rewritten_def by metis
  from reducer_guarded [OF this] have red: "taskReducer y e = transition y e (changes_of e) (summary_of e)" .
  have "list_all (taskEventRecordSchema fmt) (tr_events (transition_record y e (changes_of e) (summary_of e)))"
    using valid_events [OF y(3)] new_event_ok [OF assms(4), of y]
    by (simp add: transition_record_def changes_frame new_event_def)
  moreover have "date_parse (event_at e) \<noteq> None"
    using assms(2,4) by (auto simp: datetimes_parse_def event_ok_def)
  ultimately obtain u where u: "taskReducer y e = Inr u"
    using red compact_total [OF assms(2)] by (auto simp: transition_def)
  obtain v d2 where "saveUnlocked fmt cfg (se_save env) u d1 = (Inr v, d2)"
    using quiet_saveUnlocked [OF assms(1,2,7) reducer_record_valid [OF y(3) assms(4) u]] by blast
  then have "\<exists>x d'. transitionOwned fmt cfg env p t e d = (Inr x, d')"
    using cur u by (simp add: transitionOwned_def bindS_def) (simp add: liftS_def)
  then obtain x d' where res: "transitionOwned fmt cfg env p t e d = (Inr x, d')" by blast
  have "refined e d (p, t) r x d'"
    by (rule triple_Inr [OF transition_refines_triple [OF assms(1,4) _ assms(10)] _ res])
      (simp_all add: low assms(3))
  with res show ?thesis by blast
qed

lemma quiet_list_loop:
  assumes "uuids_regular fmt" "datetimes_parse fmt" "\<And>path. quiet_read cfg (env path)" "store_ok fmt d"
    and "opt_all (fmt_uuid fmt) (sc_migrationDeviceId cfg)"
    and "\<And>name. name \<in> set names \<Longrightarrow> ends_with name ''.json''
      \<Longrightarrow> \<exists>k. tasks d k \<noteq> None \<and> name = file_name (fst k) (snd k)"
  shows "\<exists>rs d'. list_loop fmt cfg env acc names d = (Inr rs, d')"
  using assms(4,6)
proof (induction names arbitrary: acc d)
  case Nil
  then show ?case by (simp add: liftS_def)
next
  case (Cons name names)
  show ?case
  proof (cases "ends_with name ''.json''")
    case False
    with Cons show ?thesis by simp
  next
    case True
    then obtain k r where k: "tasks d k = Some r" "name = file_name (fst k) (snd k)"
      using Cons.prems(2) [of name] by auto
    note v = tasks_valid [OF Cons.prems(1) k(1)]
    let ?path = "task_file name"
    have path: "?path = taskPath (fst k) (snd k)" by (simp add: k(2) taskPath_file_name)
    have res: "resolve_path ?path = Inr ?path"
      unfolding path by (rule resolve_taskPath [OF assms(1) v(3,4)])
    have parse: "parseTaskFileName fmt ?path name = Inr (fst k, snd k)"
      unfolding k(2) by (rule parse_file_name [OF assms(1) v(3,4)])
    have quiet: "rd_readable (env ?path)" "quiet_save cfg (rd_save (env ?path))"
      using assms(3) [of ?path] by (simp_all add: quiet_read_def)
    have read: "readJson (rd_readable (env ?path)) ?path d = Inr (Some (Record_Json r))"
      using readJson_task [OF assms(1) Cons.prems(1) v(3,4)] quiet(1) k(1) by (simp add: path)
    obtain x d1 where c: "compactOnRead fmt cfg (rd_save (env ?path)) ?path r d = (Inr x, d1)"
      using quiet_compactOnRead [OF assms(1,2) quiet(2) v(1) assms(5) res] by blast
    have tk: "tasks d (key_of r) = Some r" using v(2) k(1) by simp
    have "taskPath (tr_peerId r) (tr_taskId r) = ?path" using v(2) path by (auto simp: key_of_def)
    then have "store_ok fmt d1" "tasks d1 = (tasks d)(key_of r \<mapsto> x)"
      using triple_Inr [OF compactOnRead_triple [OF assms(1) v(1) tk, of cfg "rd_save (env ?path)"] _, of d x d1]
        c Cons.prems(1) by simp_all
    moreover from this have "\<And>n. n \<in> set names \<Longrightarrow> ends_with n ''.json''
        \<Longrightarrow> \<exists>k. tasks d1 k \<noteq> None \<and> n = file_name (fst k) (snd k)"
      using Cons.prems(2) by (metis fun_upd_apply list.set_intros(2) option.distinct(1))
    ultimately obtain rs d' where "list_loop fmt cfg env (acc @ [x]) names d1 = (Inr rs, d')"
      using Cons.IH by blast
    then show ?thesis
      using True parse read c v(2) parseRecord_stored [OF v(1)]
      by (cases k) (simp add: Let_def key_of_def, simp add: bindS_def)
  qed
qed

definition quiet_env :: "store_config \<Rightarrow> store_env \<Rightarrow> bool" where
  "quiet_env cfg env \<longleftrightarrow>
     se_readdir env \<and> (\<forall>path. quiet_read cfg (se_list env path)) \<and> quiet_read cfg (se_get env)
     \<and> quiet_save cfg (se_save env)"

lemma quiet_list:
  assumes "uuids_regular fmt" "datetimes_parse fmt" "quiet_env cfg env" "store_ok fmt d"
    and "opt_all (fmt_uuid fmt) (sc_migrationDeviceId cfg)"
  shows "\<exists>rs d'. listUnlocked fmt cfg env d = (Inr rs, d')"
proof -
  have dir: "list_directory True ''tasks'' d = Inr (names_in ''tasks'' d)"
    using resolve_plain [of "''tasks''"] by (simp add: list_directory_def plain_segment_def split_single)
  have names: "\<exists>k. tasks d k \<noteq> None \<and> name = file_name (fst k) (snd k)"
    if name: "name \<in> set (sort (names_in ''tasks'' d))" "ends_with name ''.json''" for name
  proof -
    obtain p where p: "p \<in> set (map fst (dk_files d))" "take 6 p = ''tasks/''" "name = drop 6 p"
      using name(1) by (auto simp: names_in_def eval_nat_numeral image_iff)
    then have "task_file name = p" by (metis append_take_drop_id task_file_def)
    with p(1) have "task_file name \<in> set (map fst (dk_files d))" by simp
    then obtain c where "js_get (dk_files d) (task_file name) = Some c"
      by (metis dom_map_of_conv_image_fst domD set_map)
    with name(2) assms(4) obtain r where r: "c = Json (Record_Json r)" "record_valid fmt r"
      "name = file_name (tr_peerId r) (tr_taskId r)" "js_get (dk_files d) (task_file name) = Some c"
      unfolding store_ok_alt by blast
    then have "tasks d (key_of r) = Some r"
      by (simp add: tasks_def key_of_def taskPath_file_name)
    with r(3) show ?thesis by (metis fst_conv key_of_def option.distinct(1) snd_conv)
  qed
  have "\<exists>rs d'. list_loop fmt cfg (se_list env) [] (sort (names_in ''tasks'' d)) d = (Inr rs, d')"
    by (rule quiet_list_loop [OF assms(1,2) _ assms(4,5) names])
      (use assms(3) in \<open>simp_all add: quiet_env_def\<close>)
  with dir assms(3) show ?thesis by (simp add: listUnlocked_def bindS_def quiet_env_def)
qed

lemma quiet_create:
  assumes "uuids_regular fmt" "datetimes_parse fmt" "quiet_env cfg env" "store_ok fmt d"
    and "record_valid fmt r" "tasks d (key_of r) = None"
  shows "\<exists>v d'. createUnlocked fmt cfg env r d = (Inr v, d')"
proof -
  have q: "quiet_read cfg (se_get env)" "quiet_save cfg (se_save env)" using assms(3) by (simp_all add: quiet_env_def)
  obtain c where c: "compactTaskEventJournal r (sv_now (se_save env)) = Inr c"
    using compact_total [OF assms(2) valid_events [OF assms(5)]] q(2) by (auto simp: quiet_save_def)
  have v: "record_valid fmt c" by (rule compact_record_valid [OF assms(5) c])
  note ids = valid_ids [OF v]
  have key: "key_of c = key_of r" using compact_frame [OF c] by (simp add: key_of_def)
  have path: "resolve_path (taskPath (tr_peerId c) (tr_taskId c)) = Inr (taskPath (tr_peerId c) (tr_taskId c))"
    using resolve_taskPath [OF assms(1)] ids by blast
  have "getOwnedUnlocked fmt cfg (se_get env) (tr_peerId c) (tr_taskId c) d = (Inr None, d)"
    using readJson_task [OF assms(1,4)] ids assms(6) key q(1)
    by (simp add: getOwnedUnlocked_def normal_uuidSchema Let_def key_of_def quiet_read_def) (simp add: liftS_def)
  with c valid_schema [OF v] quiet_fenced_write [OF q(2) path, of c d] show ?thesis
    by (auto simp: createUnlocked_def bindS_def)
qed


section \<open>Sample store\<close>

definition one_task_disk :: "task_record \<Rightarrow> task_disk" where
  "one_task_disk r =
     empty_disk\<lparr>dk_files := [(taskPath (tr_peerId r) (tr_taskId r), Json (Record_Json r))]\<rparr>"

lemma empty_store: "store_ok fmt empty_disk" "uniq empty_disk" "tasks empty_disk = Map.empty"
  by (simp_all add: store_ok_alt uniq_def tasks_def empty_disk_def js_wf_def fun_eq_iff)

lemma one_task_store:
  assumes "uuids_regular fmt" "record_valid fmt r"
  shows "store_ok fmt (one_task_disk r)" "tasks (one_task_disk r) (key_of r) = Some r"
proof -
  have g: "js_get (dk_files (one_task_disk r)) p =
      (if p = taskPath (tr_peerId r) (tr_taskId r) then Some (Json (Record_Json r)) else None)" for p
    by (simp add: one_task_disk_def)
  have "js_wf (dk_files (one_task_disk r))" by (simp add: one_task_disk_def js_wf_def)
  with assms(2) show "store_ok fmt (one_task_disk r)"
    by (auto simp: store_ok_alt g taskPath_file_name split: if_splits)
  show "tasks (one_task_disk r) (key_of r) = Some r" by (simp add: tasks_def g key_of_def)
qed

lemma one_task_uniq: "uniq (one_task_disk r)"
proof -
  have "tasks (one_task_disk r) k = Some x \<Longrightarrow> x = r \<and> k = key_of r" for k x
    by (auto simp: tasks_def one_task_disk_def split: if_splits)
  then show ?thesis unfolding uniq_def by metis
qed

definition open_config :: store_config where
  "open_config = \<lparr>sc_migrationDeviceId = None, sc_fenced = False, sc_generation = None\<rparr>"

definition sample_ownership :: ownership_env where
  "sample_ownership = \<lparr>ow_isOwner = True, ow_generation = None, ow_assertOwner = Inr (),
     ow_generationAfter = None\<rparr>"

definition calm_save :: save_env where
  "calm_save = \<lparr>sv_now = sample_time, sv_before = sample_ownership, sv_write = calm_env,
     sv_during = sample_ownership\<rparr>"

definition calm_store :: store_env where
  "calm_store = \<lparr>se_readdir = True, se_list = (\<lambda>_. \<lparr>rd_readable = True, rd_save = calm_save\<rparr>),
     se_get = \<lparr>rd_readable = True, rd_save = calm_save\<rparr>, se_save = calm_save\<rparr>"

lemma calm_quiet: "quiet_env open_config calm_store"
proof -
  have "safe_id_char (CHR ''1'')" by (simp add: safe_id_char_def is_digit_def)
  then have "quiet_save open_config calm_save"
    by (simp add: quiet_save_def quiet_write_def calm_save_def open_config_def assertWritable_def
        calm_env_def sample_dir_env_def)
  then show ?thesis by (simp add: quiet_env_def quiet_read_def calm_store_def)
qed

lemma sample_normal: "is_hex_char c \<Longrightarrow> normal_uuid sample_formats (sample_id c)"
  by (simp add: normal_uuid_def)

definition sourced_routed :: owned_routed_start where
  "sourced_routed = sample_routed\<lparr>or_params :=
     (or_params sample_routed)\<lparr>rs_sourceWorkspaceIdentity := Some (''sha256:'' @ replicate 43 (CHR ''A''))\<rparr>\<rparr>"

lemma sourced_routed_normal:
  "normalizeOwnedRoutedTaskStart sample_formats sourced_routed = Inr sourced_routed"
  by (simp add: normalizeRouted_Inr uuidSchema_Some lease_key_ok_def sourced_routed_def sample_routed_def
      routedTaskStartParamsSchema_def taskTargetSchema_def opt_all_def utf8String_def
      lower_task_target_def workspaceIdentitySchema_def list_all_iff)
    (simp add: is_base64url_char_def)

lemma sourced_routed_created:
  "\<exists>r. createAcceptedRoutedTask sample_formats sample_digest sourced_routed sample_time = Inr r"
proof -
  have "hash_format (sample_digest s)" for s
    by (simp add: hash_format_def sample_digest_def list_all_iff is_hex_char_def is_digit_def)
  moreover have "lower_target (persisted_target (rs_target (or_params sourced_routed)))
      = persisted_target (rs_target (or_params sourced_routed))"
    by (simp add: lower_target_def persisted_target_def sourced_routed_def sample_routed_def)
  ultimately show ?thesis
    using canonicalRouted_normalized [OF sample_uuids_regular sourced_routed_normal, of sample_digest]
    by (simp add: createAcceptedRoutedTask_def sourced_routed_normal parse_record_def Let_def
        persistedTaskRecordSchema_def persistedTaskRecordCommonFields_def lower_record_def lower_v2_def)
      (simp add: sourced_routed_def sample_routed_def opt_all_def utf8String_def v2_fields_ok_def
        lower_answers_def persistedTaskRoutingTargetSchema_def persisted_target_def validateTaskState_def
        validateFullJournal_def first_sequence_def jlen_Nil taskEventJournalBytes_limit_def
        target_matches_workspace_def lower_target_def)
qed

text \<open>In a quiet environment a routed start into the empty store creates its task.\<close>

lemma sourced_start:
  assumes "createAcceptedRoutedTask sample_formats sample_digest sourced_routed sample_time = Inr r"
  shows "\<exists>v d1. createRoutedIdempotent sample_formats sample_digest open_config calm_store sourced_routed r
      empty_disk = (Inr (v, True), d1)"
proof -
  have l: "listUnlocked sample_formats open_config calm_store empty_disk = (Inr [], empty_disk)"
    using resolve_plain [of "''tasks''"]
    by (simp add: listUnlocked_def list_directory_def plain_segment_def split_single names_in_def
        empty_disk_def calm_store_def) (simp add: liftS_def)
  have m: "matchIdempotentRoutedStart sample_formats sample_digest [] sourced_routed = Inr None"
    by (simp add: matchIdempotentRoutedStart_def sourced_routed_normal Let_def)
  have "\<exists>v d1. createUnlocked sample_formats open_config calm_store r empty_disk = (Inr v, d1)"
    by (rule quiet_create [OF sample_uuids_regular sample_datetimes_parse calm_quiet empty_store(1)
          createAcceptedRoutedTask_valid [OF sample_uuids_regular assms]]) (simp add: empty_store)
  with l m show ?thesis
    by (auto simp: createRoutedIdempotent_def bindS_def liftS_def split: prod.split)
qed

lemma file_names_witness:
  "parseTaskFileName sample_formats
      (''tasks/'' @ sample_id (CHR ''a'') @ ''--'' @ sample_id (CHR ''b'') @ ''.json'')
      (sample_id (CHR ''a'') @ ''--'' @ sample_id (CHR ''b'') @ ''.json'')
     = Inr (sample_id (CHR ''a''), sample_id (CHR ''b''))"
proof -
  have "taskPath (sample_id (CHR ''a'')) (sample_id (CHR ''b''))
      = ''tasks/'' @ sample_id (CHR ''a'') @ ''--'' @ sample_id (CHR ''b'') @ ''.json''"
    by (simp add: taskPath_def)
  then show ?thesis
    using task_file_names_round_trip [OF sample_uuids_regular sample_normal sample_normal,
        of "CHR ''a''" "CHR ''b''"] by (simp add: is_hex_char_def del: append_Cons)
qed

lemma survives_witness:
  "(\<exists>r'. tasks (fold (run_call sample_formats sample_digest)
      [(open_config, calm_store, Apply_Event (tr_peerId sample_task) (tr_taskId sample_task) (AgentStartRequested sample_time)),
       (open_config, calm_store, Create_Task sample_task)] (one_task_disk sample_task)) (key_of sample_task) = Some r'
     \<and> evolved sample_task r')
   \<and> uniq (fold (run_call sample_formats sample_digest) [(open_config, calm_store, List_Tasks)] (one_task_disk sample_task))"
proof -
  note one = one_task_store [OF sample_uuids_regular sample_task_valid]
  have "list_all (call_ok sample_formats sample_digest) (calls_of [(open_config, calm_store, List_Tasks)])"
    by (simp add: calls_of_def)
  then show ?thesis
    using store_survives_faults [OF sample_uuids_regular one(1) refl, of sample_digest] one(2) one_task_uniq
    by blast
qed

text \<open>
  C32. In a quiet environment (readable files, successful writes, the ownership lock held, a clock
  that parses) an event whose guard holds is applied: \<open>transitionOwned\<close> returns a record, stored
  under its key, which is the abstract successor of the task.
\<close>
theorem enabled_transition_succeeds:
  assumes "uuids_regular fmt" "datetimes_parse fmt" "store_ok fmt d" "event_ok fmt e"
    and "opt_all (fmt_uuid fmt) (sc_migrationDeviceId cfg)"
    and "quiet_read cfg (se_get env)" "quiet_save cfg (se_save env)"
    and "normal_uuid fmt p" "normal_uuid fmt t" "tasks d (p, t) = Some r" "guard_of e r"
  shows "\<exists>x d'. transitionOwned fmt cfg env p t e d = (Inr x, d') \<and> tasks d' = (tasks d)((p, t) \<mapsto> x)
    \<and> core x = spec_step e (core r)"
  using quiet_transition [OF assms] by (simp add: refined_def)

lemma sample_step_ok:
  "event_ok sample_formats (AgentStartRequested sample_time)" "guard_of (AgentStartRequested sample_time) sample_task"
  "normal_uuid sample_formats (tr_peerId sample_task)" "normal_uuid sample_formats (tr_taskId sample_task)"
  by (simp_all add: event_ok_def) (simp_all add: sample_task_def sample_normal)

lemma enabled_witness:
  "\<exists>x d'. transitionOwned sample_formats open_config calm_store (tr_peerId sample_task) (tr_taskId sample_task)
      (AgentStartRequested sample_time) (one_task_disk sample_task) = (Inr x, d')
    \<and> tr_state x = StartingAgent"
proof -
  note one = one_task_store [OF sample_uuids_regular sample_task_valid]
  from enabled_transition_succeeds [OF sample_uuids_regular sample_datetimes_parse one(1) sample_step_ok(1)
      _ _ _ sample_step_ok(3,4) one(2) [unfolded key_of_def] sample_step_ok(2), of open_config calm_store]
  obtain x d' where "transitionOwned sample_formats open_config calm_store (tr_peerId sample_task)
      (tr_taskId sample_task) (AgentStartRequested sample_time) (one_task_disk sample_task) = (Inr x, d')"
    "core x = spec_step (AgentStartRequested sample_time) (core sample_task)"
    using calm_quiet by (auto simp: quiet_env_def open_config_def opt_all_def)
  moreover from this(2) have "tr_state (core x) = StartingAgent"
    using sample_step_ok(2) by (simp add: spec_step_def)
  then have "tr_state x = StartingAgent" by (simp only: core_simps)
  ultimately show ?thesis by blast
qed


lemma refines_witness:
  "\<exists>res d' x. transitionOwned sample_formats open_config calm_store (tr_peerId sample_task)
      (tr_taskId sample_task) (AgentStartRequested sample_time) (one_task_disk sample_task) = (res, d')
    \<and> tasks d' (key_of sample_task) = Some x"
proof -
  note one = one_task_store [OF sample_uuids_regular sample_task_valid]
  obtain res d' where t: "transitionOwned sample_formats open_config calm_store (tr_peerId sample_task)
      (tr_taskId sample_task) (AgentStartRequested sample_time) (one_task_disk sample_task) = (res, d')"
    by fastforce
  have "(js_lower (tr_peerId sample_task), js_lower (tr_taskId sample_task)) = key_of sample_task"
    using sample_step_ok(3,4) by (simp add: normal_uuid_def key_of_def)
  with transition_refines_specification [OF sample_uuids_regular sample_step_ok(1) one(1) _ t] one(2) t
  show ?thesis by auto
qed

lemma at_most_once_witness:
  "\<exists>r v d1 w d3. createRoutedIdempotent sample_formats sample_digest open_config calm_store sourced_routed r
      empty_disk = (Inr (v, True), d1)
    \<and> createRoutedIdempotent sample_formats sample_digest open_config calm_store sourced_routed r d1
      = (Inr (w, False), d3) \<and> key_of w = key_of v"
proof -
  obtain r where r: "createAcceptedRoutedTask sample_formats sample_digest sourced_routed sample_time = Inr r"
    using sourced_routed_created by blast
  then have rec: "record_for_routed sample_formats sample_digest sourced_routed r"
    unfolding record_for_routed_def using same_identity_refl by blast
  from sourced_start [OF r] obtain v d1 where first: "createRoutedIdempotent sample_formats sample_digest
      open_config calm_store sourced_routed r empty_disk = (Inr (v, True), d1)" by blast
  have left: "start_result sample_formats empty_disk r (v, True) d1"
    using triple_Inr [OF createRoutedIdempotent_started [OF sample_uuids_regular empty_store(2) rec] _ first]
      empty_store(1) by simp
  then have "store_ok sample_formats d1" "saved sample_formats r v" "tasks d1 (key_of v) = Some v"
    by (simp_all add: start_result_def started_def)
  moreover obtain n where n: "normalizeOwnedRoutedTaskStart sample_formats sourced_routed = Inr n"
    "tr_peerId r = or_peerId n" "tr_taskId r = rs_taskId (or_params n)"
    by (rule routed_ids [OF sample_uuids_regular rec])
  ultimately have v: "tasks d1 (or_peerId sourced_routed, rs_taskId (or_params sourced_routed)) = Some v"
    using saved_identity [OF sample_uuids_regular rec] sourced_routed_normal
    by (simp add: same_identity_def key_of_def)
  from quiet_list [OF sample_uuids_regular sample_datetimes_parse calm_quiet \<open>store_ok sample_formats d1\<close>]
  obtain rs d3 where look: "listUnlocked sample_formats open_config calm_store d1 = (Inr rs, d3)"
    by (auto simp: open_config_def opt_all_def)
  have src: "rs_sourceWorkspaceIdentity (or_params sourced_routed) \<noteq> None"
    by (simp add: sourced_routed_def)
  have "list_all (call_ok sample_formats sample_digest) (calls_of [])" by (simp add: calls_of_def)
  from routed_start_at_most_once [OF sample_uuids_regular empty_store(1,2) rec sourced_routed_normal first _ v
      this _ look, of r] src
  obtain w where "createRoutedIdempotent sample_formats sample_digest open_config calm_store sourced_routed r d1
      = (Inr (w, False), d3)" "evolved v w"
    by (auto simp: empty_store(3))
  with first show ?thesis unfolding evolved_def by blast
qed

lemma fenced_witness:
  "run_call sample_formats sample_digest
     (open_config\<lparr>sc_fenced := True\<rparr>, calm_store, Apply_Event (tr_peerId sample_task) (tr_taskId sample_task) (AgentStartRequested sample_time))
     (one_task_disk sample_task) = one_task_disk sample_task"
  by (rule fenced_store_is_read_only)
    (simp add: env_shut_out_def shut_out_def assertWritable_def open_config_def)

end
