(* ===== verification/Workspace_Leases.thy ===== *)
theory Workspace_Leases
  imports Task_Requests
begin

text \<open>
  Exclusive use of a workspace by one active task (\<open>src/tasks/WorkspaceLeaseManager.ts\<close>): the
  in-memory table of leases, its operations, and its reconstruction from the stored records at
  start-up.
\<close>

section \<open>The lease contract\<close>

text \<open>
  What a client of any lease table relies on: a lease is refused while somebody else holds it,
  granting and releasing touch one key, and only the holder's release frees it. Owners are
  compared after normalisation (\<open>norm\<close>). An operation is a key with \<open>Inl q\<close>, take the lease
  for \<open>q\<close>, or \<open>Inr q\<close>, give it up for \<open>q\<close>.
\<close>

locale lease_table =
  fixes holder :: "'l \<Rightarrow> 'k \<Rightarrow> 'o option"
    and norm :: "'o \<Rightarrow> 'o"
    and take_lease :: "'k \<Rightarrow> 'o \<Rightarrow> 'l \<Rightarrow> 'l option"
    and drop_lease :: "'k \<Rightarrow> 'o \<Rightarrow> 'l \<Rightarrow> 'l"
  assumes take_refused: "holder l k = Some p \<Longrightarrow> p \<noteq> norm q \<Longrightarrow> take_lease k q l = None"
    and take_holder: "take_lease k q l = Some l' \<Longrightarrow> holder l' = (holder l)(k \<mapsto> norm q)"
    and drop_holder: "holder (drop_lease k q l) = holder l
      \<or> holder l k = Some (norm q) \<and> holder (drop_lease k q l) = (holder l)(k := None)"
begin

definition act :: "'k \<times> ('o + 'o) \<Rightarrow> 'l \<Rightarrow> 'l" where
  "act op l = (case snd op of
     Inl q \<Rightarrow> (case take_lease (fst op) q l of None \<Rightarrow> l | Some l' \<Rightarrow> l')
   | Inr q \<Rightarrow> drop_lease (fst op) q l)"

lemma act_keeps:
  assumes "holder l k = Some p" "\<forall>q. op = (k, Inr q) \<longrightarrow> norm q \<noteq> p"
  shows "holder (act op l) k = Some p"
proof -
  obtain j a where op: "op = (j, a)" by (cases op)
  show ?thesis
  proof (cases a)
    case (Inl q)
    show ?thesis
    proof (cases "take_lease j q l")
      case (Some l')
      have "j = k \<Longrightarrow> norm q = p"
        using Some assms(1) take_refused [of l k p q] by (cases "p = norm q") simp_all
      with Some assms(1) take_holder [OF Some] show ?thesis
        by (auto simp: act_def op Inl)
    qed (use assms in \<open>simp add: act_def op Inl\<close>)
  next
    case (Inr q)
    with assms drop_holder [of j q l] show ?thesis by (auto simp: act_def op)
  qed
qed

lemma lease_exclusive:
  assumes "holder l k = Some p" "\<forall>q. (k, Inr q) \<in> set ops \<longrightarrow> norm q \<noteq> p"
  shows "holder (fold act ops l) k = Some p \<and> (p \<noteq> norm q \<longrightarrow> take_lease k q (fold act ops l) = None)"
proof -
  have *: "holder (fold act ops l) k = Some p"
    using assms
  proof (induction ops arbitrary: l)
    case (Cons op ops)
    then have "holder (act op l) k = Some p" by (intro act_keeps) auto
    with Cons show ?case by simp
  qed simp
  with take_refused show ?thesis by blast
qed

end

section \<open>The lease manager\<close>

record lease_owner =
  lo_peerId :: string
  lo_taskId :: string

type_synonym leases = "(string, lease_owner) jsmap"

definition sameOwner :: "lease_owner \<Rightarrow> lease_owner \<Rightarrow> bool" where
  "sameOwner left right \<longleftrightarrow> lo_peerId left = lo_peerId right \<and> lo_taskId left = lo_taskId right"

definition normalizeLeaseIdentity ::
  "formats \<Rightarrow> string \<Rightarrow> string \<Rightarrow> string \<Rightarrow> (mesh_error, lease_owner) result" where
  "normalizeLeaseIdentity fmt workspaceId peerId taskId =
     (if \<not> lease_key_ok workspaceId then Inl Type_Error
      else case (uuidSchema fmt peerId, uuidSchema fmt taskId) of
        (Some p, Some t) \<Rightarrow> Inr \<lparr>lo_peerId = p, lo_taskId = t\<rparr>
      | _ \<Rightarrow> Inl Type_Error)"

definition acquire ::
  "formats \<Rightarrow> string \<Rightarrow> string \<Rightarrow> string \<Rightarrow> leases \<Rightarrow> (mesh_error, leases) result" where
  "acquire fmt workspaceId peerId taskId leases =
     bindR (normalizeLeaseIdentity fmt workspaceId peerId taskId) (\<lambda>requestedOwner.
       case js_get leases workspaceId of
         Some owner \<Rightarrow>
           if \<not> sameOwner owner requestedOwner then Inl (mesh_fail WORKSPACE_BUSY)
           else Inr (js_set workspaceId requestedOwner leases)
       | None \<Rightarrow> Inr (js_set workspaceId requestedOwner leases))"

definition release ::
  "formats \<Rightarrow> string \<Rightarrow> string \<Rightarrow> string \<Rightarrow> leases \<Rightarrow> (mesh_error, leases) result" where
  "release fmt workspaceId peerId taskId leases =
     bindR (normalizeLeaseIdentity fmt workspaceId peerId taskId) (\<lambda>identity.
       case js_get leases workspaceId of
         Some owner \<Rightarrow>
           if sameOwner owner identity then Inr (js_delete workspaceId leases) else Inr leases
       | None \<Rightarrow> Inr leases)"

definition releaseForPersistedTerminal ::
  "formats \<Rightarrow> task_record \<Rightarrow> leases \<Rightarrow> (mesh_error, leases) result" where
  "releaseForPersistedTerminal fmt r leases =
     (if is_active (tr_state r) then Inl Plain_Error
      else release fmt (tr_workspaceLeaseKey r) (tr_peerId r) (tr_taskId r) leases)"

definition isLeased :: "leases \<Rightarrow> string \<Rightarrow> bool" where
  "isLeased leases workspaceId \<longleftrightarrow> js_get leases workspaceId \<noteq> None"

definition lease_owner_of :: "leases \<Rightarrow> string \<Rightarrow> lease_owner option" where
  "lease_owner_of leases workspaceId = js_get leases workspaceId"

fun restore_loop ::
  "formats \<Rightarrow> leases \<Rightarrow> task_record list \<Rightarrow> (mesh_error, leases) result" where
  "restore_loop fmt restored [] = Inr restored"
| "restore_loop fmt restored (r # rs) =
     (if \<not> is_active (tr_state r) then restore_loop fmt restored rs
      else bindR (normalizeLeaseIdentity fmt (tr_workspaceLeaseKey r) (tr_peerId r) (tr_taskId r))
        (\<lambda>recordOwner.
           case js_get restored (tr_workspaceLeaseKey r) of
             Some owner \<Rightarrow>
               if \<not> sameOwner owner recordOwner then Inl Plain_Error
               else restore_loop fmt (js_set (tr_workspaceLeaseKey r) recordOwner restored) rs
           | None \<Rightarrow> restore_loop fmt (js_set (tr_workspaceLeaseKey r) recordOwner restored) rs))"

definition restoreFromTaskRecords ::
  "formats \<Rightarrow> task_record list \<Rightarrow> leases \<Rightarrow> (mesh_error, leases) result" where
  "restoreFromTaskRecords fmt records leases =
     bindR (restore_loop fmt [] records) (\<lambda>restored.
       Inr (fold (\<lambda>(workspaceId, owner). js_set workspaceId owner) restored []))"

section \<open>The contract holds\<close>

lemma sameOwner_iff: "sameOwner a b \<longleftrightarrow> a = b"
  by (cases a; cases b) (auto simp: sameOwner_def)

lemma normalizeLease_Inr:
  "normalizeLeaseIdentity fmt w p t = Inr x \<longleftrightarrow>
     lease_key_ok w \<and> fmt_uuid fmt p \<and> fmt_uuid fmt t
     \<and> x = \<lparr>lo_peerId = js_lower p, lo_taskId = js_lower t\<rparr>"
  by (auto simp: normalizeLeaseIdentity_def uuidSchema_def split: option.splits)

text \<open>The operations seen through the contract: an owner is the pair of identifiers as sent.\<close>

definition take_for :: "formats \<Rightarrow> string \<Rightarrow> lease_owner \<Rightarrow> leases \<Rightarrow> leases option" where
  "take_for fmt w q l =
     (case acquire fmt w (lo_peerId q) (lo_taskId q) l of Inl _ \<Rightarrow> None | Inr l' \<Rightarrow> Some l')"

definition drop_for :: "formats \<Rightarrow> string \<Rightarrow> lease_owner \<Rightarrow> leases \<Rightarrow> leases" where
  "drop_for fmt w q l =
     (case release fmt w (lo_peerId q) (lo_taskId q) l of Inl _ \<Rightarrow> l | Inr l' \<Rightarrow> l')"


definition norm_owner :: "lease_owner \<Rightarrow> lease_owner" where
  "norm_owner q = \<lparr>lo_peerId = js_lower (lo_peerId q), lo_taskId = js_lower (lo_taskId q)\<rparr>"

lemma take_for_Some:
  "take_for fmt w q l = Some l' \<longleftrightarrow>
     lease_key_ok w \<and> fmt_uuid fmt (lo_peerId q) \<and> fmt_uuid fmt (lo_taskId q)
     \<and> js_get l w \<in> {None, Some (norm_owner q)} \<and> l' = js_set w (norm_owner q) l"
proof (cases "normalizeLeaseIdentity fmt w (lo_peerId q) (lo_taskId q)")
  case (Inl e)
  then have "\<not> (lease_key_ok w \<and> fmt_uuid fmt (lo_peerId q) \<and> fmt_uuid fmt (lo_taskId q))"
    by (metis normalizeLease_Inr sum.distinct(1))
  with Inl show ?thesis by (auto simp: take_for_def acquire_def)
next
  case (Inr x)
  from Inr [unfolded normalizeLease_Inr] have ok: "lease_key_ok w" "fmt_uuid fmt (lo_peerId q)"
    "fmt_uuid fmt (lo_taskId q)" "x = norm_owner q" by (simp_all add: norm_owner_def)
  show ?thesis
    by (auto simp: take_for_def acquire_def Inr ok sameOwner_iff split: option.splits)
qed

interpretation lease_manager: lease_table lease_owner_of norm_owner "take_for fmt" "drop_for fmt"
proof
  fix l k p q l'
  show "lease_owner_of l k = Some p \<Longrightarrow> p \<noteq> norm_owner q \<Longrightarrow> take_for fmt k q l = None"
    using take_for_Some [of fmt k q l] by (cases "take_for fmt k q l") (auto simp: lease_owner_of_def)
  show "take_for fmt k q l = Some l' \<Longrightarrow> lease_owner_of l' = (lease_owner_of l)(k \<mapsto> norm_owner q)"
    by (auto simp: take_for_Some lease_owner_of_def fun_eq_iff js_map)
  show "lease_owner_of (drop_for fmt k q l) = lease_owner_of l
    \<or> lease_owner_of l k = Some (norm_owner q)
      \<and> lease_owner_of (drop_for fmt k q l) = (lease_owner_of l)(k := None)"
  proof (cases "normalizeLeaseIdentity fmt k (lo_peerId q) (lo_taskId q)")
    case (Inr x)
    then have "x = norm_owner q" by (simp add: normalizeLease_Inr norm_owner_def)
    with Inr show ?thesis
      by (auto simp: drop_for_def release_def sameOwner_iff lease_owner_of_def fun_eq_iff js_map
          split: option.splits)
  qed (simp add: drop_for_def release_def)
qed

section \<open>Operations\<close>

datatype lease_op =
    Acquire_Lease string string string
  | Release_Lease string string string
  | Terminal_Release task_record

fun apply_lease_op :: "formats \<Rightarrow> lease_op \<Rightarrow> leases \<Rightarrow> leases" where
  "apply_lease_op fmt (Acquire_Lease w p t) l = (case acquire fmt w p t l of Inl _ \<Rightarrow> l | Inr l' \<Rightarrow> l')"
| "apply_lease_op fmt (Release_Lease w p t) l = (case release fmt w p t l of Inl _ \<Rightarrow> l | Inr l' \<Rightarrow> l')"
| "apply_lease_op fmt (Terminal_Release r) l =
     (case releaseForPersistedTerminal fmt r l of Inl _ \<Rightarrow> l | Inr l' \<Rightarrow> l')"

text \<open>An operation that gives up the lease on \<open>w\<close> for the owner \<open>o\<close>.\<close>

fun gives_up :: "string \<Rightarrow> lease_owner \<Rightarrow> lease_op \<Rightarrow> bool" where
  "gives_up w q (Acquire_Lease _ _ _) = False"
| "gives_up w q (Release_Lease v p t) = (v = w \<and> norm_owner \<lparr>lo_peerId = p, lo_taskId = t\<rparr> = q)"
| "gives_up w q (Terminal_Release r) =
     (tr_workspaceLeaseKey r = w \<and> is_terminal (tr_state r)
      \<and> norm_owner \<lparr>lo_peerId = tr_peerId r, lo_taskId = tr_taskId r\<rparr> = q)"

fun contract_op :: "lease_op \<Rightarrow> (string \<times> (lease_owner + lease_owner)) list" where
  "contract_op (Acquire_Lease w p t) = [(w, Inl \<lparr>lo_peerId = p, lo_taskId = t\<rparr>)]"
| "contract_op (Release_Lease w p t) = [(w, Inr \<lparr>lo_peerId = p, lo_taskId = t\<rparr>)]"
| "contract_op (Terminal_Release r) =
     (if is_active (tr_state r) then []
      else [(tr_workspaceLeaseKey r, Inr \<lparr>lo_peerId = tr_peerId r, lo_taskId = tr_taskId r\<rparr>)])"

lemma apply_lease_op_contract: "apply_lease_op fmt op l = fold (lease_manager.act fmt) (contract_op op) l"
  by (cases op) (auto simp: lease_manager.act_def take_for_def drop_for_def
      releaseForPersistedTerminal_def split: sum.splits)

lemma run_lease_contract:
  "fold (apply_lease_op fmt) ops l = fold (lease_manager.act fmt) (concat (map contract_op ops)) l"
  by (induction ops arbitrary: l) (simp_all add: apply_lease_op_contract)

lemma contract_gives_up:
  "(w, Inr q) \<in> set (contract_op op) \<Longrightarrow> gives_up w (norm_owner q) op"
  by (cases op) (auto simp: active_iff_not_terminal split: if_splits)

section \<open>Properties\<close>

text \<open>
  C15. A workspace has one user at a time: while a task holds the lease on a workspace, no
  sequence of acquisitions and releases by other tasks, in any order, takes it away, and every
  attempt of another task to acquire it fails with \<open>WORKSPACE_BUSY\<close>.
\<close>
theorem lease_is_exclusive:
  assumes "js_get l w = Some q" and "\<forall>op \<in> set ops. \<not> gives_up w q op"
    and "lease_key_ok w" "fmt_uuid fmt p" "fmt_uuid fmt t"
    and "norm_owner \<lparr>lo_peerId = p, lo_taskId = t\<rparr> \<noteq> q"
  shows "js_get (fold (apply_lease_op fmt) ops l) w = Some q
    \<and> acquire fmt w p t (fold (apply_lease_op fmt) ops l) = Inl (mesh_fail WORKSPACE_BUSY)"
proof -
  have "\<forall>x. (w, Inr x) \<in> set (concat (map contract_op ops)) \<longrightarrow> norm_owner x \<noteq> q"
    using assms(2) contract_gives_up by fastforce
  from lease_manager.lease_exclusive [of l w q, OF _ this, of fmt] assms(1)
  have held: "js_get (fold (apply_lease_op fmt) ops l) w = Some q"
    by (simp add: lease_owner_of_def run_lease_contract)
  have "normalizeLeaseIdentity fmt w p t = Inr (norm_owner \<lparr>lo_peerId = p, lo_taskId = t\<rparr>)"
    using assms(3-5) by (simp add: normalizeLease_Inr norm_owner_def)
  with held assms(6) show ?thesis by (simp add: acquire_def sameOwner_iff)
qed

lemma lease_exclusive_witness:
  "acquire sample_formats ''w'' (sample_id (CHR ''c'')) (sample_id (CHR ''d''))
     (fold (apply_lease_op sample_formats)
        [Release_Lease ''w'' (sample_id (CHR ''c'')) (sample_id (CHR ''d''))]
        [(''w'', \<lparr>lo_peerId = sample_id (CHR ''a''), lo_taskId = sample_id (CHR ''b'')\<rparr>)])
   = Inl (mesh_fail WORKSPACE_BUSY)"
  using lease_is_exclusive [of "[(''w'', \<lparr>lo_peerId = sample_id (CHR ''a''), lo_taskId = sample_id (CHR ''b'')\<rparr>)]"
      "''w''" "\<lparr>lo_peerId = sample_id (CHR ''a''), lo_taskId = sample_id (CHR ''b'')\<rparr>"
      "[Release_Lease ''w'' (sample_id (CHR ''c'')) (sample_id (CHR ''d''))]" sample_formats
      "sample_id (CHR ''c'')" "sample_id (CHR ''d'')"]
  by (simp add: norm_owner_def lease_key_ok_def)

section \<open>Start-up\<close>

definition record_owner :: "task_record \<Rightarrow> lease_owner" where
  "record_owner r = \<lparr>lo_peerId = tr_peerId r, lo_taskId = tr_taskId r\<rparr>"

lemma record_owner_normal:
  "record_valid fmt r \<Longrightarrow>
   normalizeLeaseIdentity fmt (tr_workspaceLeaseKey r) (tr_peerId r) (tr_taskId r) = Inr (record_owner r)"
  by (simp add: normalizeLease_Inr record_valid_split record_owner_def lease_key_utf8)

lemma fold_js_set_copy:
  "distinct (map fst (acc @ m)) \<Longrightarrow> fold (\<lambda>(k, v). js_set k v) m acc = acc @ m"
proof (induction m arbitrary: acc)
  case (Cons p m)
  obtain k v where p: "p = (k, v)" by (cases p)
  have "js_set k v acc = acc @ [(k, v)]"
    using Cons.prems by (intro js_set_fresh) (auto simp: p)
  with Cons.IH [of "acc @ [(k, v)]"] Cons.prems show ?case by (simp add: p)
qed simp

text \<open>Two active records of different tasks that claim one workspace.\<close>

definition active_clash :: "task_record list \<Rightarrow> bool" where
  "active_clash records \<longleftrightarrow>
     (\<exists>r \<in> set records. \<exists>s \<in> set records. is_active (tr_state r) \<and> is_active (tr_state s)
        \<and> tr_workspaceLeaseKey r = tr_workspaceLeaseKey s \<and> record_owner r \<noteq> record_owner s)"

definition table_clash :: "leases \<Rightarrow> task_record list \<Rightarrow> bool" where
  "table_clash m records \<longleftrightarrow>
     (\<exists>r \<in> set records. is_active (tr_state r)
        \<and> js_get m (tr_workspaceLeaseKey r) \<notin> {None, Some (record_owner r)})"

definition active_owner :: "task_record list \<Rightarrow> string \<Rightarrow> lease_owner option" where
  "active_owner records w =
     map_option record_owner (find (\<lambda>r. is_active (tr_state r) \<and> tr_workspaceLeaseKey r = w) records)"

lemma ex_pair_insert:
  "(\<And>x y. P x y \<Longrightarrow> P y x) \<Longrightarrow> (\<And>x. \<not> P x x) \<Longrightarrow>
   (\<exists>x \<in> insert a A. \<exists>y \<in> insert a A. P x y) \<longleftrightarrow> (\<exists>x \<in> A. \<exists>y \<in> A. P x y) \<or> (\<exists>y \<in> A. P y a)"
  by blast

lemma clash_Cons:
  assumes "is_active (tr_state r)"
  shows "active_clash (r # rs) \<or> table_clash m (r # rs) \<longleftrightarrow>
    js_get m (tr_workspaceLeaseKey r) \<notin> {None, Some (record_owner r)}
    \<or> active_clash rs \<or> table_clash (js_set (tr_workspaceLeaseKey r) (record_owner r) m) rs"
proof -
  have A: "active_clash (r # rs) \<longleftrightarrow> active_clash rs \<or> (\<exists>s \<in> set rs. is_active (tr_state s)
      \<and> tr_workspaceLeaseKey s = tr_workspaceLeaseKey r \<and> record_owner s \<noteq> record_owner r)"
  proof -
    let ?P = "\<lambda>x y. is_active (tr_state x) \<and> is_active (tr_state y)
      \<and> tr_workspaceLeaseKey x = tr_workspaceLeaseKey y \<and> record_owner x \<noteq> record_owner y"
    have "(\<exists>x \<in> insert r (set rs). \<exists>y \<in> insert r (set rs). ?P x y) \<longleftrightarrow>
        (\<exists>x \<in> set rs. \<exists>y \<in> set rs. ?P x y) \<or> (\<exists>y \<in> set rs. ?P y r)"
      by (rule ex_pair_insert) auto
    then show ?thesis using assms unfolding active_clash_def list.set(2) by meson
  qed
  have T: "table_clash m (r # rs) \<longleftrightarrow>
      js_get m (tr_workspaceLeaseKey r) \<notin> {None, Some (record_owner r)} \<or> table_clash m rs"
    using assms by (simp add: table_clash_def)
  have S: "table_clash (js_set (tr_workspaceLeaseKey r) (record_owner r) m) rs \<longleftrightarrow>
    (\<exists>s \<in> set rs. is_active (tr_state s) \<and>
      (if tr_workspaceLeaseKey s = tr_workspaceLeaseKey r then record_owner s \<noteq> record_owner r
       else js_get m (tr_workspaceLeaseKey s) \<notin> {None, Some (record_owner s)}))"
    by (auto simp: table_clash_def js_map)
  show ?thesis
  proof (cases "js_get m (tr_workspaceLeaseKey r) \<in> {None, Some (record_owner r)}")
    case True
    have "table_clash m rs \<Longrightarrow> (\<exists>s \<in> set rs. is_active (tr_state s)
        \<and> tr_workspaceLeaseKey s = tr_workspaceLeaseKey r \<and> record_owner s \<noteq> record_owner r)
      \<or> table_clash (js_set (tr_workspaceLeaseKey r) (record_owner r) m) rs"
      using True unfolding S unfolding table_clash_def by (auto split: if_splits)
    moreover have "table_clash (js_set (tr_workspaceLeaseKey r) (record_owner r) m) rs \<Longrightarrow>
      table_clash m rs \<or> (\<exists>s \<in> set rs. is_active (tr_state s)
        \<and> tr_workspaceLeaseKey s = tr_workspaceLeaseKey r \<and> record_owner s \<noteq> record_owner r)"
      unfolding S unfolding table_clash_def by (auto split: if_splits)
    moreover have "(\<exists>s \<in> set rs. is_active (tr_state s)
        \<and> tr_workspaceLeaseKey s = tr_workspaceLeaseKey r \<and> record_owner s \<noteq> record_owner r) \<Longrightarrow>
      table_clash (js_set (tr_workspaceLeaseKey r) (record_owner r) m) rs"
      unfolding S by auto
    ultimately show ?thesis unfolding A T using True by blast
  next
    case False
    then show ?thesis unfolding T by blast
  qed
qed

lemma clash_skip:
  "\<not> is_active (tr_state r) \<Longrightarrow> active_clash (r # rs) = active_clash rs"
  "\<not> is_active (tr_state r) \<Longrightarrow> table_clash m (r # rs) = table_clash m rs"
  by (auto simp: active_clash_def table_clash_def)

lemma restore_loop_spec:
  assumes "list_all (record_valid fmt) rs" "js_wf m"
  shows "(active_clash rs \<or> table_clash m rs \<longrightarrow> restore_loop fmt m rs = Inl Plain_Error)
    \<and> (\<not> active_clash rs \<longrightarrow> \<not> table_clash m rs \<longrightarrow>
        (\<exists>m'. restore_loop fmt m rs = Inr m' \<and> js_wf m'
          \<and> (\<forall>w. js_get m' w = (case js_get m w of Some q \<Rightarrow> Some q | None \<Rightarrow> active_owner rs w))))"
  using assms
proof (induction rs arbitrary: m)
  case Nil
  then show ?case
    by (auto simp: active_clash_def table_clash_def active_owner_def split: option.splits)
next
  case (Cons r rs)
  show ?case
  proof (cases "is_active (tr_state r)")
    case False
    then have "restore_loop fmt m (r # rs) = restore_loop fmt m rs"
      "active_owner (r # rs) w = active_owner rs w" for w
      by (simp_all add: active_owner_def)
    with False Cons.IH [of m] Cons.prems show ?thesis
      by (simp only: clash_skip [OF False]) (simp add: list_all_iff)
  next
    case act: True
    let ?k = "tr_workspaceLeaseKey r"
    let ?m = "js_set ?k (record_owner r) m"
    from Cons.prems have n: "normalizeLeaseIdentity fmt ?k (tr_peerId r) (tr_taskId r) = Inr (record_owner r)"
      and prems: "list_all (record_valid fmt) rs" "js_wf ?m"
      by (simp_all add: record_owner_normal js_map)
    show ?thesis
    proof (cases "js_get m ?k \<in> {None, Some (record_owner r)}")
      case False
      then have "restore_loop fmt m (r # rs) = Inl Plain_Error"
        using act n by (auto simp: sameOwner_iff)
      with False clash_Cons [OF act, of rs m] show ?thesis by blast
    next
      case True
      then have step: "restore_loop fmt m (r # rs) = restore_loop fmt ?m rs"
        using act n by (auto simp: sameOwner_iff)
      have own: "(case js_get ?m w of Some q \<Rightarrow> Some q | None \<Rightarrow> active_owner rs w)
        = (case js_get m w of Some q \<Rightarrow> Some q | None \<Rightarrow> active_owner (r # rs) w)" for w
        using True act by (auto simp: js_map active_owner_def split: option.splits)
      show ?thesis
        using Cons.IH [OF prems] clash_Cons [OF act, of rs m] True
        unfolding step own by blast
    qed
  qed
qed

text \<open>
  C28. Start-up rebuilds the lease table from the stored records: if two active records of
  different tasks claim the same workspace it refuses to start, leaving the table as it was, and
  otherwise the table holds exactly the workspaces of the active records, each for its task.
\<close>
theorem restore_rebuilds_leases:
  assumes "list_all (record_valid fmt) records"
  shows "if active_clash records then restoreFromTaskRecords fmt records l = Inl Plain_Error
    else \<exists>l'. restoreFromTaskRecords fmt records l = Inr l'
      \<and> (\<forall>w. js_get l' w = active_owner records w)"
proof -
  have "js_wf []" "\<not> table_clash [] records" by (simp_all add: js_map table_clash_def)
  with restore_loop_spec [OF assms, of "[]"] show ?thesis
    by (auto simp: restoreFromTaskRecords_def fold_js_set_copy js_wf_def)
qed

lemma restore_witness:
  "if active_clash [sample_task] then restoreFromTaskRecords sample_formats [sample_task] [] = Inl Plain_Error
   else \<exists>l'. restoreFromTaskRecords sample_formats [sample_task] [] = Inr l'
      \<and> (\<forall>w. js_get l' w = active_owner [sample_task] w)"
  by (rule restore_rebuilds_leases) (simp add: sample_task_valid)

end
