(* ===== verification/Node_Protocol.thy ===== *)
theory Node_Protocol
  imports Task_Protocol "HOL-Library.Multiset"
begin

text \<open>
  The messages between a window node and the device broker (\<open>shared/protocol/nodes.ts\<close>): node
  and workspace descriptors with the schemas the registry parses its inputs and its directory
  with, and the size of a serialised result. As in the task protocol, a record is the shape the
  schema demands and a \<open>Schema\<close> function is \<open>safeParse\<close>.
\<close>

section \<open>Descriptors\<close>

definition nodeListCount :: nat where "nodeListCount = 128"
definition workspaceListCount :: nat where "workspaceListCount = 32"

datatype node_status = Node_Online | Node_Busy | Node_Offline | Node_Conflict | Node_Draining

fun node_status_name :: "node_status \<Rightarrow> string" where
  "node_status_name Node_Online = ''online''"
| "node_status_name Node_Busy = ''busy''"
| "node_status_name Node_Offline = ''offline''"
| "node_status_name Node_Conflict = ''conflict''"
| "node_status_name Node_Draining = ''draining''"

datatype claim_status = Claimed | Read_Only | Claim_Conflict

fun claim_status_name :: "claim_status \<Rightarrow> string" where
  "claim_status_name Claimed = ''claimed''"
| "claim_status_name Read_Only = ''readOnly''"
| "claim_status_name Claim_Conflict = ''conflict''"

record workspace_summary =
  ws_workspaceId :: string
  ws_workspaceIdentity :: string
  ws_name :: string
  ws_capabilityTags :: "string list"
  ws_enabled :: bool
  ws_busy :: bool
  ws_acceptsIncoming :: bool
  ws_claimStatus :: claim_status
  ws_activeTaskId :: "string option"

record node_descriptor =
  wd_nodeId :: string
  wd_nodeInstanceId :: string
  wd_label :: string
  wd_status :: node_status
  wd_capabilities :: "string list"
  wd_startedAt :: string
  wd_lastHeartbeatAt :: string
  wd_workspaces :: "workspace_summary list"

record node_directory =
  nr_deviceId :: string
  nr_nodes :: "node_descriptor list"
  nr_truncated :: bool
  nr_totalNodes :: nat

definition capability_tags_ok :: "string list \<Rightarrow> bool" where
  "capability_tags_ok tags \<longleftrightarrow> length tags \<le> 32 \<and> list_all (utf8String 64 1) tags"

definition node_capabilities_ok :: "string list \<Rightarrow> bool" where
  "node_capabilities_ok tags \<longleftrightarrow> length tags \<le> 32 \<and> list_all (utf8String 128 1) tags"

definition nodeWorkspaceSummarySchema :: "formats \<Rightarrow> workspace_summary \<Rightarrow> workspace_summary option" where
  "nodeWorkspaceSummarySchema fmt w =
     (if fmt_uuid fmt (ws_workspaceId w) \<and> workspaceIdentitySchema (ws_workspaceIdentity w)
         \<and> utf8String 256 1 (ws_name w) \<and> capability_tags_ok (ws_capabilityTags w)
         \<and> opt_all (fmt_uuid fmt) (ws_activeTaskId w)
      then Some (w\<lparr>ws_workspaceId := js_lower (ws_workspaceId w),
                   ws_activeTaskId := map_option js_lower (ws_activeTaskId w)\<rparr>)
      else None)"

text \<open>\<open>z.array\<close> of a schema: every element parses, or the whole parse fails.\<close>

fun parse_all :: "('a \<Rightarrow> 'b option) \<Rightarrow> 'a list \<Rightarrow> 'b list option" where
  "parse_all p [] = Some []"
| "parse_all p (x # xs) =
     (case p x of
        None \<Rightarrow> None
      | Some y \<Rightarrow> (case parse_all p xs of None \<Rightarrow> None | Some ys \<Rightarrow> Some (y # ys)))"

definition windowNodeDescriptorSchema :: "formats \<Rightarrow> node_descriptor \<Rightarrow> node_descriptor option" where
  "windowNodeDescriptorSchema fmt n =
     (if fmt_uuid fmt (wd_nodeId n) \<and> fmt_uuid fmt (wd_nodeInstanceId n)
         \<and> utf8String 256 1 (wd_label n) \<and> node_capabilities_ok (wd_capabilities n)
         \<and> fmt_datetime fmt (wd_startedAt n) \<and> fmt_datetime fmt (wd_lastHeartbeatAt n)
         \<and> length (wd_workspaces n) \<le> workspaceListCount
      then (case parse_all (nodeWorkspaceSummarySchema fmt) (wd_workspaces n) of
              None \<Rightarrow> None
            | Some workspaces \<Rightarrow>
                Some (n\<lparr>wd_nodeId := js_lower (wd_nodeId n),
                        wd_nodeInstanceId := js_lower (wd_nodeInstanceId n),
                        wd_workspaces := workspaces\<rparr>))
      else None)"

section \<open>Serialised size\<close>

definition json_bool :: "bool \<Rightarrow> string" where
  "json_bool b = (if b then ''true'' else ''false'')"

definition workspace_json :: "workspace_summary \<Rightarrow> string" where
  "workspace_json w = json_object
     ([(''workspaceId'', json_string (ws_workspaceId w)),
       (''workspaceIdentity'', json_string (ws_workspaceIdentity w)),
       (''name'', json_string (ws_name w)),
       (''capabilityTags'', json_array (map json_string (ws_capabilityTags w))),
       (''enabled'', json_bool (ws_enabled w)), (''busy'', json_bool (ws_busy w)),
       (''acceptsIncoming'', json_bool (ws_acceptsIncoming w)),
       (''claimStatus'', json_string (claim_status_name (ws_claimStatus w)))]
      @ (case ws_activeTaskId w of None \<Rightarrow> [] | Some t \<Rightarrow> [(''activeTaskId'', json_string t)]))"

definition node_json :: "node_descriptor \<Rightarrow> string" where
  "node_json n = json_object
     [(''nodeId'', json_string (wd_nodeId n)),
      (''nodeInstanceId'', json_string (wd_nodeInstanceId n)),
      (''label'', json_string (wd_label n)),
      (''status'', json_string (node_status_name (wd_status n))),
      (''capabilities'', json_array (map json_string (wd_capabilities n))),
      (''startedAt'', json_string (wd_startedAt n)),
      (''lastHeartbeatAt'', json_string (wd_lastHeartbeatAt n)),
      (''workspaces'', json_array (map workspace_json (wd_workspaces n)))]"

definition directory_json :: "node_directory \<Rightarrow> string" where
  "directory_json d = json_object
     [(''deviceId'', json_string (nr_deviceId d)),
      (''nodes'', json_array (map node_json (nr_nodes d))),
      (''truncated'', json_bool (nr_truncated d)),
      (''totalNodes'', show_nat (nr_totalNodes d))]"

text \<open>The envelope carries a request id of the maximal length, every character escaped.\<close>

definition serializedLocalResultBytes :: "string \<Rightarrow> nat" where
  "serializedLocalResultBytes result = length (json_object
     [(''kind'', json_string ''result''), (''jsonrpc'', json_string ''2.0''),
      (''id'', json_string (replicate 128 (CHR 0x00))), (''result'', result)])"

definition validateTruncation :: "nat \<Rightarrow> nat \<Rightarrow> bool \<Rightarrow> bool" where
  "validateTruncation returned all_of truncated \<longleftrightarrow>
     \<not> (all_of < returned \<or> truncated \<and> all_of = returned \<or> \<not> truncated \<and> all_of \<noteq> returned)"

definition nodeDirectoryResultSchema :: "formats \<Rightarrow> node_directory \<Rightarrow> node_directory option" where
  "nodeDirectoryResultSchema fmt d =
     (if fmt_uuid fmt (nr_deviceId d) \<and> length (nr_nodes d) \<le> nodeListCount
         \<and> nr_totalNodes d \<le> nodeListCount
      then (case parse_all (windowNodeDescriptorSchema fmt) (nr_nodes d) of
              None \<Rightarrow> None
            | Some nodes \<Rightarrow>
                let r = d\<lparr>nr_deviceId := js_lower (nr_deviceId d), nr_nodes := nodes\<rparr> in
                if validateTruncation (length nodes) (nr_totalNodes d) (nr_truncated d)
                   \<and> serializedLocalResultBytes (directory_json r) \<le> frameBytes_limit
                then Some r else None)
      else None)"

section \<open>Requests\<close>

record node_identity =
  ni_nodeId :: string
  ni_nodeInstanceId :: string

record register_params =
  rp_nodeId :: string
  rp_nodeInstanceId :: string
  rp_label :: string
  rp_capabilities :: "string list"
  rp_status :: node_status
  rp_startedAt :: string

record heartbeat_params =
  hb_nodeId :: string
  hb_nodeInstanceId :: string
  hb_status :: node_status
  hb_at :: string

record claim_params =
  cp_nodeId :: string
  cp_nodeInstanceId :: string
  cp_workspaceId :: "string option"
  cp_workspaceIdentity :: string
  cp_name :: string
  cp_capabilityTags :: "string list"

record release_params =
  lp_nodeId :: string
  lp_nodeInstanceId :: string
  lp_workspaceId :: string

datatype delegation_principal =
    Window_Principal string
  | Delegated_Child string string

definition nodeIdentityParamsSchema :: "formats \<Rightarrow> node_identity \<Rightarrow> node_identity option" where
  "nodeIdentityParamsSchema fmt i =
     (if fmt_uuid fmt (ni_nodeId i) \<and> fmt_uuid fmt (ni_nodeInstanceId i)
      then Some \<lparr>ni_nodeId = js_lower (ni_nodeId i), ni_nodeInstanceId = js_lower (ni_nodeInstanceId i)\<rparr>
      else None)"

definition nodeRegisterParamsSchema :: "formats \<Rightarrow> register_params \<Rightarrow> register_params option" where
  "nodeRegisterParamsSchema fmt p =
     (if fmt_uuid fmt (rp_nodeId p) \<and> fmt_uuid fmt (rp_nodeInstanceId p)
         \<and> utf8String 256 1 (rp_label p) \<and> node_capabilities_ok (rp_capabilities p)
         \<and> rp_status p \<noteq> Node_Offline \<and> fmt_datetime fmt (rp_startedAt p)
      then Some (p\<lparr>rp_nodeId := js_lower (rp_nodeId p),
                   rp_nodeInstanceId := js_lower (rp_nodeInstanceId p)\<rparr>)
      else None)"

definition nodeHeartbeatParamsSchema :: "formats \<Rightarrow> heartbeat_params \<Rightarrow> heartbeat_params option" where
  "nodeHeartbeatParamsSchema fmt p =
     (if fmt_uuid fmt (hb_nodeId p) \<and> fmt_uuid fmt (hb_nodeInstanceId p)
         \<and> hb_status p \<noteq> Node_Offline \<and> fmt_datetime fmt (hb_at p)
      then Some (p\<lparr>hb_nodeId := js_lower (hb_nodeId p),
                   hb_nodeInstanceId := js_lower (hb_nodeInstanceId p)\<rparr>)
      else None)"

definition nodeWorkspaceClaimParamsSchema :: "formats \<Rightarrow> claim_params \<Rightarrow> claim_params option" where
  "nodeWorkspaceClaimParamsSchema fmt p =
     (if fmt_uuid fmt (cp_nodeId p) \<and> fmt_uuid fmt (cp_nodeInstanceId p)
         \<and> opt_all (fmt_uuid fmt) (cp_workspaceId p)
         \<and> workspaceIdentitySchema (cp_workspaceIdentity p) \<and> utf8String 256 1 (cp_name p)
         \<and> capability_tags_ok (cp_capabilityTags p)
      then Some (p\<lparr>cp_nodeId := js_lower (cp_nodeId p),
                   cp_nodeInstanceId := js_lower (cp_nodeInstanceId p),
                   cp_workspaceId := map_option js_lower (cp_workspaceId p)\<rparr>)
      else None)"

definition nodeWorkspaceReleaseParamsSchema :: "formats \<Rightarrow> release_params \<Rightarrow> release_params option" where
  "nodeWorkspaceReleaseParamsSchema fmt p =
     (if fmt_uuid fmt (lp_nodeId p) \<and> fmt_uuid fmt (lp_nodeInstanceId p) \<and> fmt_uuid fmt (lp_workspaceId p)
      then Some \<lparr>lp_nodeId = js_lower (lp_nodeId p), lp_nodeInstanceId = js_lower (lp_nodeInstanceId p),
                 lp_workspaceId = js_lower (lp_workspaceId p)\<rparr>
      else None)"

text \<open>\<open>/^[A-Za-z0-9_-]{43}$/\<close>: 32 random bytes in base64url.\<close>

definition capability_format :: "string \<Rightarrow> bool" where
  "capability_format s \<longleftrightarrow> length s = 43 \<and> list_all is_base64url_char s"

fun delegationPrincipalSchema :: "formats \<Rightarrow> delegation_principal \<Rightarrow> delegation_principal option" where
  "delegationPrincipalSchema fmt (Window_Principal c) =
     (if capability_format c then Some (Window_Principal c) else None)"
| "delegationPrincipalSchema fmt (Delegated_Child t c) =
     (if fmt_uuid fmt t \<and> capability_format c then Some (Delegated_Child (js_lower t) c) else None)"

section \<open>Sorting\<close>

text \<open>
  \<open>Array.prototype.sort\<close> with a comparison function: stable, so for a consistent comparison it
  is the insertion sort that puts an element before the first one it is not greater than.
\<close>

fun sort_insert :: "('a \<Rightarrow> 'a \<Rightarrow> int) \<Rightarrow> 'a \<Rightarrow> 'a list \<Rightarrow> 'a list" where
  "sort_insert cmp x [] = [x]"
| "sort_insert cmp x (y # ys) = (if cmp x y \<le> 0 then x # y # ys else y # sort_insert cmp x ys)"

definition js_sort :: "('a \<Rightarrow> 'a \<Rightarrow> int) \<Rightarrow> 'a list \<Rightarrow> 'a list" where
  "js_sort cmp xs = foldr (sort_insert cmp) xs []"

lemma mset_sort_insert: "mset (sort_insert cmp x xs) = add_mset x (mset xs)"
  by (induction xs) auto

lemma mset_js_sort [simp]: "mset (js_sort cmp xs) = mset xs"
  by (induction xs) (simp_all add: js_sort_def mset_sort_insert)

lemma set_js_sort [simp]: "set (js_sort cmp xs) = set xs"
  using mset_js_sort by (rule mset_eq_setD)

lemma length_js_sort [simp]: "length (js_sort cmp xs) = length xs"
  using mset_js_sort by (rule mset_eq_length)

lemma distinct_js_sort [simp]: "distinct (js_sort cmp xs) = distinct xs"
  using mset_eq_imp_distinct_iff [OF mset_js_sort] .

end
