(* ===== verification/Node_Registry.thy ===== *)
theory Node_Registry
  imports Node_Protocol Mesh_State Workspace_Leases
begin

text \<open>
  The broker's registry of window nodes (\<open>src/broker/NodeRegistry.ts\<close>): which node instances are
  live, which workspace each of them claims, which tasks are bound to them, and the persistent
  catalog of workspaces.

  An operation is a function of the registry. The clock is read once per call (\<open>now\<close>, in
  milliseconds), random capabilities and fresh ids are arguments, and so is the answer of the
  state store to an update. Sessions are numbers; \<open>rg_closed\<close> lists the closed ones. Closing a
  session runs its close listeners at once, so \<open>close_session\<close> is part of the model; a listener
  added to a closed session is queued as a microtask. Node records are mutable objects of the
  source: \<open>nd_ref\<close> is their identity. The lost-task callback is the list \<open>rg_lost\<close> of the
  notifications made. \<open>localeCompare\<close> and the route authorizer are components of the
  configuration.
\<close>

section \<open>State\<close>

record observation =
  ob_workspaceId :: string
  ob_workspaceIdentity :: string
  ob_status :: claim_status

record node_record =
  nd_nodeId :: string
  nd_nodeInstanceId :: string
  nd_label :: string
  nd_capabilities :: "string list"
  nd_status :: node_status
  nd_startedAt :: string
  nd_lastHeartbeatAt :: string
  nd_lastHeartbeatReceivedAt :: int
  nd_offlineAt :: "int option"
  nd_session :: "nat option"
  nd_listening :: bool
  nd_windowDelegationCapability :: string
  nd_workspaces :: "(string, observation) jsmap"
  nd_workspaceHistory :: "(string, observation) jsmap"
  nd_ref :: nat

record active_claim =
  cl_workspaceIdentity :: string
  cl_workspaceId :: string
  cl_nodeId :: string
  cl_nodeInstanceId :: string

record route_request =
  rr_nodeId :: string
  rr_nodeInstanceId :: string
  rr_workspaceId :: string
  rr_ownerId :: string
  rr_taskId :: string
  rr_sourceNodeId :: "string option"
  rr_sourceNodeInstanceId :: "string option"
  rr_remotePeerId :: "string option"

text \<open>A binding is the request with the back end, the lease key and the child's context.\<close>

record task_binding =
  tb_request :: route_request
  tb_codespaceOwned :: bool
  tb_workspaceLeaseKey :: string
  tb_contextTaskId :: string
  tb_contextCapability :: string

record catalog_entry =
  ce_workspaceId :: string
  ce_workspaceIdentity :: string
  ce_name :: string
  ce_capabilityTags :: "string list"
  ce_enabled :: bool
  ce_createdAt :: string
  ce_updatedAt :: string

record v1_entry =
  v1_workspaceId :: string
  v1_registeredUri :: string
  v1_localUri :: string
  v1_fileIdentity :: string
  v1_name :: string
  v1_capabilityTags :: "string list"
  v1_enabled :: bool
  v1_stale :: bool
  v1_createdAt :: string
  v1_updatedAt :: string

text \<open>What the state store may hold under a catalog key.\<close>

datatype stored_catalog = Catalog_V1 "v1_entry list" | Catalog_V2 "catalog_entry list" | Foreign_Catalog

record registry =
  rg_nodes :: "(string, node_record) jsmap"
  rg_claims :: "(string, active_claim) jsmap"
  rg_taskBindings :: "(string, task_binding) jsmap"
  rg_catalog :: "catalog_entry list option"
  rg_initializing :: "(mesh_error, unit) result option"
  rg_timer :: bool
  rg_authorizer :: "nat option"
  rg_disposed :: bool
  rg_leases :: leases
  rg_stored :: "stored_catalog option"
  rg_legacy :: "stored_catalog option"
  rg_closed :: "nat list"
  rg_microtasks :: "(string \<times> nat \<times> nat) list"
  rg_lost :: "task_binding list list"
  rg_nextRef :: nat

record peer_workspace =
  pw_workspaceId :: string
  pw_workspaceIdentity :: string
  pw_name :: string
  pw_status :: claim_status
  pw_busy :: bool

record peer_node =
  pn_nodeId :: string
  pn_nodeInstanceId :: string
  pn_label :: string
  pn_status :: node_status
  pn_online :: bool
  pn_workspaces :: "peer_workspace list"

record auth_context =
  ac_source :: "peer_node option"
  ac_target :: "peer_node option"
  ac_targetWorkspaceIdentity :: "string option"

text \<open>
  The constructor's options and the code behind its interfaces: \<open>localeCompare\<close>, the
  authorizers by their identity, the check of \<open>file:\<close> URLs and the SHA-256 digest in base64url.
\<close>

record registry_config =
  rc_formats :: formats
  rc_deviceId :: string
  rc_heartbeatTtlMs :: int
  rc_localeCompare :: "string \<Rightarrow> string \<Rightarrow> int"
  rc_assertRouteAllowed :: "nat \<Rightarrow> route_request \<Rightarrow> auth_context \<Rightarrow> (mesh_error, unit) result"
  rc_displayLabel :: "nat \<Rightarrow> (peer_node \<Rightarrow> string) option"
  rc_fileUrl :: "string \<Rightarrow> bool"
  rc_digest :: "string \<Rightarrow> string"

type_synonym 'a registry_op = "(registry, 'a) stateful"

text \<open>A new registry; the constructor checks its options.\<close>

definition new_registry ::
  "registry_config \<Rightarrow> int \<Rightarrow> leases \<Rightarrow> stored_catalog option \<Rightarrow> stored_catalog option
     \<Rightarrow> (mesh_error, registry) result" where
  "new_registry cfg sweepIntervalMs leases stored legacy =
     (if uuidSchema (rc_formats cfg) (rc_deviceId cfg) = None then Inl Zod_Error
      else if rc_heartbeatTtlMs cfg \<le> 0 \<or> sweepIntervalMs \<le> 0 then Inl Type_Error
      else Inr \<lparr>rg_nodes = [], rg_claims = [], rg_taskBindings = [], rg_catalog = None,
        rg_initializing = None, rg_timer = False, rg_authorizer = None, rg_disposed = False,
        rg_leases = leases, rg_stored = stored, rg_legacy = legacy, rg_closed = [],
        rg_microtasks = [], rg_lost = [], rg_nextRef = 0\<rparr>)"

section \<open>Small helpers\<close>

definition assertReady :: "registry \<Rightarrow> (mesh_error, unit) result" where
  "assertReady rg = (if rg_disposed rg \<or> rg_catalog rg = None then Inl Plain_Error else Inr ())"

text \<open>\<open>this.catalog!.workspaces\<close>, read only once the registry is ready.\<close>

definition catalog_of :: "registry \<Rightarrow> catalog_entry list" where
  "catalog_of rg = (case rg_catalog rg of None \<Rightarrow> [] | Some c \<Rightarrow> c)"

definition unavailable :: mesh_error where "unavailable = mesh_fail AGENT_UNAVAILABLE"

definition put_node :: "node_record \<Rightarrow> registry \<Rightarrow> registry" where
  "put_node nd rg = rg\<lparr>rg_nodes := js_set (nd_nodeId nd) nd (rg_nodes rg)\<rparr>"

definition session_open :: "registry \<Rightarrow> node_record \<Rightarrow> bool" where
  "session_open rg nd \<longleftrightarrow> (case nd_session nd of None \<Rightarrow> False | Some s \<Rightarrow> s \<notin> set (rg_closed rg))"

definition bound_to :: "string \<Rightarrow> string \<Rightarrow> task_binding \<Rightarrow> bool" where
  "bound_to nodeId instanceId b \<longleftrightarrow>
     rr_nodeId (tb_request b) = nodeId \<and> rr_nodeInstanceId (tb_request b) = instanceId"

definition hasTaskBindings :: "registry \<Rightarrow> node_record \<Rightarrow> bool" where
  "hasTaskBindings rg nd \<longleftrightarrow>
     list_ex (bound_to (nd_nodeId nd) (nd_nodeInstanceId nd)) (js_values (rg_taskBindings rg))"

definition sameInstanceMetadata :: "node_record \<Rightarrow> register_params \<Rightarrow> bool" where
  "sameInstanceMetadata nd p \<longleftrightarrow>
     nd_label nd = rp_label p \<and> nd_startedAt nd = rp_startedAt p
     \<and> nd_capabilities nd = rp_capabilities p"

definition sameRegistration :: "node_record \<Rightarrow> register_params \<Rightarrow> nat \<Rightarrow> bool" where
  "sameRegistration nd p s \<longleftrightarrow>
     nd_session nd = Some s \<and> nd_label nd = rp_label p \<and> nd_status nd = rp_status p
     \<and> nd_startedAt nd = rp_startedAt p \<and> nd_capabilities nd = rp_capabilities p"

definition requireExactNode :: "registry \<Rightarrow> node_identity \<Rightarrow> (mesh_error, node_record) result" where
  "requireExactNode rg i =
     (case js_get (rg_nodes rg) (ni_nodeId i) of
        None \<Rightarrow> Inl unavailable
      | Some nd \<Rightarrow> if nd_nodeInstanceId nd \<noteq> ni_nodeInstanceId i then Inl unavailable else Inr nd)"

definition requireLiveNode :: "registry \<Rightarrow> node_identity \<Rightarrow> (mesh_error, node_record) result" where
  "requireLiveNode rg i =
     bindR (requireExactNode rg i) (\<lambda>nd.
       if nd_status nd = Node_Offline \<or> \<not> session_open rg nd then Inl unavailable else Inr nd)"

section \<open>Losing nodes\<close>

text \<open>The claims of an instance on the workspaces it has under observation.\<close>

definition drop_claims :: "node_record \<Rightarrow> (string, active_claim) jsmap \<Rightarrow> (string, active_claim) jsmap" where
  "drop_claims nd claims =
     fold (\<lambda>ob cs.
         case js_get cs (ob_workspaceIdentity ob) of
           None \<Rightarrow> cs
         | Some c \<Rightarrow>
             if cl_nodeId c = nd_nodeId nd \<and> cl_nodeInstanceId c = nd_nodeInstanceId nd
             then js_delete (ob_workspaceIdentity ob) cs else cs)
       (js_values (nd_workspaces nd)) claims"

text \<open>\<open>loseNode\<close> up to the closing of the session.\<close>

definition take_offline :: "int \<Rightarrow> node_record \<Rightarrow> registry \<Rightarrow> registry" where
  "take_offline now nd rg =
     put_node
       (nd\<lparr>nd_listening := False, nd_session := None, nd_status := Node_Offline,
           nd_offlineAt := Some now, nd_workspaces := []\<rparr>)
       (rg\<lparr>rg_claims := drop_claims nd (rg_claims rg)\<rparr>)"

definition lost_bindings :: "node_record \<Rightarrow> registry \<Rightarrow> task_binding list" where
  "lost_bindings nd rg =
     filter (bound_to (nd_nodeId nd) (nd_nodeInstanceId nd)) (js_values (rg_taskBindings rg))"

definition notify_lost :: "task_binding list \<Rightarrow> registry \<Rightarrow> registry" where
  "notify_lost lost rg = (if lost = [] then rg else rg\<lparr>rg_lost := rg_lost rg @ [lost]\<rparr>)"

text \<open>The close listener of a node, and the closing of a session, which runs all of them.\<close>

definition close_listener :: "int \<Rightarrow> nat \<Rightarrow> string \<Rightarrow> registry \<Rightarrow> registry" where
  "close_listener now s nodeId rg =
     (case js_get (rg_nodes rg) nodeId of
        None \<Rightarrow> rg
      | Some nd \<Rightarrow>
          if nd_listening nd \<and> nd_session nd = Some s \<and> nd_status nd \<noteq> Node_Offline
          then notify_lost (lost_bindings nd rg) (take_offline now nd rg)
          else rg)"

definition close_session :: "int \<Rightarrow> nat \<Rightarrow> registry \<Rightarrow> registry" where
  "close_session now s rg =
     (if s \<in> set (rg_closed rg) then rg
      else fold (close_listener now s) (map fst (rg_nodes rg)) (rg\<lparr>rg_closed := s # rg_closed rg\<rparr>))"

definition loseNode :: "int \<Rightarrow> bool \<Rightarrow> node_record \<Rightarrow> registry \<Rightarrow> registry" where
  "loseNode now closeSession nd rg =
     (let offline = take_offline now nd rg;
          closed = (case nd_session nd of
                      None \<Rightarrow> offline
                    | Some s \<Rightarrow> if closeSession then close_session now s offline else offline)
      in notify_lost (lost_bindings nd offline) closed)"

definition listenForNodeClose :: "nat \<Rightarrow> node_record \<Rightarrow> registry \<Rightarrow> registry" where
  "listenForNodeClose s nd rg =
     (if s \<in> set (rg_closed rg)
      then put_node nd (rg\<lparr>rg_microtasks := rg_microtasks rg @ [(nd_nodeId nd, nd_ref nd, s)]\<rparr>)
      else put_node (nd\<lparr>nd_listening := True\<rparr>) rg)"

text \<open>The next queued listener of a session that was closed before the listener was added.\<close>

definition run_microtask :: "int \<Rightarrow> registry \<Rightarrow> registry" where
  "run_microtask now rg =
     (case rg_microtasks rg of
        [] \<Rightarrow> rg
      | (nodeId, ref, s) # rest \<Rightarrow>
          let rg1 = rg\<lparr>rg_microtasks := rest\<rparr> in
          case js_get (rg_nodes rg1) nodeId of
            None \<Rightarrow> rg1
          | Some nd \<Rightarrow>
              if nd_ref nd = ref \<and> nd_session nd = Some s \<and> nd_status nd \<noteq> Node_Offline
              then loseNode now False nd rg1 else rg1)"

definition pruneOfflineTombstones :: "registry_config \<Rightarrow> int \<Rightarrow> registry \<Rightarrow> registry" where
  "pruneOfflineTombstones cfg now rg =
     rg\<lparr>rg_nodes := filter (\<lambda>(_, nd).
       \<not> (nd_status nd = Node_Offline
          \<and> (case nd_offlineAt nd of None \<Rightarrow> False | Some t \<Rightarrow> t \<le> now - rc_heartbeatTtlMs cfg)
          \<and> \<not> hasTaskBindings rg nd)) (rg_nodes rg)\<rparr>"

definition tombstone_age :: "node_record \<Rightarrow> int" where
  "tombstone_age nd = (case nd_offlineAt nd of None \<Rightarrow> nd_lastHeartbeatReceivedAt nd | Some t \<Rightarrow> t)"

definition tombstone_compare :: "registry_config \<Rightarrow> node_record \<Rightarrow> node_record \<Rightarrow> int" where
  "tombstone_compare cfg a b =
     (if tombstone_age a \<noteq> tombstone_age b then tombstone_age a - tombstone_age b
      else let c = rc_localeCompare cfg (nd_startedAt a) (nd_startedAt b) in
        if c \<noteq> 0 then c else rc_localeCompare cfg (nd_nodeId a) (nd_nodeId b))"

definition evictOfflineTombstones :: "registry_config \<Rightarrow> nat \<Rightarrow> registry \<Rightarrow> registry" where
  "evictOfflineTombstones cfg requiredSlots rg =
     (let remaining = length (rg_nodes rg) + requiredSlots - nodeListCount;
          candidates = js_sort (tombstone_compare cfg)
            (filter (\<lambda>nd. nd_status nd = Node_Offline \<and> \<not> hasTaskBindings rg nd)
               (js_values (rg_nodes rg)))
      in rg\<lparr>rg_nodes := fold (\<lambda>nd. js_delete (nd_nodeId nd)) (take remaining candidates) (rg_nodes rg)\<rparr>)"

section \<open>Descriptors\<close>

definition summary_of_observation ::
  "registry \<Rightarrow> observation \<Rightarrow> (mesh_error, workspace_summary) result" where
  "summary_of_observation rg ob =
     (case find (\<lambda>c. ce_workspaceId c = ob_workspaceId ob) (catalog_of rg) of
        None \<Rightarrow> Inl Plain_Error
      | Some catalog \<Rightarrow>
          let holder = lease_owner_of (rg_leases rg) (ob_workspaceIdentity ob) in
          Inr \<lparr>ws_workspaceId = ce_workspaceId catalog,
               ws_workspaceIdentity = ob_workspaceIdentity ob, ws_name = ce_name catalog,
               ws_capabilityTags = ce_capabilityTags catalog, ws_enabled = ce_enabled catalog,
               ws_busy = (holder \<noteq> None), ws_acceptsIncoming = False,
               ws_claimStatus = ob_status ob, ws_activeTaskId = map_option lo_taskId holder\<rparr>)"

text \<open>\<open>Array.prototype.map\<close> with a function that may throw.\<close>

fun map_result :: "('a \<Rightarrow> (mesh_error, 'b) result) \<Rightarrow> 'a list \<Rightarrow> (mesh_error, 'b list) result" where
  "map_result f [] = Inr []"
| "map_result f (x # xs) = bindR (f x) (\<lambda>y. bindR (map_result f xs) (\<lambda>ys. Inr (y # ys)))"

definition observation_compare :: "registry_config \<Rightarrow> observation \<Rightarrow> observation \<Rightarrow> int" where
  "observation_compare cfg a b = rc_localeCompare cfg (ob_workspaceId a) (ob_workspaceId b)"

definition descriptor ::
  "registry_config \<Rightarrow> registry \<Rightarrow> node_record \<Rightarrow> (mesh_error, node_descriptor) result" where
  "descriptor cfg rg nd =
     bindR (map_result (summary_of_observation rg)
        (take workspaceListCount (js_sort (observation_compare cfg) (js_values (nd_workspaces nd)))))
     (\<lambda>workspaces. Inr
        \<lparr>wd_nodeId = nd_nodeId nd, wd_nodeInstanceId = nd_nodeInstanceId nd, wd_label = nd_label nd,
         wd_status = nd_status nd, wd_capabilities = nd_capabilities nd,
         wd_startedAt = nd_startedAt nd, wd_lastHeartbeatAt = nd_lastHeartbeatAt nd,
         wd_workspaces = workspaces\<rparr>)"

definition peer_online :: "registry \<Rightarrow> node_record \<Rightarrow> bool" where
  "peer_online rg nd \<longleftrightarrow> nd_status nd \<in> {Node_Online, Node_Busy} \<and> session_open rg nd"

definition peerSnapshot ::
  "registry_config \<Rightarrow> registry \<Rightarrow> node_record \<Rightarrow> (mesh_error, peer_node) result" where
  "peerSnapshot cfg rg nd =
     (let online = peer_online rg nd;
          observations = (if online then nd_workspaces nd else nd_workspaceHistory nd)
      in bindR (map_result (\<lambda>ob.
             case find (\<lambda>c. ce_workspaceId c = ob_workspaceId ob)
                    (catalog_of rg) of
               None \<Rightarrow> Inl Plain_Error
             | Some catalog \<Rightarrow>
                 Inr \<lparr>pw_workspaceId = ob_workspaceId ob, pw_workspaceIdentity = ob_workspaceIdentity ob,
                      pw_name = ce_name catalog,
                      pw_status = (if online then ob_status ob else Read_Only),
                      pw_busy = isLeased (rg_leases rg) (ob_workspaceIdentity ob)\<rparr>)
           (js_sort (observation_compare cfg) (js_values observations)))
         (\<lambda>workspaces. Inr
            \<lparr>pn_nodeId = nd_nodeId nd, pn_nodeInstanceId = nd_nodeInstanceId nd,
             pn_label = nd_label nd, pn_status = nd_status nd, pn_online = online,
             pn_workspaces = workspaces\<rparr>))"

section \<open>Registration\<close>

definition add_node :: "int \<Rightarrow> string \<Rightarrow> register_params \<Rightarrow> nat \<Rightarrow> registry \<Rightarrow> registry" where
  "add_node now capability input s rg =
     listenForNodeClose s
       \<lparr>nd_nodeId = rp_nodeId input, nd_nodeInstanceId = rp_nodeInstanceId input,
        nd_label = rp_label input, nd_capabilities = rp_capabilities input,
        nd_status = rp_status input, nd_startedAt = rp_startedAt input,
        nd_lastHeartbeatAt = to_iso_string now, nd_lastHeartbeatReceivedAt = now,
        nd_offlineAt = None, nd_session = Some s, nd_listening = False,
        nd_windowDelegationCapability = capability, nd_workspaces = [], nd_workspaceHistory = [],
        nd_ref = rg_nextRef rg\<rparr>
       (rg\<lparr>rg_nextRef := rg_nextRef rg + 1\<rparr>)"

text \<open>The answer of \<open>register\<close> and \<open>heartbeat\<close>: the descriptor of the node as it is stored.\<close>

definition describe :: "registry_config \<Rightarrow> string \<Rightarrow> node_descriptor registry_op" where
  "describe cfg nodeId rg =
     (case js_get (rg_nodes rg) nodeId of
        None \<Rightarrow> (Inl unavailable, rg)
      | Some nd \<Rightarrow> (descriptor cfg rg nd, rg))"

definition live_count :: "registry \<Rightarrow> nat" where
  "live_count rg = length (filter (\<lambda>nd. nd_status nd \<noteq> Node_Offline) (js_values (rg_nodes rg)))"

definition reconnect :: "int \<Rightarrow> string \<Rightarrow> register_params \<Rightarrow> nat \<Rightarrow> node_record \<Rightarrow> registry \<Rightarrow> registry" where
  "reconnect now capability input s existing rg =
     listenForNodeClose s
       (existing\<lparr>nd_status := rp_status input, nd_lastHeartbeatAt := to_iso_string now,
          nd_lastHeartbeatReceivedAt := now, nd_offlineAt := None, nd_session := Some s,
          nd_windowDelegationCapability := capability\<rparr>) rg"

definition register ::
  "registry_config \<Rightarrow> int \<Rightarrow> string \<Rightarrow> register_params \<Rightarrow> nat \<Rightarrow> node_descriptor registry_op" where
  "register cfg now capability params s rg =
     (case assertReady rg of Inl e \<Rightarrow> (Inl e, rg) | Inr _ \<Rightarrow>
      case nodeRegisterParamsSchema (rc_formats cfg) params of None \<Rightarrow> (Inl Zod_Error, rg) | Some input \<Rightarrow>
      if s \<in> set (rg_closed rg) then (Inl unavailable, rg)
      else if list_ex (\<lambda>nd. nd_nodeInstanceId nd = rp_nodeInstanceId input
                            \<and> nd_nodeId nd \<noteq> rp_nodeId input) (js_values (rg_nodes rg))
      then (Inl unavailable, rg)
      else case js_get (rg_nodes rg) (rp_nodeId input) of
        Some existing \<Rightarrow>
          if nd_nodeInstanceId existing = rp_nodeInstanceId input then
            (if sameRegistration existing input s then describe cfg (rp_nodeId input) rg
             else if nd_status existing \<noteq> Node_Offline \<or> nd_session existing \<noteq> None
                     \<or> \<not> sameInstanceMetadata existing input
             then (Inl unavailable, rg)
             else describe cfg (rp_nodeId input) (reconnect now capability input s existing rg))
          else
            (let rg1 = loseNode now True existing rg in
             if hasTaskBindings rg1 existing then (Inl unavailable, rg1)
             else describe cfg (rp_nodeId input) (add_node now capability input s rg1))
      | None \<Rightarrow>
          if nodeListCount \<le> live_count rg then (Inl unavailable, rg)
          else
            (let rg1 = evictOfflineTombstones cfg 1 rg in
             if nodeListCount \<le> length (rg_nodes rg1) then (Inl unavailable, rg1)
             else describe cfg (rp_nodeId input) (add_node now capability input s rg1)))"

text \<open>\<open>Date.parse(a) < Date.parse(b)\<close>, false when either is \<open>NaN\<close>.\<close>

definition date_before :: "string \<Rightarrow> string \<Rightarrow> bool" where
  "date_before a b \<longleftrightarrow>
     (case (date_parse a, date_parse b) of (Some x, Some y) \<Rightarrow> x < y | _ \<Rightarrow> False)"

definition heartbeat :: "registry_config \<Rightarrow> int \<Rightarrow> heartbeat_params \<Rightarrow> node_descriptor registry_op" where
  "heartbeat cfg now params rg =
     (case assertReady rg of Inl e \<Rightarrow> (Inl e, rg) | Inr _ \<Rightarrow>
      case nodeHeartbeatParamsSchema (rc_formats cfg) params of None \<Rightarrow> (Inl Zod_Error, rg) | Some input \<Rightarrow>
      case requireLiveNode rg \<lparr>ni_nodeId = hb_nodeId input, ni_nodeInstanceId = hb_nodeInstanceId input\<rparr> of
        Inl e \<Rightarrow> (Inl e, rg)
      | Inr nd \<Rightarrow>
          if date_before (hb_at input) (nd_lastHeartbeatAt nd) then (Inl unavailable, rg)
          else describe cfg (hb_nodeId input)
            (put_node (nd\<lparr>nd_status := hb_status input, nd_lastHeartbeatAt := hb_at input,
                         nd_lastHeartbeatReceivedAt := now\<rparr>) rg))"

definition unregister :: "registry_config \<Rightarrow> int \<Rightarrow> node_identity \<Rightarrow> bool \<Rightarrow> unit registry_op" where
  "unregister cfg now params closeSession rg =
     (case assertReady rg of Inl e \<Rightarrow> (Inl e, rg) | Inr _ \<Rightarrow>
      case nodeIdentityParamsSchema (rc_formats cfg) params of None \<Rightarrow> (Inl Zod_Error, rg) | Some input \<Rightarrow>
      case requireExactNode rg input of
        Inl e \<Rightarrow> (Inl e, rg)
      | Inr nd \<Rightarrow>
          if nd_status nd \<noteq> Node_Offline then (Inr (), loseNode now closeSession nd rg) else (Inr (), rg))"

text \<open>One visit of the sweep; the visits see the effects of the earlier ones.\<close>

definition sweep_node :: "int \<Rightarrow> int \<Rightarrow> string \<Rightarrow> string list \<times> registry \<Rightarrow> string list \<times> registry" where
  "sweep_node now cutoff nodeId st =
     (case st of (expired, rg) \<Rightarrow>
        case js_get (rg_nodes rg) nodeId of
          None \<Rightarrow> (expired, rg)
        | Some nd \<Rightarrow>
            if nd_status nd \<noteq> Node_Offline \<and> nd_lastHeartbeatReceivedAt nd \<le> cutoff
            then (expired @ [nd_nodeId nd], loseNode now True nd rg)
            else (expired, rg))"

definition sweepExpired :: "registry_config \<Rightarrow> int \<Rightarrow> string list registry_op" where
  "sweepExpired cfg now rg =
     (case assertReady rg of Inl e \<Rightarrow> (Inl e, rg) | Inr _ \<Rightarrow>
        let (expired, rg1) = fold (sweep_node now (now - rc_heartbeatTtlMs cfg))
                               (map fst (rg_nodes rg)) ([], rg)
        in (Inr (sort expired), pruneOfflineTombstones cfg now rg1))"

section \<open>Queries\<close>

fun directory_loop ::
  "string \<Rightarrow> nat \<Rightarrow> node_descriptor list \<Rightarrow> node_descriptor list \<Rightarrow> node_descriptor list" where
  "directory_loop deviceId available nodes [] = nodes"
| "directory_loop deviceId available nodes (n # rest) =
     (if frameBytes_limit < serializedLocalResultBytes (directory_json
           \<lparr>nr_deviceId = deviceId, nr_nodes = nodes @ [n],
            nr_truncated = (length nodes + 1 < available), nr_totalNodes = available\<rparr>)
      then nodes
      else directory_loop deviceId available (nodes @ [n]) rest)"

definition node_compare :: "registry_config \<Rightarrow> node_record \<Rightarrow> node_record \<Rightarrow> int" where
  "node_compare cfg a b = rc_localeCompare cfg (nd_nodeId a) (nd_nodeId b)"

definition list_nodes :: "registry_config \<Rightarrow> bool \<Rightarrow> registry \<Rightarrow> (mesh_error, node_directory) result" where
  "list_nodes cfg includeOffline rg =
     bindR (assertReady rg) (\<lambda>_.
     bindR (map_result (descriptor cfg rg)
        (take nodeListCount (js_sort (node_compare cfg)
           (filter (\<lambda>nd. includeOffline \<or> nd_status nd \<noteq> Node_Offline) (js_values (rg_nodes rg))))))
       (\<lambda>available.
          let nodes = directory_loop (rc_deviceId cfg) (length available) [] available in
          case nodeDirectoryResultSchema (rc_formats cfg)
            \<lparr>nr_deviceId = rc_deviceId cfg, nr_nodes = nodes,
             nr_truncated = (length nodes < length available), nr_totalNodes = length available\<rparr> of
            None \<Rightarrow> Inl Zod_Error
          | Some r \<Rightarrow> Inr r))"

definition lookupNodeLabel ::
  "registry_config \<Rightarrow> string \<Rightarrow> registry \<Rightarrow> (mesh_error, string option) result" where
  "lookupNodeLabel cfg nodeId rg =
     bindR (assertReady rg) (\<lambda>_.
       case uuidSchema (rc_formats cfg) nodeId of
         None \<Rightarrow> Inl Zod_Error
       | Some i \<Rightarrow>
           case js_get (rg_nodes rg) i of
             None \<Rightarrow> Inr None
           | Some nd \<Rightarrow>
               if nd_status nd = Node_Offline \<or> \<not> session_open rg nd then Inr None
               else case Option.bind (rg_authorizer rg) (rc_displayLabel cfg) of
                 None \<Rightarrow> Inr (Some (nd_label nd))
               | Some label \<Rightarrow> bindR (peerSnapshot cfg rg nd) (\<lambda>p. Inr (Some (label p))))"

definition windowDelegationPrincipal ::
  "registry_config \<Rightarrow> nat \<Rightarrow> node_identity \<Rightarrow> registry \<Rightarrow> (mesh_error, delegation_principal) result" where
  "windowDelegationPrincipal cfg s i rg =
     bindR (assertReady rg) (\<lambda>_.
       case nodeIdentityParamsSchema (rc_formats cfg) i of
         None \<Rightarrow> Inl Zod_Error
       | Some input \<Rightarrow>
           bindR (requireLiveNode rg input) (\<lambda>nd.
             if nd_session nd \<noteq> Some s \<or> s \<in> set (rg_closed rg) then Inl (mesh_fail AUTH_FAILED)
             else Inr (Window_Principal (nd_windowDelegationCapability nd))))"

definition assertDelegationPrincipal ::
  "registry_config \<Rightarrow> nat \<Rightarrow> node_identity \<Rightarrow> delegation_principal \<Rightarrow> registry
     \<Rightarrow> (mesh_error, unit) result" where
  "assertDelegationPrincipal cfg s i given rg =
     bindR (assertReady rg) (\<lambda>_.
       case delegationPrincipalSchema (rc_formats cfg) given of
         None \<Rightarrow> Inl Zod_Error
       | Some execution \<Rightarrow>
           case nodeIdentityParamsSchema (rc_formats cfg) i of
             None \<Rightarrow> Inl Zod_Error
           | Some source \<Rightarrow>
               bindR (requireLiveNode rg source) (\<lambda>nd.
                 if nd_session nd \<noteq> Some s \<or> s \<in> set (rg_closed rg) then Inl (mesh_fail AUTH_FAILED)
                 else case execution of
                   Window_Principal capability \<Rightarrow>
                     if nd_windowDelegationCapability nd \<noteq> capability then Inl (mesh_fail AUTH_FAILED)
                     else Inr ()
                 | Delegated_Child taskId capability \<Rightarrow>
                     (case js_get (rg_taskBindings rg) taskId of
                        None \<Rightarrow> Inl (mesh_fail AUTH_FAILED)
                      | Some b \<Rightarrow>
                          if \<not> bound_to (nd_nodeId nd) (nd_nodeInstanceId nd) b
                             \<or> tb_contextCapability b \<noteq> capability
                          then Inl (mesh_fail AUTH_FAILED)
                          else Inl (mesh_fail DELEGATION_RECURSION))))"

definition setPeerRouteAuthorizer :: "nat \<Rightarrow> unit registry_op" where
  "setPeerRouteAuthorizer authorizer rg =
     (if rg_disposed rg then (Inl Plain_Error, rg)
      else if rg_authorizer rg \<notin> {None, Some authorizer} then (Inl Plain_Error, rg)
      else (Inr (), rg\<lparr>rg_authorizer := Some authorizer\<rparr>))"

definition peerNode ::
  "registry_config \<Rightarrow> node_identity \<Rightarrow> registry \<Rightarrow> (mesh_error, peer_node option) result" where
  "peerNode cfg i rg =
     bindR (assertReady rg) (\<lambda>_.
       case nodeIdentityParamsSchema (rc_formats cfg) i of
         None \<Rightarrow> Inl Zod_Error
       | Some parsed \<Rightarrow>
           case js_get (rg_nodes rg) (ni_nodeId parsed) of
             None \<Rightarrow> Inr None
           | Some nd \<Rightarrow>
               if nd_nodeInstanceId nd \<noteq> ni_nodeInstanceId parsed then Inr None
               else bindR (peerSnapshot cfg rg nd) (\<lambda>p. Inr (Some p)))"

definition peerNodes :: "registry_config \<Rightarrow> registry \<Rightarrow> (mesh_error, peer_node list) result" where
  "peerNodes cfg rg =
     bindR (assertReady rg) (\<lambda>_.
       map_result (peerSnapshot cfg rg) (js_sort (node_compare cfg) (js_values (rg_nodes rg))))"

section \<open>The workspace catalog\<close>

definition workspaceCatalogEntrySchema :: "formats \<Rightarrow> catalog_entry \<Rightarrow> catalog_entry option" where
  "workspaceCatalogEntrySchema fmt c =
     (if fmt_uuid fmt (ce_workspaceId c) \<and> utf8String 1024 1 (ce_workspaceIdentity c)
         \<and> utf8String 256 1 (ce_name c) \<and> capability_tags_ok (ce_capabilityTags c)
         \<and> fmt_datetime fmt (ce_createdAt c) \<and> fmt_datetime fmt (ce_updatedAt c)
      then Some (c\<lparr>ce_workspaceId := js_lower (ce_workspaceId c)\<rparr>) else None)"

definition workspaceCatalogV2Schema :: "formats \<Rightarrow> catalog_entry list \<Rightarrow> catalog_entry list option" where
  "workspaceCatalogV2Schema fmt workspaces =
     (if workspaceListCount < length workspaces then None
      else case parse_all (workspaceCatalogEntrySchema fmt) workspaces of
        None \<Rightarrow> None
      | Some entries \<Rightarrow>
          if distinct (map ce_workspaceId entries) \<and> distinct (map ce_workspaceIdentity entries)
          then Some entries else None)"

definition v1_entry_ok :: "registry_config \<Rightarrow> v1_entry \<Rightarrow> bool" where
  "v1_entry_ok cfg e \<longleftrightarrow>
     fmt_uuid (rc_formats cfg) (v1_workspaceId e) \<and> rc_fileUrl cfg (v1_registeredUri e)
     \<and> rc_fileUrl cfg (v1_localUri e) \<and> utf8String 1024 1 (v1_fileIdentity e)
     \<and> utf8String 256 1 (v1_name e) \<and> capability_tags_ok (v1_capabilityTags e)
     \<and> fmt_datetime (rc_formats cfg) (v1_createdAt e) \<and> fmt_datetime (rc_formats cfg) (v1_updatedAt e)"

definition createOpaqueWorkspaceIdentity :: "registry_config \<Rightarrow> string \<Rightarrow> (mesh_error, string) result" where
  "createOpaqueWorkspaceIdentity cfg fileIdentity =
     (if length fileIdentity < 1 \<or> 1024 < length fileIdentity then Inl Type_Error
      else Inr (''sha256:'' @ rc_digest cfg
        (''copilot-agent-mesh/window-workspace-identity/v1'' @ [CHR 0x00] @ fileIdentity)))"

definition migrate_entry :: "registry_config \<Rightarrow> v1_entry \<Rightarrow> (mesh_error, catalog_entry) result" where
  "migrate_entry cfg e =
     bindR (createOpaqueWorkspaceIdentity cfg (v1_fileIdentity e)) (\<lambda>identity. Inr
       \<lparr>ce_workspaceId = js_lower (v1_workspaceId e), ce_workspaceIdentity = identity,
        ce_name = v1_name e, ce_capabilityTags = v1_capabilityTags e, ce_enabled = v1_enabled e,
        ce_createdAt = v1_createdAt e, ce_updatedAt = v1_updatedAt e\<rparr>)"

definition migrateWorkspaceRegistryV1 ::
  "registry_config \<Rightarrow> stored_catalog \<Rightarrow> (mesh_error, catalog_entry list) result" where
  "migrateWorkspaceRegistryV1 cfg stored =
     (case stored of
        Catalog_V1 entries \<Rightarrow>
          if workspaceListCount < length entries \<or> \<not> list_all (v1_entry_ok cfg) entries
          then Inl Zod_Error
          else bindR (map_result (migrate_entry cfg) entries) (\<lambda>migrated.
            case workspaceCatalogV2Schema (rc_formats cfg) migrated of
              None \<Rightarrow> Inl Zod_Error
            | Some entries \<Rightarrow> Inr entries)
      | _ \<Rightarrow> Inl Zod_Error)"

text \<open>The catalog start-up uses, and whether it has to be written.\<close>

definition initial_catalog :: "registry_config \<Rightarrow> registry \<Rightarrow> (mesh_error, catalog_entry list \<times> bool) result" where
  "initial_catalog cfg rg =
     (case rg_stored rg of
        Some current \<Rightarrow>
          (case current of
             Catalog_V1 _ \<Rightarrow> bindR (migrateWorkspaceRegistryV1 cfg current) (\<lambda>m. Inr (m, True))
           | Catalog_V2 entries \<Rightarrow>
               (case workspaceCatalogV2Schema (rc_formats cfg) entries of
                  None \<Rightarrow> Inl Zod_Error
                | Some parsed \<Rightarrow> Inr (parsed, False))
           | Foreign_Catalog \<Rightarrow> Inl Zod_Error)
      | None \<Rightarrow>
          (case rg_legacy rg of
             None \<Rightarrow> Inr ([], True)
           | Some legacy \<Rightarrow> bindR (migrateWorkspaceRegistryV1 cfg legacy) (\<lambda>m. Inr (m, True))))"

text \<open>\<open>disposes\<close>: the registry is disposed of while the update is awaited.\<close>

definition initializeCatalog :: "registry_config \<Rightarrow> update_answer \<Rightarrow> bool \<Rightarrow> unit registry_op" where
  "initializeCatalog cfg answer disposes rg =
     (case initial_catalog cfg rg of
        Inl e \<Rightarrow> (Inl e, rg)
      | Inr (catalog, write) \<Rightarrow>
          let awaited = (if write \<and> disposes then rg\<lparr>rg_disposed := True\<rparr> else rg) in
          let updated = (if write \<and> answer \<noteq> Update_Refused
                then awaited\<lparr>rg_stored := Some (Catalog_V2 catalog)\<rparr> else awaited) in
          if write \<and> answer \<noteq> Update_Done then (Inl Plain_Error, updated)
          else (Inr (), updated\<lparr>rg_catalog := Some catalog, rg_timer := \<not> rg_disposed updated\<rparr>))"

definition initialize :: "registry_config \<Rightarrow> update_answer \<Rightarrow> bool \<Rightarrow> unit registry_op" where
  "initialize cfg answer disposes rg =
     (if rg_disposed rg then (Inl Plain_Error, rg)
      else if rg_catalog rg \<noteq> None then (Inr (), rg)
      else case rg_initializing rg of
        Some promise \<Rightarrow> (promise, rg)
      | None \<Rightarrow>
          let (res, rg1) = initializeCatalog cfg answer disposes rg
          in (res, rg1\<lparr>rg_initializing := Some res\<rparr>))"

text \<open>
  \<open>upsertCatalogEntry\<close> up to its update: the entry, and the catalog to write if it changed.
  \<open>writeCatalog\<close> parses the new catalog before it updates the store.
\<close>

definition parsed_catalog ::
  "registry_config \<Rightarrow> catalog_entry list \<Rightarrow> (mesh_error, catalog_entry list) result" where
  "parsed_catalog cfg workspaces =
     (case workspaceCatalogV2Schema (rc_formats cfg) workspaces of
        None \<Rightarrow> Inl Zod_Error | Some next_catalog \<Rightarrow> Inr next_catalog)"

definition upsertCatalogEntry ::
  "registry_config \<Rightarrow> int \<Rightarrow> string \<Rightarrow> claim_params \<Rightarrow> catalog_entry list
     \<Rightarrow> (mesh_error, catalog_entry \<times> catalog_entry list option) result" where
  "upsertCatalogEntry cfg now fresh_id input catalog =
     (let byIdentity = find (\<lambda>c. ce_workspaceIdentity c = cp_workspaceIdentity input) catalog;
          clash = (case cp_workspaceId input of
             None \<Rightarrow> False
           | Some i \<Rightarrow>
               (case find (\<lambda>c. ce_workspaceId c = i) catalog of
                  None \<Rightarrow> False | Some c \<Rightarrow> ce_workspaceIdentity c \<noteq> cp_workspaceIdentity input)
               \<or> (case byIdentity of None \<Rightarrow> False | Some c \<Rightarrow> ce_workspaceId c \<noteq> i))
      in if clash then Inl (mesh_fail WORKSPACE_BUSY)
         else case byIdentity of
           Some c \<Rightarrow>
             if ce_name c = cp_name input \<and> ce_capabilityTags c = cp_capabilityTags input
             then Inr (c, None)
             else (case workspaceCatalogEntrySchema (rc_formats cfg)
                     (c\<lparr>ce_name := cp_name input, ce_capabilityTags := cp_capabilityTags input,
                        ce_updatedAt := to_iso_string now\<rparr>) of
                   None \<Rightarrow> Inl Zod_Error
                 | Some updated \<Rightarrow>
                     bindR (parsed_catalog cfg
                       (map (\<lambda>w. if ce_workspaceId w = ce_workspaceId updated then updated else w) catalog))
                       (\<lambda>next_catalog. Inr (updated, Some next_catalog)))
         | None \<Rightarrow>
             if workspaceListCount \<le> length catalog then Inl (mesh_fail WORKSPACE_BUSY)
             else (case workspaceCatalogEntrySchema (rc_formats cfg)
                     \<lparr>ce_workspaceId = (case cp_workspaceId input of None \<Rightarrow> fresh_id | Some i \<Rightarrow> i),
                      ce_workspaceIdentity = cp_workspaceIdentity input, ce_name = cp_name input,
                      ce_capabilityTags = cp_capabilityTags input, ce_enabled = True,
                      ce_createdAt = to_iso_string now, ce_updatedAt = to_iso_string now\<rparr> of
                   None \<Rightarrow> Inl Zod_Error
                 | Some entry \<Rightarrow>
                     bindR (parsed_catalog cfg (catalog @ [entry]))
                       (\<lambda>next_catalog. Inr (entry, Some next_catalog))))"

text \<open>The rest of \<open>writeCatalog\<close>, once the store has answered.\<close>

definition store_catalog :: "update_answer \<Rightarrow> catalog_entry list option \<Rightarrow> unit registry_op" where
  "store_catalog answer written rg =
     (case written of
        None \<Rightarrow> (Inr (), rg)
      | Some next_catalog \<Rightarrow>
          (case answer of
             Update_Done \<Rightarrow>
               (Inr (), rg\<lparr>rg_catalog := Some next_catalog, rg_stored := Some (Catalog_V2 next_catalog)\<rparr>)
           | Update_Refused \<Rightarrow> (Inl Plain_Error, rg)
           | Update_Then_Refused \<Rightarrow> (Inl Plain_Error, rg\<lparr>rg_stored := Some (Catalog_V2 next_catalog)\<rparr>)))"

section \<open>Claiming and releasing workspaces\<close>

text \<open>A claim that waits for the state store: what the call has in its variables.\<close>

record pending_claim =
  pc_input :: claim_params
  pc_ref :: nat
  pc_entry :: catalog_entry
  pc_written :: "catalog_entry list option"

definition claim_identity :: "claim_params \<Rightarrow> node_identity" where
  "claim_identity p = \<lparr>ni_nodeId = cp_nodeId p, ni_nodeInstanceId = cp_nodeInstanceId p\<rparr>"

definition claim_begin ::
  "registry_config \<Rightarrow> int \<Rightarrow> string \<Rightarrow> claim_params \<Rightarrow> registry \<Rightarrow> (mesh_error, pending_claim) result" where
  "claim_begin cfg now fresh_id params rg =
     bindR (assertReady rg) (\<lambda>_.
       case nodeWorkspaceClaimParamsSchema (rc_formats cfg) params of
         None \<Rightarrow> Inl Zod_Error
       | Some input \<Rightarrow>
           bindR (requireLiveNode rg (claim_identity input)) (\<lambda>nd.
           bindR (upsertCatalogEntry cfg now fresh_id input
                    (catalog_of rg)) (\<lambda>(entry, written).
             Inr \<lparr>pc_input = input, pc_ref = nd_ref nd, pc_entry = entry, pc_written = written\<rparr>)))"

record claim_result =
  cr_workspaceId :: string
  cr_status :: claim_status
  cr_canExecute :: bool

definition claimResult :: "string \<Rightarrow> claim_status \<Rightarrow> claim_result" where
  "claimResult workspaceId status =
     \<lparr>cr_workspaceId = workspaceId, cr_status = status, cr_canExecute = (status = Claimed)\<rparr>"

text \<open>Both maps of the node get the same observation object.\<close>

definition observe :: "claim_params \<Rightarrow> string \<Rightarrow> claim_status \<Rightarrow> node_record \<Rightarrow> node_record" where
  "observe input workspaceId status nd =
     (let ob = \<lparr>ob_workspaceId = workspaceId, ob_workspaceIdentity = cp_workspaceIdentity input,
                ob_status = status\<rparr>
      in nd\<lparr>nd_workspaces := js_set (cp_workspaceIdentity input) ob (nd_workspaces nd),
            nd_workspaceHistory := js_set (cp_workspaceIdentity input) ob (nd_workspaceHistory nd)\<rparr>)"

definition claim_resume :: "update_answer \<Rightarrow> pending_claim \<Rightarrow> claim_result registry_op" where
  "claim_resume answer pc rg0 =
     (case store_catalog answer (pc_written pc) rg0 of
        (Inl e, rg) \<Rightarrow> (Inl e, rg)
      | (Inr _, rg) \<Rightarrow>
        let input = pc_input pc; workspaceId = ce_workspaceId (pc_entry pc);
            identity = cp_workspaceIdentity input in
        (case requireLiveNode rg (claim_identity input) of
           Inl e \<Rightarrow> (Inl e, rg)
         | Inr nd \<Rightarrow>
           if nd_ref nd \<noteq> pc_ref pc then (Inl unavailable, rg)
           else if \<not> ce_enabled (pc_entry pc)
           then (Inr (claimResult workspaceId Read_Only), put_node (observe input workspaceId Read_Only nd) rg)
           else if (case js_get (rg_claims rg) identity of None \<Rightarrow> False
                    | Some c \<Rightarrow> cl_nodeId c \<noteq> nd_nodeId nd \<or> cl_nodeInstanceId c \<noteq> nd_nodeInstanceId nd)
           then (Inr (claimResult workspaceId Claim_Conflict),
                 put_node (observe input workspaceId Claim_Conflict nd) rg)
           else if (case js_get (nd_workspaces nd) identity of None \<Rightarrow> False
                    | Some ob \<Rightarrow> ob_workspaceId ob \<noteq> workspaceId)
           then (Inl (mesh_fail WORKSPACE_BUSY), rg)
           else (Inr (claimResult workspaceId Claimed),
                 put_node (observe input workspaceId Claimed nd)
                   (rg\<lparr>rg_claims := js_set identity
                      \<lparr>cl_workspaceIdentity = identity, cl_workspaceId = workspaceId,
                       cl_nodeId = nd_nodeId nd, cl_nodeInstanceId = nd_nodeInstanceId nd\<rparr>
                      (rg_claims rg)\<rparr>))))"

text \<open>The whole call: \<open>meanwhile\<close> is what the synchronous operations do during the await.\<close>

definition claimWorkspace ::
  "registry_config \<Rightarrow> int \<Rightarrow> string \<Rightarrow> update_answer \<Rightarrow> (registry \<Rightarrow> registry) \<Rightarrow> claim_params
     \<Rightarrow> claim_result registry_op" where
  "claimWorkspace cfg now fresh_id answer meanwhile params rg =
     (case claim_begin cfg now fresh_id params rg of
        Inl e \<Rightarrow> (Inl e, rg)
      | Inr pc \<Rightarrow> claim_resume answer pc (meanwhile rg))"

definition releaseWorkspace :: "registry_config \<Rightarrow> release_params \<Rightarrow> unit registry_op" where
  "releaseWorkspace cfg params rg =
     (case assertReady rg of Inl e \<Rightarrow> (Inl e, rg) | Inr _ \<Rightarrow>
      case nodeWorkspaceReleaseParamsSchema (rc_formats cfg) params of None \<Rightarrow> (Inl Zod_Error, rg) | Some input \<Rightarrow>
      case requireLiveNode rg \<lparr>ni_nodeId = lp_nodeId input, ni_nodeInstanceId = lp_nodeInstanceId input\<rparr> of
        Inl e \<Rightarrow> (Inl e, rg)
      | Inr nd \<Rightarrow>
        case find (\<lambda>ob. ob_workspaceId ob = lp_workspaceId input) (js_values (nd_workspaces nd)) of
          None \<Rightarrow> (Inr (), rg)
        | Some ob \<Rightarrow>
          let identity = ob_workspaceIdentity ob;
              claims = (case js_get (rg_claims rg) identity of
                 None \<Rightarrow> rg_claims rg
               | Some c \<Rightarrow>
                   if cl_nodeId c = lp_nodeId input \<and> cl_nodeInstanceId c = lp_nodeInstanceId input
                   then js_delete identity (rg_claims rg) else rg_claims rg)
          in (Inr (), put_node
                (nd\<lparr>nd_workspaces := js_delete identity (nd_workspaces nd),
                    nd_workspaceHistory := js_delete identity (nd_workspaceHistory nd)\<rparr>)
                (rg\<lparr>rg_claims := claims\<rparr>)))"

section \<open>Task routes\<close>

definition taskRouteRequestSchema :: "formats \<Rightarrow> route_request \<Rightarrow> route_request option" where
  "taskRouteRequestSchema fmt q =
     (if fmt_uuid fmt (rr_nodeId q) \<and> fmt_uuid fmt (rr_nodeInstanceId q) \<and> fmt_uuid fmt (rr_workspaceId q)
         \<and> fmt_uuid fmt (rr_ownerId q) \<and> fmt_uuid fmt (rr_taskId q)
         \<and> opt_all (fmt_uuid fmt) (rr_sourceNodeId q) \<and> opt_all (fmt_uuid fmt) (rr_sourceNodeInstanceId q)
         \<and> opt_all (fmt_uuid fmt) (rr_remotePeerId q)
      then let p = \<lparr>rr_nodeId = js_lower (rr_nodeId q), rr_nodeInstanceId = js_lower (rr_nodeInstanceId q),
               rr_workspaceId = js_lower (rr_workspaceId q), rr_ownerId = js_lower (rr_ownerId q),
               rr_taskId = js_lower (rr_taskId q),
               rr_sourceNodeId = map_option js_lower (rr_sourceNodeId q),
               rr_sourceNodeInstanceId = map_option js_lower (rr_sourceNodeInstanceId q),
               rr_remotePeerId = map_option js_lower (rr_remotePeerId q)\<rparr> in
        if rr_remotePeerId p \<noteq> None
           \<and> (rr_remotePeerId p \<noteq> Some (rr_ownerId p) \<or> rr_sourceNodeId p \<noteq> None)
           \<or> (rr_sourceNodeId p = None) \<noteq> (rr_sourceNodeInstanceId p = None)
        then None else Some p
      else None)"

definition sameTaskBinding :: "task_binding \<Rightarrow> route_request \<Rightarrow> string \<Rightarrow> bool" where
  "sameTaskBinding b q workspaceLeaseKey \<longleftrightarrow>
     rr_nodeId (tb_request b) = rr_nodeId q \<and> rr_nodeInstanceId (tb_request b) = rr_nodeInstanceId q
     \<and> rr_workspaceId (tb_request b) = rr_workspaceId q \<and> rr_ownerId (tb_request b) = rr_ownerId q
     \<and> rr_taskId (tb_request b) = rr_taskId q \<and> tb_workspaceLeaseKey b = workspaceLeaseKey"

definition peerRouteAuthorizationContext ::
  "registry_config \<Rightarrow> registry \<Rightarrow> route_request \<Rightarrow> (mesh_error, auth_context) result" where
  "peerRouteAuthorizationContext cfg rg q =
     bindR (case (rr_sourceNodeId q, rr_sourceNodeInstanceId q) of
              (Some n, Some i) \<Rightarrow> peerNode cfg \<lparr>ni_nodeId = n, ni_nodeInstanceId = i\<rparr> rg
            | _ \<Rightarrow> Inr None) (\<lambda>source.
     bindR (peerNode cfg \<lparr>ni_nodeId = rr_nodeId q, ni_nodeInstanceId = rr_nodeInstanceId q\<rparr> rg) (\<lambda>target.
       Inr \<lparr>ac_source = source, ac_target = target,
            ac_targetWorkspaceIdentity = map_option ce_workspaceIdentity
              (find (\<lambda>c. ce_workspaceId c = rr_workspaceId q)
                 (catalog_of rg))\<rparr>))"

definition authorize_route ::
  "registry_config \<Rightarrow> registry \<Rightarrow> route_request \<Rightarrow> (mesh_error, unit) result" where
  "authorize_route cfg rg q =
     (case rg_authorizer rg of
        None \<Rightarrow> Inr ()
      | Some a \<Rightarrow> bindR (peerRouteAuthorizationContext cfg rg q) (rc_assertRouteAllowed cfg a q))"

definition requireAvailableTaskRoute ::
  "registry_config \<Rightarrow> registry \<Rightarrow> route_request
     \<Rightarrow> (mesh_error, route_request \<times> node_record \<times> active_claim) result" where
  "requireAvailableTaskRoute cfg rg request =
     bindR (assertReady rg) (\<lambda>_.
       case taskRouteRequestSchema (rc_formats cfg) request of
         None \<Rightarrow> Inl Zod_Error
       | Some q \<Rightarrow>
         bindR (authorize_route cfg rg q) (\<lambda>_.
         bindR (requireLiveNode rg \<lparr>ni_nodeId = rr_nodeId q, ni_nodeInstanceId = rr_nodeInstanceId q\<rparr>) (\<lambda>nd.
         case find (\<lambda>c. cl_workspaceId c = rr_workspaceId q \<and> cl_nodeId c = rr_nodeId q
                        \<and> cl_nodeInstanceId c = rr_nodeInstanceId q) (js_values (rg_claims rg)) of
           None \<Rightarrow> Inl (mesh_fail WORKSPACE_NOT_FOUND)
         | Some claim \<Rightarrow>
           if (case find (\<lambda>c. ce_workspaceId c = cl_workspaceId claim)
                      (catalog_of rg) of
                 None \<Rightarrow> True | Some c \<Rightarrow> \<not> ce_enabled c)
           then Inl (mesh_fail WORKSPACE_DISABLED)
           else if (case js_get (rg_taskBindings rg) (rr_taskId q) of
                      None \<Rightarrow> False
                    | Some b \<Rightarrow> \<not> sameTaskBinding b q (cl_workspaceIdentity claim))
           then Inl (mesh_fail TASK_ID_CONFLICT)
           else if (case lease_owner_of (rg_leases rg) (cl_workspaceIdentity claim) of
                      None \<Rightarrow> False
                    | Some h \<Rightarrow> lo_peerId h \<noteq> rr_ownerId q \<or> lo_taskId h \<noteq> rr_taskId q)
           then Inl (mesh_fail WORKSPACE_BUSY)
           else Inr (q, nd, claim))))"

definition CODESPACE_EXECUTION_CAPABILITY :: string where
  "CODESPACE_EXECUTION_CAPABILITY = ''codespace-owned''"

record task_route =
  ro_session :: nat
  ro_codespaceOwned :: bool
  ro_workspaceLeaseKey :: string
  ro_contextTaskId :: string
  ro_contextCapability :: string

definition new_binding ::
  "string \<Rightarrow> registry \<Rightarrow> route_request \<Rightarrow> node_record \<Rightarrow> active_claim \<Rightarrow> task_binding" where
  "new_binding capability rg q nd claim =
     (let context = (case js_get (rg_taskBindings rg) (rr_taskId q) of
            None \<Rightarrow> (rr_taskId q, capability)
          | Some b \<Rightarrow> (tb_contextTaskId b, tb_contextCapability b))
      in \<lparr>tb_request = q,
          tb_codespaceOwned = (CODESPACE_EXECUTION_CAPABILITY \<in> set (nd_capabilities nd)),
          tb_workspaceLeaseKey = cl_workspaceIdentity claim,
          tb_contextTaskId = fst context, tb_contextCapability = snd context\<rparr>)"

definition acquireTaskRoute ::
  "registry_config \<Rightarrow> string \<Rightarrow> route_request \<Rightarrow> task_route registry_op" where
  "acquireTaskRoute cfg capability request rg =
     (case requireAvailableTaskRoute cfg rg request of
        Inl e \<Rightarrow> (Inl e, rg)
      | Inr (q, nd, claim) \<Rightarrow>
          case acquire (rc_formats cfg) (cl_workspaceIdentity claim) (rr_ownerId q) (rr_taskId q) (rg_leases rg) of
            Inl e \<Rightarrow> (Inl e, rg)
          | Inr leases \<Rightarrow>
              let b = new_binding capability rg q nd claim;
                  rg1 = rg\<lparr>rg_leases := leases, rg_taskBindings := js_set (rr_taskId q) b (rg_taskBindings rg)\<rparr>
              in case nd_session nd of
                   None \<Rightarrow> (Inl Type_Error, rg1)
                 | Some s \<Rightarrow> (Inr \<lparr>ro_session = s, ro_codespaceOwned = tb_codespaceOwned b,
                     ro_workspaceLeaseKey = tb_workspaceLeaseKey b, ro_contextTaskId = tb_contextTaskId b,
                     ro_contextCapability = tb_contextCapability b\<rparr>, rg1))"

definition validateTaskRoute :: "registry_config \<Rightarrow> route_request \<Rightarrow> registry \<Rightarrow> (mesh_error, unit) result" where
  "validateTaskRoute cfg request rg = bindR (requireAvailableTaskRoute cfg rg request) (\<lambda>_. Inr ())"

definition releaseTaskRoute :: "registry_config \<Rightarrow> int \<Rightarrow> string \<Rightarrow> string \<Rightarrow> bool registry_op" where
  "releaseTaskRoute cfg now ownerId taskId rg =
     (case (uuidSchema (rc_formats cfg) ownerId, uuidSchema (rc_formats cfg) taskId) of
        (Some p, Some t) \<Rightarrow>
          (case js_get (rg_taskBindings rg) t of
             None \<Rightarrow> (Inr False, rg)
           | Some b \<Rightarrow>
               if rr_ownerId (tb_request b) \<noteq> p then (Inr False, rg)
               else (case release (rc_formats cfg) (tb_workspaceLeaseKey b) p t (rg_leases rg) of
                   Inl e \<Rightarrow> (Inl e, rg)
                 | Inr leases \<Rightarrow>
                     (Inr True, pruneOfflineTombstones cfg now
                        (rg\<lparr>rg_leases := leases, rg_taskBindings := js_delete t (rg_taskBindings rg)\<rparr>))))
      | _ \<Rightarrow> (Inl Zod_Error, rg))"

definition lookupTaskRoute ::
  "registry_config \<Rightarrow> string \<Rightarrow> string \<Rightarrow> registry \<Rightarrow> (mesh_error, (task_binding \<times> nat) option) result" where
  "lookupTaskRoute cfg ownerId taskId rg =
     bindR (assertReady rg) (\<lambda>_.
       case (uuidSchema (rc_formats cfg) ownerId, uuidSchema (rc_formats cfg) taskId) of
         (Some p, Some t) \<Rightarrow>
           (case js_get (rg_taskBindings rg) t of
              None \<Rightarrow> Inr None
            | Some b \<Rightarrow>
                if rr_ownerId (tb_request b) \<noteq> p then Inr None
                else case js_get (rg_nodes rg) (rr_nodeId (tb_request b)) of
                  None \<Rightarrow> Inr None
                | Some nd \<Rightarrow>
                    if nd_nodeInstanceId nd \<noteq> rr_nodeInstanceId (tb_request b)
                       \<or> nd_status nd = Node_Offline \<or> \<not> session_open rg nd
                    then Inr None else Inr (map_option (Pair b) (nd_session nd)))
       | _ \<Rightarrow> Inl Zod_Error)"

record task_event_identity =
  te_nodeId :: string
  te_nodeInstanceId :: string
  te_taskId :: string

definition nodeTaskEventIdentitySchema :: "formats \<Rightarrow> task_event_identity \<Rightarrow> task_event_identity option" where
  "nodeTaskEventIdentitySchema fmt e =
     (if fmt_uuid fmt (te_nodeId e) \<and> fmt_uuid fmt (te_nodeInstanceId e) \<and> fmt_uuid fmt (te_taskId e)
      then Some \<lparr>te_nodeId = js_lower (te_nodeId e), te_nodeInstanceId = js_lower (te_nodeInstanceId e),
                 te_taskId = js_lower (te_taskId e)\<rparr>
      else None)"

definition authenticateTaskEvent ::
  "registry_config \<Rightarrow> nat \<Rightarrow> task_event_identity \<Rightarrow> registry \<Rightarrow> (mesh_error, task_binding) result" where
  "authenticateTaskEvent cfg s event rg =
     bindR (assertReady rg) (\<lambda>_.
       case nodeTaskEventIdentitySchema (rc_formats cfg) event of
         None \<Rightarrow> Inl Zod_Error
       | Some i \<Rightarrow>
           case (js_get (rg_taskBindings rg) (te_taskId i), js_get (rg_nodes rg) (te_nodeId i)) of
             (Some b, Some nd) \<Rightarrow>
               if \<not> bound_to (te_nodeId i) (te_nodeInstanceId i) b
                  \<or> nd_nodeInstanceId nd \<noteq> te_nodeInstanceId i
                  \<or> nd_status nd = Node_Offline \<or> nd_session nd \<noteq> Some s \<or> s \<in> set (rg_closed rg)
               then Inl unavailable else Inr b
           | _ \<Rightarrow> Inl unavailable)"

section \<open>Enabling workspaces, disposal\<close>

definition catalogSnapshot :: "registry \<Rightarrow> (mesh_error, catalog_entry list) result" where
  "catalogSnapshot rg =
     bindR (assertReady rg) (\<lambda>_. Inr (catalog_of rg))"

definition index_where :: "('a \<Rightarrow> bool) \<Rightarrow> 'a list \<Rightarrow> nat option" where
  "index_where P xs = find (\<lambda>i. P (xs ! i)) [0..<length xs]"

definition enable_begin ::
  "registry_config \<Rightarrow> int \<Rightarrow> string \<Rightarrow> bool \<Rightarrow> registry
     \<Rightarrow> (mesh_error, catalog_entry \<times> catalog_entry \<times> catalog_entry list) result" where
  "enable_begin cfg now workspaceId enabled rg =
     bindR (assertReady rg) (\<lambda>_.
       case uuidSchema (rc_formats cfg) workspaceId of
         None \<Rightarrow> Inl Zod_Error
       | Some i \<Rightarrow>
         let catalog = (catalog_of rg) in
         case index_where (\<lambda>c. ce_workspaceId c = i) catalog of
           None \<Rightarrow> Inl (mesh_fail WORKSPACE_NOT_FOUND)
         | Some index \<Rightarrow>
           let current = catalog ! index in
           if \<not> enabled \<and> isLeased (rg_leases rg) (ce_workspaceIdentity current)
           then Inl (mesh_fail WORKSPACE_BUSY)
           else case workspaceCatalogEntrySchema (rc_formats cfg)
               (current\<lparr>ce_enabled := enabled, ce_updatedAt := to_iso_string now\<rparr>) of
             None \<Rightarrow> Inl Zod_Error
           | Some updated \<Rightarrow>
               bindR (parsed_catalog cfg (catalog[index := updated]))
                 (\<lambda>next_catalog. Inr (current, updated, next_catalog)))"

text \<open>Demoting an observation changes the object both maps of the node share.\<close>

definition demote_in :: "string \<Rightarrow> (string, observation) jsmap \<Rightarrow> (string, observation) jsmap" where
  "demote_in identity m =
     (case js_get m identity of None \<Rightarrow> m | Some ob \<Rightarrow> js_set identity (ob\<lparr>ob_status := Read_Only\<rparr>) m)"

definition demote :: "string \<Rightarrow> node_record \<Rightarrow> node_record" where
  "demote identity nd =
     (case js_get (nd_workspaces nd) identity of
        None \<Rightarrow> nd
      | Some ob \<Rightarrow> nd\<lparr>nd_workspaces := demote_in identity (nd_workspaces nd),
                     nd_workspaceHistory := demote_in identity (nd_workspaceHistory nd)\<rparr>)"

definition enable_resume ::
  "update_answer \<Rightarrow> bool \<Rightarrow> catalog_entry \<times> catalog_entry \<times> catalog_entry list \<Rightarrow> catalog_entry registry_op" where
  "enable_resume answer enabled pending rg0 =
     (case pending of (current, updated, next_catalog) \<Rightarrow>
        case store_catalog answer (Some next_catalog) rg0 of
          (Inl e, rg) \<Rightarrow> (Inl e, rg)
        | (Inr _, rg) \<Rightarrow>
            if enabled then (Inr updated, rg)
            else (Inr updated,
              rg\<lparr>rg_claims := js_delete (ce_workspaceIdentity current) (rg_claims rg),
                 rg_nodes := map (\<lambda>(k, nd). (k, demote (ce_workspaceIdentity current) nd)) (rg_nodes rg)\<rparr>))"

definition setWorkspaceEnabled ::
  "registry_config \<Rightarrow> int \<Rightarrow> update_answer \<Rightarrow> (registry \<Rightarrow> registry) \<Rightarrow> string \<Rightarrow> bool \<Rightarrow> catalog_entry registry_op" where
  "setWorkspaceEnabled cfg now answer meanwhile workspaceId enabled rg =
     (case enable_begin cfg now workspaceId enabled rg of
        Inl e \<Rightarrow> (Inl e, rg)
      | Inr pending \<Rightarrow> enable_resume answer enabled pending (meanwhile rg))"

definition dispose_node :: "int \<Rightarrow> string \<Rightarrow> registry \<Rightarrow> registry" where
  "dispose_node now nodeId rg =
     (case js_get (rg_nodes rg) nodeId of
        None \<Rightarrow> rg
      | Some nd \<Rightarrow>
          if nd_status nd \<noteq> Node_Offline then loseNode now True nd rg
          else put_node (nd\<lparr>nd_listening := False\<rparr>) rg)"

definition dispose :: "int \<Rightarrow> registry \<Rightarrow> registry" where
  "dispose now rg =
     (if rg_disposed rg then rg
      else (fold (dispose_node now) (map fst (rg_nodes rg)) (rg\<lparr>rg_timer := False\<rparr>))\<lparr>rg_disposed := True\<rparr>)"

end
