(* ===== verification/Registry_Safety.thy ===== *)
theory Registry_Safety
  imports Node_Registry
begin

text \<open>
  What the node registry guarantees: its invariant, preserved by every call with any other calls
  running while it waits, and what follows for exclusive claims, route authentication, delegation
  and the directory.
\<close>

section \<open>Runs\<close>

text \<open>The synchronous calls, the close of a session by its transport, and queued microtasks.\<close>

datatype sync_call =
    Register string register_params nat
  | Heartbeat heartbeat_params
  | Unregister node_identity bool
  | Sweep
  | Release_Workspace release_params
  | Release_Route string string
  | Set_Authorizer nat
  | Dispose
  | Close_Session nat
  | Microtask

fun run_sync :: "registry_config \<Rightarrow> int \<times> sync_call \<Rightarrow> registry \<Rightarrow> registry" where
  "run_sync cfg (now, Register capability p s) rg = snd (register cfg now capability p s rg)"
| "run_sync cfg (now, Heartbeat p) rg = snd (heartbeat cfg now p rg)"
| "run_sync cfg (now, Unregister i c) rg = snd (unregister cfg now i c rg)"
| "run_sync cfg (now, Sweep) rg = snd (sweepExpired cfg now rg)"
| "run_sync cfg (now, Release_Workspace p) rg = snd (releaseWorkspace cfg p rg)"
| "run_sync cfg (now, Release_Route p t) rg = snd (releaseTaskRoute cfg now p t rg)"
| "run_sync cfg (now, Set_Authorizer a) rg = snd (setPeerRouteAuthorizer a rg)"
| "run_sync cfg (now, Dispose) rg = dispose now rg"
| "run_sync cfg (now, Close_Session s) rg = close_session now s rg"
| "run_sync cfg (now, Microtask) rg = run_microtask now rg"

text \<open>The calls that run exclusively; two of them wait, and any synchronous calls may run then.\<close>

datatype registry_call =
    Sync sync_call
  | Initialize update_answer bool
  | Claim string claim_params update_answer "(int \<times> sync_call) list"
  | Acquire_Route string route_request
  | Set_Enabled string bool update_answer "(int \<times> sync_call) list"

fun registry_step :: "registry_config \<Rightarrow> int \<times> registry_call \<Rightarrow> registry \<Rightarrow> registry" where
  "registry_step cfg (now, Sync c) rg = run_sync cfg (now, c) rg"
| "registry_step cfg (now, Initialize answer disposes) rg = snd (initialize cfg answer disposes rg)"
| "registry_step cfg (now, Claim fresh_id p answer meanwhile) rg =
     snd (claimWorkspace cfg now fresh_id answer (fold (run_sync cfg) meanwhile) p rg)"
| "registry_step cfg (now, Acquire_Route capability q) rg = snd (acquireTaskRoute cfg capability q rg)"
| "registry_step cfg (now, Set_Enabled w e answer meanwhile) rg =
     snd (setWorkspaceEnabled cfg now answer (fold (run_sync cfg) meanwhile) w e rg)"

section \<open>The invariant\<close>

definition known :: "catalog_entry list \<Rightarrow> string \<Rightarrow> string \<Rightarrow> bool" where
  "known cat w i \<longleftrightarrow> (\<exists>c \<in> set cat. ce_workspaceId c = w \<and> ce_workspaceIdentity c = i)"

definition catalog_ok :: "catalog_entry list \<Rightarrow> bool" where
  "catalog_ok cat \<longleftrightarrow>
     length cat \<le> workspaceListCount \<and> distinct (map ce_workspaceId cat)
     \<and> distinct (map ce_workspaceIdentity cat)
     \<and> (\<forall>c \<in> set cat. js_lower (ce_workspaceId c) = ce_workspaceId c)"

definition claimed_by :: "node_record \<Rightarrow> active_claim \<Rightarrow> bool" where
  "claimed_by nd c \<longleftrightarrow> cl_nodeId c = nd_nodeId nd \<and> cl_nodeInstanceId c = nd_nodeInstanceId nd"

text \<open>
  A node, given the closed sessions, the catalog and the claims. While the session \<open>s\<close> is being
  closed, the nodes in \<open>X\<close> may still wait for their close listener.
\<close>

record node_context =
  nc_closed :: "nat list"
  nc_catalog :: "catalog_entry list"
  nc_claims :: "string \<Rightarrow> active_claim option"

definition opened :: "nat list \<Rightarrow> node_record \<Rightarrow> bool" where
  "opened closed nd \<longleftrightarrow> (\<exists>s. nd_session nd = Some s \<and> s \<notin> set closed)"

definition node_ok :: "nat \<Rightarrow> string set \<Rightarrow> node_context \<Rightarrow> string \<Rightarrow> node_record \<Rightarrow> bool" where
  "node_ok s X nc k nd \<longleftrightarrow>
     nd_nodeId nd = k \<and> (nd_status nd = Node_Offline \<longleftrightarrow> nd_session nd = None)
     \<and> (opened (nc_closed nc) nd \<longrightarrow> nd_listening nd)
     \<and> (opened (nc_closed nc) nd \<or> nd_workspaces nd = []
        \<or> k \<in> X \<and> nd_listening nd \<and> nd_session nd = Some s)
     \<and> js_wf (nd_workspaces nd) \<and> js_wf (nd_workspaceHistory nd)
     \<and> (\<forall>i ob. js_get (nd_workspaces nd) i = Some ob \<longrightarrow> js_get (nd_workspaceHistory nd) i = Some ob)
     \<and> (\<forall>i ob. js_get (nd_workspaceHistory nd) i = Some ob \<longrightarrow>
          ob_workspaceIdentity ob = i \<and> known (nc_catalog nc) (ob_workspaceId ob) i)
     \<and> (\<forall>i ob. js_get (nd_workspaces nd) i = Some ob \<longrightarrow> ob_status ob = Claimed \<longrightarrow>
          (\<exists>c. nc_claims nc i = Some c \<and> claimed_by nd c \<and> cl_workspaceId c = ob_workspaceId ob))"

definition claim_ok :: "catalog_entry list \<Rightarrow> (string \<Rightarrow> node_record option) \<Rightarrow> string \<Rightarrow> active_claim \<Rightarrow> bool" where
  "claim_ok cat N i c \<longleftrightarrow>
     cl_workspaceIdentity c = i
     \<and> (\<exists>nd ob. N (cl_nodeId c) = Some nd \<and> nd_nodeInstanceId nd = cl_nodeInstanceId c
          \<and> js_get (nd_workspaces nd) i = Some ob \<and> ob_status ob = Claimed
          \<and> ob_workspaceId ob = cl_workspaceId c)
     \<and> (\<exists>e \<in> set cat. ce_workspaceId e = cl_workspaceId c \<and> ce_workspaceIdentity e = i \<and> ce_enabled e)"

definition unique_instances :: "(string \<Rightarrow> node_record option) \<Rightarrow> bool" where
  "unique_instances N \<longleftrightarrow>
     (\<forall>k nd j nd'. N k = Some nd \<longrightarrow> N j = Some nd' \<longrightarrow>
        nd_nodeInstanceId nd = nd_nodeInstanceId nd' \<longrightarrow> k = j)"

definition view_ok ::
  "nat \<Rightarrow> string set \<Rightarrow> node_context \<Rightarrow> (string \<Rightarrow> node_record option) \<Rightarrow> bool" where
  "view_ok s X nc N \<longleftrightarrow>
     unique_instances N \<and> (\<forall>k nd. N k = Some nd \<longrightarrow> node_ok s X nc k nd)
     \<and> (\<forall>i c. nc_claims nc i = Some c \<longrightarrow> claim_ok (nc_catalog nc) N i c)"

lemma view_node: "view_ok s X nc N \<Longrightarrow> N k = Some nd \<Longrightarrow> node_ok s X nc k nd"
  by (simp add: view_ok_def)

lemma view_claim: "view_ok s X nc N \<Longrightarrow> nc_claims nc i = Some c \<Longrightarrow> claim_ok (nc_catalog nc) N i c"
  by (simp add: view_ok_def)

text \<open>Changing one node and the claims it holds.\<close>

lemma view_update:
  assumes v: "view_ok s X nc N" and node: "node_ok s Y (nc\<lparr>nc_claims := C'\<rparr>) k nd'"
    and Y: "X - {k} \<subseteq> Y"
    and fresh: "\<And>j nd. N j = Some nd \<Longrightarrow> nd_nodeInstanceId nd = nd_nodeInstanceId nd' \<Longrightarrow> j = k"
    and others: "\<And>i c. nc_claims nc i = Some c \<Longrightarrow> cl_nodeId c \<noteq> k \<Longrightarrow> C' i = Some c"
    and own: "\<And>i c. C' i = Some c \<Longrightarrow> nc_claims nc i = Some c \<and> cl_nodeId c \<noteq> k
      \<or> claim_ok (nc_catalog nc) (N(k \<mapsto> nd')) i c"
  shows "view_ok s Y (nc\<lparr>nc_claims := C'\<rparr>) (N(k \<mapsto> nd'))"
  unfolding view_ok_def
proof (intro conjI allI impI)
  show "unique_instances (N(k \<mapsto> nd'))"
    using v fresh unfolding view_ok_def unique_instances_def by (metis fun_upd_apply option.inject)
  fix j nd assume j: "(N(k \<mapsto> nd')) j = Some nd"
  show "node_ok s Y (nc\<lparr>nc_claims := C'\<rparr>) j nd"
  proof (cases "j = k")
    case True with j node show ?thesis by simp
  next
    case False
    with j have "node_ok s X nc j nd" using view_node [OF v] by simp
    moreover from this False have "\<And>i c. nc_claims nc i = Some c \<Longrightarrow> claimed_by nd c \<Longrightarrow> C' i = Some c"
      using others by (auto simp: node_ok_def claimed_by_def)
    ultimately show ?thesis using False Y by (auto simp: node_ok_def) blast+
  qed
next
  fix i c assume c: "nc_claims (nc\<lparr>nc_claims := C'\<rparr>) i = Some c"
  then show "claim_ok (nc_catalog (nc\<lparr>nc_claims := C'\<rparr>)) (N(k \<mapsto> nd')) i c"
    using own [of i c] view_claim [OF v, of i c] by (auto simp: claim_ok_def)
qed

text \<open>Removing nodes that observe nothing.\<close>

lemma view_remove:
  assumes v: "view_ok s X nc N" and sub: "N' \<subseteq>\<^sub>m N"
    and gone: "\<And>k nd. N k = Some nd \<Longrightarrow> N' k = None \<Longrightarrow> nd_workspaces nd = []"
  shows "view_ok s X nc N'"
  unfolding view_ok_def
proof (intro conjI allI impI)
  have sub': "N' k = Some nd \<Longrightarrow> N k = Some nd" for k nd
    using sub by (auto simp: map_le_def dom_def)
  show "unique_instances N'"
    using v sub' unfolding view_ok_def unique_instances_def by blast
  show "N' k = Some nd \<Longrightarrow> node_ok s X nc k nd" for k nd using v sub' by (simp add: view_ok_def)
  fix i c assume "nc_claims nc i = Some c"
  from view_claim [OF v this] obtain nd ob where nd: "N (cl_nodeId c) = Some nd"
    "js_get (nd_workspaces nd) i = Some ob" and c: "claim_ok (nc_catalog nc) N i c"
    by (auto simp: claim_ok_def)
  have "N' (cl_nodeId c) = Some nd"
    using gone [OF nd(1)] nd sub' [of "cl_nodeId c"] by (cases "N' (cl_nodeId c)") auto
  with c nd(1) show "claim_ok (nc_catalog nc) N' i c" by (auto simp: claim_ok_def)
qed


definition node_context_of :: "registry \<Rightarrow> node_context" where
  "node_context_of rg =
     \<lparr>nc_closed = rg_closed rg, nc_catalog = catalog_of rg, nc_claims = js_get (rg_claims rg)\<rparr>"

text \<open>Every bound task holds the lease on its workspace.\<close>

definition bindings_ok :: "registry \<Rightarrow> bool" where
  "bindings_ok rg \<longleftrightarrow>
     (\<forall>t b. js_get (rg_taskBindings rg) t = Some b \<longrightarrow>
        rr_taskId (tb_request b) = t
        \<and> lease_owner_of (rg_leases rg) (tb_workspaceLeaseKey b)
            = Some \<lparr>lo_peerId = rr_ownerId (tb_request b), lo_taskId = t\<rparr>)"

definition base_ok :: "registry \<Rightarrow> bool" where
  "base_ok rg \<longleftrightarrow>
     js_wf (rg_nodes rg) \<and> length (rg_nodes rg) \<le> nodeListCount \<and> js_wf (rg_claims rg)
     \<and> js_wf (rg_taskBindings rg) \<and> catalog_ok (catalog_of rg) \<and> bindings_ok rg"

definition registry_inv :: "nat \<Rightarrow> string set \<Rightarrow> registry \<Rightarrow> bool" where
  "registry_inv s X rg \<longleftrightarrow> base_ok rg \<and> view_ok s X (node_context_of rg) (js_get (rg_nodes rg))"

abbreviation registry_ok :: "registry \<Rightarrow> bool" where
  "registry_ok rg \<equiv> registry_inv 0 {} rg"

lemma inv_node: "registry_inv s X rg \<Longrightarrow> js_get (rg_nodes rg) k = Some nd \<Longrightarrow> node_ok s X (node_context_of rg) k nd"
  using view_node unfolding registry_inv_def by blast

lemma inv_claim: "registry_inv s X rg \<Longrightarrow> js_get (rg_claims rg) i = Some c
   \<Longrightarrow> claim_ok (catalog_of rg) (js_get (rg_nodes rg)) i c"
  using view_claim [of s X "node_context_of rg"] by (simp add: registry_inv_def node_context_of_def)

lemma inv_no_exceptions: "registry_inv s {} rg \<Longrightarrow> registry_inv s' {} rg"
  by (simp add: registry_inv_def view_ok_def node_ok_def)

lemma opened_iff: "opened (rg_closed rg) nd \<longleftrightarrow> session_open rg nd"
  by (auto simp: opened_def session_open_def split: option.split)

text \<open>Fields no part of the invariant looks at.\<close>

lemma view_context_simps [simp]:
  "node_context_of (rg\<lparr>rg_lost := l\<rparr>) = node_context_of rg"
  "node_context_of (rg\<lparr>rg_microtasks := m\<rparr>) = node_context_of rg"
  "node_context_of (rg\<lparr>rg_nodes := n\<rparr>) = node_context_of rg"
  "node_context_of (rg\<lparr>rg_nextRef := r\<rparr>) = node_context_of rg"
  "node_context_of (rg\<lparr>rg_timer := b\<rparr>) = node_context_of rg"
  "node_context_of (rg\<lparr>rg_disposed := b\<rparr>) = node_context_of rg"
  "node_context_of (rg\<lparr>rg_authorizer := a\<rparr>) = node_context_of rg"
  "node_context_of (rg\<lparr>rg_initializing := p\<rparr>) = node_context_of rg"
  "node_context_of (rg\<lparr>rg_stored := st\<rparr>) = node_context_of rg"
  "node_context_of (rg\<lparr>rg_claims := c\<rparr>) = (node_context_of rg)\<lparr>nc_claims := js_get c\<rparr>"
  "node_context_of (put_node nd rg) = node_context_of rg"
  by (simp_all add: node_context_of_def catalog_of_def put_node_def)

lemma base_simps [simp]:
  "base_ok (rg\<lparr>rg_lost := l\<rparr>) = base_ok rg" "base_ok (rg\<lparr>rg_microtasks := m\<rparr>) = base_ok rg"
  "base_ok (rg\<lparr>rg_nextRef := r\<rparr>) = base_ok rg" "base_ok (rg\<lparr>rg_timer := b\<rparr>) = base_ok rg"
  "base_ok (rg\<lparr>rg_disposed := b\<rparr>) = base_ok rg" "base_ok (rg\<lparr>rg_authorizer := a\<rparr>) = base_ok rg"
  "base_ok (rg\<lparr>rg_initializing := p\<rparr>) = base_ok rg" "base_ok (rg\<lparr>rg_stored := st\<rparr>) = base_ok rg"
  "base_ok (rg\<lparr>rg_closed := cs\<rparr>) = base_ok rg"
  by (simp_all add: base_ok_def bindings_ok_def catalog_of_def)

lemma inv_simps [simp]:
  "registry_inv s X (rg\<lparr>rg_lost := l\<rparr>) = registry_inv s X rg"
  "registry_inv s X (rg\<lparr>rg_microtasks := m\<rparr>) = registry_inv s X rg"
  "registry_inv s X (rg\<lparr>rg_nextRef := r\<rparr>) = registry_inv s X rg"
  "registry_inv s X (rg\<lparr>rg_timer := b\<rparr>) = registry_inv s X rg"
  "registry_inv s X (rg\<lparr>rg_disposed := b\<rparr>) = registry_inv s X rg"
  "registry_inv s X (rg\<lparr>rg_authorizer := a\<rparr>) = registry_inv s X rg"
  "registry_inv s X (rg\<lparr>rg_initializing := p\<rparr>) = registry_inv s X rg"
  "registry_inv s X (rg\<lparr>rg_stored := st\<rparr>) = registry_inv s X rg"
  "registry_inv s X (notify_lost bs rg) = registry_inv s X rg"
  by (simp_all add: registry_inv_def notify_lost_def)

text \<open>Replacing a stored node record and the claims.\<close>

lemma put_node_base:
  assumes "base_ok rg" "js_wf claims"
    and "js_get (rg_nodes rg) (nd_nodeId nd) = None \<longrightarrow> length (rg_nodes rg) < nodeListCount"
  shows "base_ok (put_node nd (rg\<lparr>rg_claims := claims\<rparr>))"
proof -
  have "length (js_set (nd_nodeId nd) nd (rg_nodes rg)) \<le> nodeListCount"
    using assms(1,3) by (auto simp: length_js_set base_ok_def map_of_eq_None_iff)
  with assms(1,2) show ?thesis
    by (simp add: base_ok_def put_node_def bindings_ok_def catalog_of_def js_wf_set)
qed

lemma put_node_inv:
  assumes inv: "registry_inv s X rg" and claims: "js_wf claims"
    and size: "js_get (rg_nodes rg) (nd_nodeId nd) = None \<longrightarrow> length (rg_nodes rg) < nodeListCount"
    and node: "node_ok s Y ((node_context_of rg)\<lparr>nc_claims := js_get claims\<rparr>) (nd_nodeId nd) nd"
    and Y: "X - {nd_nodeId nd} \<subseteq> Y"
    and fresh: "\<And>j n. js_get (rg_nodes rg) j = Some n \<Longrightarrow> nd_nodeInstanceId n = nd_nodeInstanceId nd \<Longrightarrow> j = nd_nodeId nd"
    and others: "\<And>i c. js_get (rg_claims rg) i = Some c \<Longrightarrow> cl_nodeId c \<noteq> nd_nodeId nd \<Longrightarrow> js_get claims i = Some c"
    and own: "\<And>i c. js_get claims i = Some c \<Longrightarrow> js_get (rg_claims rg) i = Some c \<and> cl_nodeId c \<noteq> nd_nodeId nd
      \<or> claim_ok (catalog_of rg) ((js_get (rg_nodes rg))(nd_nodeId nd \<mapsto> nd)) i c"
  shows "registry_inv s Y (put_node nd (rg\<lparr>rg_claims := claims\<rparr>))"
proof -
  have "base_ok rg" and v: "view_ok s X (node_context_of rg) (js_get (rg_nodes rg))"
    using inv by (simp_all add: registry_inv_def)
  have "view_ok s Y ((node_context_of rg)\<lparr>nc_claims := js_get claims\<rparr>) ((js_get (rg_nodes rg))(nd_nodeId nd \<mapsto> nd))"
    by (rule view_update [OF v node Y]) (use fresh others own in \<open>auto simp: node_context_of_def\<close>)
  with put_node_base [OF \<open>base_ok rg\<close> claims size] show ?thesis
    by (simp add: registry_inv_def) (simp add: put_node_def js_get_set)
qed

lemma drop_claims_get:
  "js_get (drop_claims nd C) i =
     (case js_get C i of None \<Rightarrow> None
      | Some c \<Rightarrow> if claimed_by nd c \<and> i \<in> ob_workspaceIdentity ` set (js_values (nd_workspaces nd))
                  then None else Some c)"
proof -
  have "js_get (fold (\<lambda>ob cs.
         case js_get cs (ob_workspaceIdentity ob) of None \<Rightarrow> cs
         | Some c \<Rightarrow> if cl_nodeId c = nd_nodeId nd \<and> cl_nodeInstanceId c = nd_nodeInstanceId nd
             then js_delete (ob_workspaceIdentity ob) cs else cs) obs C) i =
     (case js_get C i of None \<Rightarrow> None
      | Some c \<Rightarrow> if claimed_by nd c \<and> i \<in> ob_workspaceIdentity ` set obs then None else Some c)" for obs
    by (induction obs arbitrary: C) (auto simp: js_map claimed_by_def split: option.split)
  then show ?thesis by (simp add: drop_claims_def)
qed

lemma drop_claims_wf: "js_wf C \<Longrightarrow> js_wf (drop_claims nd C)"
proof -
  have "js_wf C \<Longrightarrow> js_wf (fold (\<lambda>ob cs.
         case js_get cs (ob_workspaceIdentity ob) of None \<Rightarrow> cs
         | Some c \<Rightarrow> if cl_nodeId c = nd_nodeId nd \<and> cl_nodeInstanceId c = nd_nodeInstanceId nd
             then js_delete (ob_workspaceIdentity ob) cs else cs) obs C)" for obs
    by (induction obs arbitrary: C) (auto simp: js_map split: option.split)
  then show "js_wf C \<Longrightarrow> js_wf (drop_claims nd C)" by (simp add: drop_claims_def)
qed

lemma take_offline_inv:
  assumes inv: "registry_inv s X rg" and nd: "js_get (rg_nodes rg) k = Some nd"
  shows "registry_inv s (X - {k}) (take_offline now nd rg)"
proof -
  note n = inv_node [OF inv nd]
  have id: "nd_nodeId nd = k" using n by (simp add: node_ok_def)
  have own: "js_get (drop_claims nd (rg_claims rg)) i = Some c \<Longrightarrow>
      js_get (rg_claims rg) i = Some c \<and> cl_nodeId c \<noteq> k" for i c
  proof -
    assume c: "js_get (drop_claims nd (rg_claims rg)) i = Some c"
    then have C: "js_get (rg_claims rg) i = Some c"
      by (auto simp: drop_claims_get split: option.splits if_splits)
    moreover have "cl_nodeId c \<noteq> k"
    proof
      assume k: "cl_nodeId c = k"
      with inv_claim [OF inv C] nd obtain ob where ob: "nd_nodeInstanceId nd = cl_nodeInstanceId c"
        "js_get (nd_workspaces nd) i = Some ob" by (auto simp: claim_ok_def)
      then have "ob_workspaceIdentity ob = i" using n by (auto simp: node_ok_def)
      moreover have "ob \<in> set (js_values (nd_workspaces nd))"
        using ob(2) map_of_SomeD [OF ob(2)] by force
      then have "i \<in> ob_workspaceIdentity ` set (js_values (nd_workspaces nd))"
        using calculation by blast
      then show False using c C k id ob(1) by (simp add: drop_claims_get claimed_by_def)
    qed
    ultimately show ?thesis by blast
  qed
  let ?nd = "nd\<lparr>nd_listening := False, nd_session := None, nd_status := Node_Offline,
           nd_offlineAt := Some now, nd_workspaces := []\<rparr>"
  show ?thesis
    unfolding take_offline_def
  proof (rule put_node_inv [OF inv])
    show "js_wf (drop_claims nd (rg_claims rg))"
      using inv drop_claims_wf by (simp add: registry_inv_def base_ok_def)
    show "node_ok s (X - {k}) ((node_context_of rg)\<lparr>nc_claims := js_get (drop_claims nd (rg_claims rg))\<rparr>)
        (nd_nodeId ?nd) ?nd"
      using n by (auto simp: node_ok_def opened_def js_map)
    fix j n' assume "js_get (rg_nodes rg) j = Some n'" "nd_nodeInstanceId n' = nd_nodeInstanceId ?nd"
    then show "j = nd_nodeId ?nd"
      using inv nd id by (auto simp: registry_inv_def view_ok_def unique_instances_def)
  next
    fix i c assume "js_get (rg_claims rg) i = Some c" "cl_nodeId c \<noteq> nd_nodeId ?nd"
    then show "js_get (drop_claims nd (rg_claims rg)) i = Some c"
      by (simp add: drop_claims_get claimed_by_def)
  qed (use nd id own in auto)
qed


section \<open>Closing sessions and losing nodes\<close>

lemma inv_shrink:
  assumes "registry_inv s X rg"
    and "\<And>nd. js_get (rg_nodes rg) k = Some nd \<Longrightarrow>
      \<not> (nd_listening nd \<and> nd_session nd = Some s \<and> nd_status nd \<noteq> Node_Offline)"
  shows "registry_inv s (X - {k}) rg"
  using assms unfolding registry_inv_def view_ok_def node_ok_def by (auto 0 3)

lemma close_listener_inv:
  assumes "registry_inv s X rg"
  shows "registry_inv s (X - {k}) (close_listener now s k rg)"
proof (cases "js_get (rg_nodes rg) k")
  case None
  have "registry_inv s (X - {k}) rg" by (rule inv_shrink [OF assms]) (simp add: None)
  with None show ?thesis by (simp add: close_listener_def)
next
  case (Some nd)
  show ?thesis
  proof (cases "nd_listening nd \<and> nd_session nd = Some s \<and> nd_status nd \<noteq> Node_Offline")
    case True
    with Some have "close_listener now s k rg = notify_lost (lost_bindings nd rg) (take_offline now nd rg)"
      by (simp add: close_listener_def)
    with take_offline_inv [OF assms Some] show ?thesis by simp
  next
    case False
    have "registry_inv s (X - {k}) rg" by (rule inv_shrink [OF assms]) (use Some False in simp)
    with Some False show ?thesis by (simp only: close_listener_def option.case if_False)
  qed
qed

lemma close_listeners_inv:
  "registry_inv s X rg \<Longrightarrow> registry_inv s (X - set ks) (fold (close_listener now s) ks rg)"
proof (induction ks arbitrary: X rg)
  case (Cons k ks)
  have "X - {k} - set ks = X - set (k # ks)" by auto
  with Cons.IH [OF close_listener_inv [OF Cons.prems]] show ?case by (metis fold_simps(2))
qed simp

lemma closing_inv:
  assumes "registry_ok rg"
  shows "registry_inv s (fst ` set (rg_nodes rg)) (rg\<lparr>rg_closed := s # rg_closed rg\<rparr>)"
proof -
  let ?rg = "rg\<lparr>rg_closed := s # rg_closed rg\<rparr>"
  have "node_ok s (fst ` set (rg_nodes rg)) (node_context_of ?rg) k nd"
    if k: "js_get (rg_nodes rg) k = Some nd" for k nd
  proof -
    have "k \<in> fst ` set (rg_nodes rg)" using map_of_SomeD [OF k] by force
    with inv_node [OF assms k] show ?thesis
      by (auto simp: node_ok_def node_context_of_def opened_def catalog_of_def)
  qed
  with assms show ?thesis
    by (auto simp: registry_inv_def view_ok_def node_context_of_def catalog_of_def)
qed

lemma close_session_ok: "registry_ok rg \<Longrightarrow> registry_ok (close_session now s rg)"
  using close_listeners_inv [OF closing_inv, of rg s "map fst (rg_nodes rg)" now]
    inv_no_exceptions by (auto simp: close_session_def)

lemma take_offline_ok:
  "registry_ok rg \<Longrightarrow> js_get (rg_nodes rg) k = Some nd \<Longrightarrow> registry_ok (take_offline now nd rg)"
  using take_offline_inv [of 0 "{}" rg k nd now] by simp

lemma loseNode_ok:
  "registry_ok rg \<Longrightarrow> js_get (rg_nodes rg) k = Some nd \<Longrightarrow> registry_ok (loseNode now b nd rg)"
  using take_offline_ok close_session_ok by (simp add: loseNode_def Let_def split: option.split)

lemma inv_id: "registry_ok rg \<Longrightarrow> js_get (rg_nodes rg) k = Some nd \<Longrightarrow> nd_nodeId nd = k"
  using inv_node unfolding node_ok_def by blast

lemma listen_inv:
  assumes "registry_ok rg" "nd_session nd = Some s" "nd_status nd \<noteq> Node_Offline" "nd_workspaces nd = []"
    and "js_wf (nd_workspaceHistory nd)"
    and "\<forall>i ob. js_get (nd_workspaceHistory nd) i = Some ob \<longrightarrow>
          ob_workspaceIdentity ob = i \<and> known (catalog_of rg) (ob_workspaceId ob) i"
    and "js_get (rg_nodes rg) (nd_nodeId nd) = None \<longrightarrow> length (rg_nodes rg) < nodeListCount"
    and "\<And>j n. js_get (rg_nodes rg) j = Some n \<Longrightarrow> nd_nodeInstanceId n = nd_nodeInstanceId nd \<Longrightarrow> j = nd_nodeId nd"
    and old: "\<And>n. js_get (rg_nodes rg) (nd_nodeId nd) = Some n \<Longrightarrow> nd_workspaces n = []"
  shows "registry_ok (listenForNodeClose s nd rg)"
proof -
  have no_claims: "cl_nodeId c \<noteq> nd_nodeId nd" if "js_get (rg_claims rg) i = Some c" for i c
    using inv_claim [OF assms(1) that] old by (auto simp: claim_ok_def)
  have "registry_ok (put_node (nd\<lparr>nd_listening := b\<rparr>) (rg\<lparr>rg_claims := rg_claims rg\<rparr>))"
    if b: "s \<notin> set (rg_closed rg) \<longrightarrow> b" for b
  proof (rule put_node_inv [OF assms(1)])
    show "js_wf (rg_claims rg)" using assms(1) by (simp add: registry_inv_def base_ok_def)
    show "node_ok 0 {} ((node_context_of rg)\<lparr>nc_claims := js_get (rg_claims rg)\<rparr>)
        (nd_nodeId (nd\<lparr>nd_listening := b\<rparr>)) (nd\<lparr>nd_listening := b\<rparr>)"
      using assms(2-6) b by (auto simp: node_ok_def opened_def node_context_of_def js_map)
  qed (use assms(7,8) no_claims in auto)
  moreover have "rg\<lparr>rg_claims := rg_claims rg\<rparr> = rg" by simp
  ultimately have "registry_ok (put_node (nd\<lparr>nd_listening := True\<rparr>) rg)"
    "s \<in> set (rg_closed rg) \<Longrightarrow> registry_ok (put_node (nd\<lparr>nd_listening := nd_listening nd\<rparr>) rg)"
    by metis+
  moreover have "nd\<lparr>nd_listening := nd_listening nd\<rparr> = nd" by simp
  moreover have "put_node nd (rg\<lparr>rg_microtasks := m\<rparr>) = (put_node nd rg)\<lparr>rg_microtasks := m\<rparr>" for m
    by (simp add: put_node_def)
  ultimately show ?thesis by (metis listenForNodeClose_def inv_simps(2))
qed

lemma remove_nodes_ok:
  assumes "registry_ok rg" "js_wf nodes" "length nodes \<le> length (rg_nodes rg)"
    and "js_get nodes \<subseteq>\<^sub>m js_get (rg_nodes rg)"
    and "\<And>k nd. js_get (rg_nodes rg) k = Some nd \<Longrightarrow> js_get nodes k = None \<Longrightarrow> nd_status nd = Node_Offline"
  shows "registry_ok (rg\<lparr>rg_nodes := nodes\<rparr>)"
proof -
  have "nd_workspaces nd = []" if "js_get (rg_nodes rg) k = Some nd" "js_get nodes k = None" for k nd
    using inv_node [OF assms(1) that(1)] assms(5) [OF that] by (auto simp: node_ok_def opened_def)
  with assms(1) view_remove [of 0 "{}" "node_context_of rg" "js_get (rg_nodes rg)" "js_get nodes"]
  show ?thesis
    using assms(2-4) by (auto simp: registry_inv_def base_ok_def bindings_ok_def catalog_of_def)
qed

lemma js_get_filter:
  "js_wf m \<Longrightarrow> js_get (filter (\<lambda>(k, v). P k v) m) k =
     (case js_get m k of None \<Rightarrow> None | Some v \<Rightarrow> if P k v then Some v else None)"
proof (induction m)
  case (Cons a m)
  then have "js_wf m" "js_get m (fst a) = None" by (auto simp: js_wf_def map_of_eq_None_iff)
  with Cons.IH show ?case by (cases a) auto
qed simp

lemma js_wf_filter: "js_wf m \<Longrightarrow> js_wf (filter P m)"
  by (auto simp: js_wf_def distinct_map_filter)

lemma filter_nodes_ok:
  assumes "registry_ok rg" "\<And>nd. \<not> P nd \<Longrightarrow> nd_status nd = Node_Offline"
  shows "registry_ok (rg\<lparr>rg_nodes := filter (\<lambda>(_, nd). P nd) (rg_nodes rg)\<rparr>)"
proof (rule remove_nodes_ok [OF assms(1)])
  have wf: "js_wf (rg_nodes rg)" using assms(1) by (simp add: registry_inv_def base_ok_def)
  show "js_wf (filter (\<lambda>(_, nd). P nd) (rg_nodes rg))" by (rule js_wf_filter [OF wf])
  note get = js_get_filter [OF wf, of "\<lambda>_. P"]
  show "js_get (filter (\<lambda>(_, nd). P nd) (rg_nodes rg)) \<subseteq>\<^sub>m js_get (rg_nodes rg)"
    by (auto simp: map_le_def get split: option.splits if_splits)
  show "js_get (rg_nodes rg) k = Some nd \<Longrightarrow> js_get (filter (\<lambda>(_, nd). P nd) (rg_nodes rg)) k = None
      \<Longrightarrow> nd_status nd = Node_Offline" for k nd
    using assms(2) by (auto simp: get split: if_splits)
qed simp

lemma prune_ok: "registry_ok rg \<Longrightarrow> registry_ok (pruneOfflineTombstones cfg now rg)"
  unfolding pruneOfflineTombstones_def by (rule filter_nodes_ok) auto

lemma fold_delete_get:
  "js_get (fold (\<lambda>x. js_delete (f x)) xs m) k = (if k \<in> f ` set xs then None else js_get m k)"
  by (induction xs arbitrary: m) (auto simp: js_map)

lemma fold_delete_wf: "js_wf m \<Longrightarrow> js_wf (fold (\<lambda>x. js_delete (f x)) xs m)"
  by (induction xs arbitrary: m) (auto simp: js_map)

lemma fold_delete_length: "length (fold (\<lambda>x. js_delete (f x)) xs m) \<le> length m"
  by (induction xs arbitrary: m) (auto intro: order_trans length_js_delete_le)

lemma evict_ok: 
  assumes "registry_ok rg"
  shows "registry_ok (evictOfflineTombstones cfg n rg)"
proof -
  have wf: "js_wf (rg_nodes rg)" using assms by (simp add: registry_inv_def base_ok_def)
  have off: "nd_status nd = Node_Offline"
    if "js_get (rg_nodes rg) k = Some nd" "k \<in> nd_nodeId ` set (take m (js_sort cmp
         (filter (\<lambda>nd. nd_status nd = Node_Offline \<and> \<not> hasTaskBindings rg nd) (js_values (rg_nodes rg)))))"
    for k nd m cmp
  proof -
    from that(2) obtain x where x: "x \<in> set (js_values (rg_nodes rg))" "nd_status x = Node_Offline"
      "nd_nodeId x = k" by (force dest!: in_set_takeD)
    from x(1) js_values_mem [OF wf] obtain j where j: "js_get (rg_nodes rg) j = Some x" by blast
    with inv_id [OF assms] x(3) that(1) have "x = nd" by fastforce
    with x(2) show ?thesis by simp
  qed
  show ?thesis
    unfolding evictOfflineTombstones_def Let_def
    by (rule remove_nodes_ok [OF assms])
      (use wf off in \<open>auto simp: fold_delete_get fold_delete_wf fold_delete_length map_le_def split: if_splits\<close>)
qed

section \<open>What losing nodes leaves alone\<close>

definition offline_at :: "int \<Rightarrow> node_record \<Rightarrow> node_record" where
  "offline_at t nd = nd\<lparr>nd_listening := False, nd_session := None, nd_status := Node_Offline,
     nd_offlineAt := Some t, nd_workspaces := []\<rparr>"

definition lost_or_same :: "node_record \<Rightarrow> node_record \<Rightarrow> bool" where
  "lost_or_same a b \<longleftrightarrow> b = a \<or> (\<exists>t. b = offline_at t a)"

lemma offline_at_twice [simp]: "offline_at t (offline_at u nd) = offline_at t nd"
  by (simp add: offline_at_def)

lemma offline_at_simps [simp]:
  "nd_nodeId (offline_at t nd) = nd_nodeId nd" "nd_nodeInstanceId (offline_at t nd) = nd_nodeInstanceId nd"
  "nd_status (offline_at t nd) = Node_Offline" "nd_workspaces (offline_at t nd) = []"
  "nd_session (offline_at t nd) = None" "nd_listening (offline_at t nd) = False"
  "nd_workspaceHistory (offline_at t nd) = nd_workspaceHistory nd" "nd_ref (offline_at t nd) = nd_ref nd"
  "nd_lastHeartbeatReceivedAt (offline_at t nd) = nd_lastHeartbeatReceivedAt nd"
  by (simp_all add: offline_at_def)

lemma lost_or_same_trans: "lost_or_same a b \<Longrightarrow> lost_or_same b c \<Longrightarrow> lost_or_same a c"
  unfolding lost_or_same_def by (metis offline_at_twice)

lemma lost_or_same_refl [simp]: "lost_or_same a a" by (simp add: lost_or_same_def)

lemma lost_or_same_ids:
  "lost_or_same a b \<Longrightarrow> nd_nodeId b = nd_nodeId a \<and> nd_nodeInstanceId b = nd_nodeInstanceId a"
  by (auto simp: lost_or_same_def)

definition only_lost :: "registry \<Rightarrow> registry \<Rightarrow> bool" where
  "only_lost rg rg' \<longleftrightarrow>
     rg_catalog rg' = rg_catalog rg \<and> rg_leases rg' = rg_leases rg
     \<and> rg_taskBindings rg' = rg_taskBindings rg \<and> rg_disposed rg' = rg_disposed rg
     \<and> map fst (rg_nodes rg') = map fst (rg_nodes rg)
     \<and> (\<forall>j. rel_option lost_or_same (js_get (rg_nodes rg) j) (js_get (rg_nodes rg') j))"

lemma only_lost_refl [simp]: "only_lost rg rg"
  by (simp add: only_lost_def option.rel_refl)

lemma rel_lost_trans:
  "rel_option lost_or_same x y \<Longrightarrow> rel_option lost_or_same y z \<Longrightarrow> rel_option lost_or_same x z"
  by (cases x; cases y; cases z) (auto intro: lost_or_same_trans)

lemma only_lost_trans:
  assumes "only_lost a b" "only_lost b c"
  shows "only_lost a c"
proof -
  have "rel_option lost_or_same (js_get (rg_nodes a) j) (js_get (rg_nodes c) j)" for j
    using assms rel_lost_trans unfolding only_lost_def by blast
  with assms show ?thesis by (simp add: only_lost_def)
qed

lemma only_lost_get: "only_lost rg rg' \<Longrightarrow> js_get (rg_nodes rg) j = Some nd
   \<Longrightarrow> \<exists>nd'. js_get (rg_nodes rg') j = Some nd' \<and> lost_or_same nd nd'"
  unfolding only_lost_def by (metis option_rel_Some1)

lemma only_lost_back: "only_lost rg rg' \<Longrightarrow> js_get (rg_nodes rg') j = Some nd'
   \<Longrightarrow> \<exists>nd. js_get (rg_nodes rg) j = Some nd \<and> lost_or_same nd nd'"
  unfolding only_lost_def by (metis option_rel_Some2)

lemma notify_lost_frame [simp]:
  "rg_nodes (notify_lost l rg) = rg_nodes rg" "rg_catalog (notify_lost l rg) = rg_catalog rg"
  "rg_leases (notify_lost l rg) = rg_leases rg" "rg_taskBindings (notify_lost l rg) = rg_taskBindings rg"
  "rg_claims (notify_lost l rg) = rg_claims rg" "rg_closed (notify_lost l rg) = rg_closed rg"
  "rg_disposed (notify_lost l rg) = rg_disposed rg"
  by (simp_all add: notify_lost_def)

lemma take_offline_frame [simp]:
  "rg_catalog (take_offline t nd rg) = rg_catalog rg" "rg_leases (take_offline t nd rg) = rg_leases rg"
  "rg_taskBindings (take_offline t nd rg) = rg_taskBindings rg"
  "rg_closed (take_offline t nd rg) = rg_closed rg" "rg_disposed (take_offline t nd rg) = rg_disposed rg"
  "rg_nodes (take_offline t nd rg) = js_set (nd_nodeId nd) (offline_at t nd) (rg_nodes rg)"
  by (simp_all add: take_offline_def put_node_def offline_at_def)

lemma map_fst_js_set: "k \<in> fst ` set m \<Longrightarrow> map fst (js_set k v m) = map fst m"
  by (induction m) auto

lemma take_offline_lost:
  assumes "js_get (rg_nodes rg) (nd_nodeId nd) = Some nd"
  shows "only_lost rg (take_offline t nd rg)"
proof -
  have "nd_nodeId nd \<in> fst ` set (rg_nodes rg)" using map_of_SomeD [OF assms] by force
  moreover have "lost_or_same nd (offline_at t nd)" by (auto simp: lost_or_same_def)
  ultimately show ?thesis using assms by (simp add: only_lost_def map_fst_js_set js_get_set option.rel_refl)
qed

lemma only_lost_notify [simp]: "only_lost rg (notify_lost l rg') = only_lost rg rg'"
  by (simp add: only_lost_def)

lemma only_lost_closed: "only_lost (rg\<lparr>rg_closed := c\<rparr>) rg' = only_lost rg rg'"
  by (simp add: only_lost_def)

definition ids_ok :: "registry \<Rightarrow> bool" where
  "ids_ok rg \<longleftrightarrow> (\<forall>k nd. js_get (rg_nodes rg) k = Some nd \<longrightarrow> nd_nodeId nd = k)"

lemma inv_ids: "registry_ok rg \<Longrightarrow> ids_ok rg"
  using inv_id by (auto simp: ids_ok_def)

lemma ids_lost: "ids_ok rg \<Longrightarrow> only_lost rg rg' \<Longrightarrow> ids_ok rg'"
  unfolding ids_ok_def
proof (intro allI impI)
  fix k nd' assume "\<forall>k nd. js_get (rg_nodes rg) k = Some nd \<longrightarrow> nd_nodeId nd = k" "only_lost rg rg'"
    "js_get (rg_nodes rg') k = Some nd'"
  with only_lost_back [of rg rg' k nd'] show "nd_nodeId nd' = k" by (auto dest: lost_or_same_ids)
qed

lemma close_listener_lost: "ids_ok rg \<Longrightarrow> only_lost rg (close_listener t s k rg)"
  using take_offline_lost by (auto simp: close_listener_def ids_ok_def split: option.split)

lemma close_listeners_lost: "ids_ok rg \<Longrightarrow> only_lost rg (fold (close_listener t s) ks rg)"
proof (induction ks arbitrary: rg)
  case (Cons k ks)
  note o = close_listener_lost [OF Cons.prems, of t s k]
  show ?case
    using only_lost_trans [OF o Cons.IH [OF ids_lost [OF Cons.prems o]]] by simp
qed simp

lemma close_session_lost: "ids_ok rg \<Longrightarrow> only_lost rg (close_session t s rg)"
  using close_listeners_lost [of "rg\<lparr>rg_closed := s # rg_closed rg\<rparr>" t s "map fst (rg_nodes rg)"]
  by (simp add: close_session_def only_lost_closed ids_ok_def)

lemma loseNode_lost:
  assumes "ids_ok rg" "js_get (rg_nodes rg) k = Some nd"
  shows "only_lost rg (loseNode t b nd rg)" "only_lost (take_offline t nd rg) (loseNode t b nd rg)"
proof -
  have id: "js_get (rg_nodes rg) (nd_nodeId nd) = Some nd" using assms by (simp add: ids_ok_def)
  note o = take_offline_lost [OF id, of t]
  show "only_lost (take_offline t nd rg) (loseNode t b nd rg)"
    using close_session_lost [OF ids_lost [OF assms(1) o]]
    by (simp add: loseNode_def Let_def split: option.split)
  with o only_lost_trans show "only_lost rg (loseNode t b nd rg)" by blast
qed

text \<open>The node itself is off-line afterwards, its identity kept.\<close>

lemma loseNode_self:
  assumes "ids_ok rg" "js_get (rg_nodes rg) k = Some nd"
  shows "\<exists>u. js_get (rg_nodes (loseNode t b nd rg)) k = Some (offline_at u nd)"
proof -
  have "js_get (rg_nodes (take_offline t nd rg)) k = Some (offline_at t nd)"
    using assms by (simp add: ids_ok_def js_get_set)
  from only_lost_get [OF loseNode_lost(2) [OF assms] this] show ?thesis
    unfolding lost_or_same_def by (metis offline_at_twice)
qed

section \<open>The calls\<close>

lemma snd_describe [simp]: "snd (describe cfg k rg) = rg"
  by (simp add: describe_def split: option.split)

lemma register_ok:
  assumes ok: "registry_ok rg"
  shows "registry_ok (snd (register cfg now capability params s rg))"
proof (cases "assertReady rg")
  case (Inr u)
  show ?thesis
  proof (cases "nodeRegisterParamsSchema (rc_formats cfg) params")
    case (Some input)
    let ?k = "rp_nodeId input"
    have status: "rp_status input \<noteq> Node_Offline"
      using Some by (auto simp: nodeRegisterParamsSchema_def split: if_splits)
    let ?other = "list_ex (\<lambda>nd. nd_nodeInstanceId nd = rp_nodeInstanceId input \<and> nd_nodeId nd \<noteq> ?k)
        (js_values (rg_nodes rg))"
    have wf: "js_wf (rg_nodes rg)" using ok by (simp add: registry_inv_def base_ok_def)
    have fresh: "j = ?k" if "\<not> ?other" "js_get (rg_nodes rg) j = Some n"
      "nd_nodeInstanceId n = rp_nodeInstanceId input" for j n
    proof -
      have "n \<in> set (js_values (rg_nodes rg))" using that(2) js_values_mem [OF wf] by blast
      with that inv_id [OF ok that(2)] show ?thesis by (auto simp: list_ex_iff)
    qed
    have add: "registry_ok (add_node now capability input s rg1)"
      if "registry_ok rg1" "js_get (rg_nodes rg1) ?k = None \<longrightarrow> length (rg_nodes rg1) < nodeListCount"
        "\<And>j n. js_get (rg_nodes rg1) j = Some n \<Longrightarrow> nd_nodeInstanceId n = rp_nodeInstanceId input \<Longrightarrow> j = ?k"
        "\<And>n. js_get (rg_nodes rg1) ?k = Some n \<Longrightarrow> nd_workspaces n = []" for rg1
      unfolding add_node_def
      by (rule listen_inv) (use that status in \<open>auto simp: js_map\<close>)
    show ?thesis
    proof (cases "js_get (rg_nodes rg) ?k")
      case None
      let ?rg1 = "evictOfflineTombstones cfg 1 rg"
      have sub: "js_get (rg_nodes ?rg1) j = Some n \<Longrightarrow> js_get (rg_nodes rg) j = Some n" for j n
        by (auto simp: evictOfflineTombstones_def Let_def fold_delete_get split: if_splits)
      have "\<not> ?other \<Longrightarrow> \<not> nodeListCount \<le> length (rg_nodes ?rg1) \<Longrightarrow>
          registry_ok (add_node now capability input s ?rg1)"
        by (rule add [OF evict_ok [OF ok]]) (use fresh sub None in auto)
      then show ?thesis
        using ok evict_ok [OF ok, of cfg 1] by (auto simp: register_def Inr Some None Let_def)
    next
      case (Some existing)
      note ex = this
      note n = inv_node [OF ok ex]
      show ?thesis
      proof (cases "nd_nodeInstanceId existing = rp_nodeInstanceId input")
        case True
        have e: "nd_nodeId existing = ?k" "js_wf (nd_workspaceHistory existing)"
          "\<forall>i ob. js_get (nd_workspaceHistory existing) i = Some ob \<longrightarrow>
            ob_workspaceIdentity ob = i \<and> known (catalog_of rg) (ob_workspaceId ob) i"
          "nd_session existing = None \<Longrightarrow> nd_workspaces existing = []"
          using n by (auto simp: node_ok_def opened_def node_context_of_def)
        have "registry_ok (reconnect now capability input s existing rg)"
          if free: "\<not> ?other" and "nd_session existing = None"
          unfolding reconnect_def
        proof (rule listen_inv [OF ok])
          fix j n assume "js_get (rg_nodes rg) j = Some n"
            "nd_nodeInstanceId n = nd_nodeInstanceId (existing\<lparr>nd_status := rp_status input,
               nd_lastHeartbeatAt := to_iso_string now, nd_lastHeartbeatReceivedAt := now,
               nd_offlineAt := None, nd_session := Some s, nd_windowDelegationCapability := capability\<rparr>)"
          with fresh [OF free, of j n] True e(1) show "j = nd_nodeId (existing\<lparr>nd_status := rp_status input,
               nd_lastHeartbeatAt := to_iso_string now, nd_lastHeartbeatReceivedAt := now,
               nd_offlineAt := None, nd_session := Some s, nd_windowDelegationCapability := capability\<rparr>)"
            by simp
        qed (use e(2,3) e(4) [OF that(2)] status ex e in simp_all)
        moreover have "snd (register cfg now capability params s rg) \<in>
            (if \<not> ?other \<and> nd_status existing = Node_Offline \<and> nd_session existing = None
             then {rg, reconnect now capability input s existing rg} else {rg})"
          by (simp add: register_def Inr \<open>nodeRegisterParamsSchema _ _ = _\<close> ex True)
        ultimately show ?thesis using ok by (auto split: if_splits)
      next
        case False
        let ?rg1 = "loseNode now True existing rg"
        note lost = loseNode_lost(1) [OF inv_ids [OF ok] ex, of now True]
        have "\<not> ?other \<Longrightarrow> registry_ok (add_node now capability input s ?rg1)"
        proof (rule add [OF loseNode_ok [OF ok ex]])
          obtain u where self: "js_get (rg_nodes ?rg1) ?k = Some (offline_at u existing)"
            using loseNode_self [OF inv_ids [OF ok] ex] by blast
          then show "js_get (rg_nodes ?rg1) ?k = None \<longrightarrow> length (rg_nodes ?rg1) < nodeListCount"
            "js_get (rg_nodes ?rg1) ?k = Some n \<Longrightarrow> nd_workspaces n = []" for n by auto
          assume "\<not> ?other"
          then show "js_get (rg_nodes ?rg1) j = Some n \<Longrightarrow> nd_nodeInstanceId n = rp_nodeInstanceId input
              \<Longrightarrow> j = ?k" for j n
            using fresh only_lost_back [OF lost, of j n] by (auto dest: lost_or_same_ids)
        qed
        moreover have "snd (register cfg now capability params s rg) \<in>
            (if ?other then {rg} else {rg, ?rg1, add_node now capability input s ?rg1})"
          by (simp add: register_def Inr \<open>nodeRegisterParamsSchema _ _ = _\<close> ex False Let_def)
        ultimately show ?thesis using ok loseNode_ok [OF ok ex, of now True] by (auto split: if_splits)
      qed
    qed
  qed (use ok Inr in \<open>simp add: register_def\<close>)
qed (use ok in \<open>simp add: register_def\<close>)

lemma live_node:
  assumes "requireLiveNode rg i = Inr nd"
  shows "js_get (rg_nodes rg) (ni_nodeId i) = Some nd" "nd_nodeInstanceId nd = ni_nodeInstanceId i"
    "nd_status nd \<noteq> Node_Offline" "session_open rg nd"
  using assms
  by (auto simp: requireLiveNode_def requireExactNode_def bindR_Inr_conv split: option.splits if_splits)

text \<open>A change of a node that keeps its identity, its session and its workspaces.\<close>

lemma touch_ok:
  assumes ok: "registry_ok rg" and nd: "js_get (rg_nodes rg) k = Some nd"
    and same: "nd_nodeId nd' = nd_nodeId nd" "nd_nodeInstanceId nd' = nd_nodeInstanceId nd"
      "nd_session nd' = nd_session nd" "nd_workspaces nd' = nd_workspaces nd"
      "nd_workspaceHistory nd' = nd_workspaceHistory nd"
      "nd_status nd' = Node_Offline \<longleftrightarrow> nd_status nd = Node_Offline"
      "nd_listening nd' = nd_listening nd \<or> nd_session nd = None"
  shows "registry_ok (put_node nd' rg)"
proof -
  note n = inv_node [OF ok nd]
  have id: "nd_nodeId nd' = k" using n same(1) by (simp add: node_ok_def)
  have "registry_ok (put_node nd' (rg\<lparr>rg_claims := rg_claims rg\<rparr>))"
  proof (rule put_node_inv [OF ok])
    show "js_wf (rg_claims rg)" using ok by (simp add: registry_inv_def base_ok_def)
    show "node_ok 0 {} ((node_context_of rg)\<lparr>nc_claims := js_get (rg_claims rg)\<rparr>) (nd_nodeId nd') nd'"
      using n same id by (auto simp: node_ok_def opened_def node_context_of_def claimed_by_def)
    fix j m assume "js_get (rg_nodes rg) j = Some m" "nd_nodeInstanceId m = nd_nodeInstanceId nd'"
    then show "j = nd_nodeId nd'"
      using ok nd same(2) id by (auto simp: registry_inv_def view_ok_def unique_instances_def)
  next
    fix i c assume c: "js_get (rg_claims rg) i = Some c"
    show "js_get (rg_claims rg) i = Some c \<and> cl_nodeId c \<noteq> nd_nodeId nd' \<or>
        claim_ok (catalog_of rg) ((js_get (rg_nodes rg))(nd_nodeId nd' \<mapsto> nd')) i c"
      using inv_claim [OF ok c] c nd id same by (auto simp: claim_ok_def)
  qed (use nd id in simp_all)
  then show ?thesis by simp
qed

lemma heartbeat_ok:
  assumes "registry_ok rg"
  shows "registry_ok (snd (heartbeat cfg now p rg))"
proof -
  have "registry_ok (put_node (nd\<lparr>nd_status := hb_status input, nd_lastHeartbeatAt := a,
      nd_lastHeartbeatReceivedAt := t\<rparr>) rg)"
    if "requireLiveNode rg i = Inr nd" "nodeHeartbeatParamsSchema (rc_formats cfg) p = Some input" for i nd input a t
    by (rule touch_ok [OF assms live_node(1) [OF that(1)]])
      (use live_node(3) [OF that(1)] that(2) in \<open>auto simp: nodeHeartbeatParamsSchema_def split: if_splits\<close>)
  with assms show ?thesis by (auto simp: heartbeat_def split: sum.split option.split)
qed

lemma unregister_ok: "registry_ok rg \<Longrightarrow> registry_ok (snd (unregister cfg now i b rg))"
  using loseNode_ok
  by (auto simp: unregister_def requireExactNode_def split: sum.split option.split)

lemma sweep_nodes_ok:
  "registry_ok (snd st) \<Longrightarrow> registry_ok (snd (fold (sweep_node now cutoff) ks st))"
proof (induction ks arbitrary: st)
  case (Cons k ks)
  have "registry_ok (snd (sweep_node now cutoff k st))"
    using Cons.prems loseNode_ok by (auto simp: sweep_node_def split: prod.split option.split)
  from Cons.IH [OF this] show ?case by simp
qed simp

lemma sweep_ok:
  assumes "registry_ok rg"
  shows "registry_ok (snd (sweepExpired cfg now rg))"
  using assms sweep_nodes_ok [of "([], rg)"] prune_ok
  by (auto simp: sweepExpired_def split: sum.split prod.split) (metis snd_conv)

lemma microtask_ok: "registry_ok rg \<Longrightarrow> registry_ok (run_microtask now rg)"
  using loseNode_ok [of "rg\<lparr>rg_microtasks := m\<rparr>" for m]
  by (auto simp: run_microtask_def Let_def split: list.split option.split)

lemma dispose_nodes_ok: "registry_ok rg \<Longrightarrow> registry_ok (fold (dispose_node now) ks rg)"
proof (induction ks arbitrary: rg)
  case (Cons k ks)
  have "registry_ok (dispose_node now k rg)"
  proof (cases "js_get (rg_nodes rg) k")
    case (Some nd)
    have "nd_status nd = Node_Offline \<Longrightarrow> nd_session nd = None"
      using inv_node [OF Cons.prems Some] by (auto simp: node_ok_def)
    then show ?thesis
      using Cons.prems Some loseNode_ok [OF Cons.prems Some]
        touch_ok [OF Cons.prems Some, of "nd\<lparr>nd_listening := False\<rparr>"] by (auto simp: dispose_node_def)
  qed (use Cons.prems in \<open>simp add: dispose_node_def\<close>)
  from Cons.IH [OF this] show ?case by simp
qed simp

lemma dispose_ok: "registry_ok rg \<Longrightarrow> registry_ok (dispose now rg)"
  using dispose_nodes_ok [of "rg\<lparr>rg_timer := False\<rparr>"] by (simp add: dispose_def)

lemma authorizer_ok: "registry_ok rg \<Longrightarrow> registry_ok (snd (setPeerRouteAuthorizer a rg))"
  by (simp add: setPeerRouteAuthorizer_def)

lemma find_value:
  "js_wf m \<Longrightarrow> find P (js_values m) = Some v \<Longrightarrow> \<exists>k. js_get m k = Some v \<and> P v"
  using find_Some_mem [of P "js_values m" v] js_values_mem [of m v] by blast

lemma releaseWorkspace_ok:
  assumes ok: "registry_ok rg"
  shows "registry_ok (snd (releaseWorkspace cfg p rg))"
proof -
  have rel: "registry_ok (put_node (nd\<lparr>nd_workspaces := js_delete i (nd_workspaces nd),
        nd_workspaceHistory := js_delete i (nd_workspaceHistory nd)\<rparr>)
      (rg\<lparr>rg_claims := (case js_get (rg_claims rg) i of None \<Rightarrow> rg_claims rg
         | Some c \<Rightarrow> if cl_nodeId c = lp_nodeId input \<and> cl_nodeInstanceId c = lp_nodeInstanceId input
                   then js_delete i (rg_claims rg) else rg_claims rg)\<rparr>))"
    if live: "requireLiveNode rg \<lparr>ni_nodeId = lp_nodeId input, ni_nodeInstanceId = lp_nodeInstanceId input\<rparr> = Inr nd"
    for nd i input
  proof -
    let ?k = "lp_nodeId input"
    let ?nd = "nd\<lparr>nd_workspaces := js_delete i (nd_workspaces nd),
        nd_workspaceHistory := js_delete i (nd_workspaceHistory nd)\<rparr>"
    let ?C = "case js_get (rg_claims rg) i of None \<Rightarrow> rg_claims rg
         | Some c \<Rightarrow> if cl_nodeId c = ?k \<and> cl_nodeInstanceId c = lp_nodeInstanceId input
                   then js_delete i (rg_claims rg) else rg_claims rg"
    note nd = live_node(1) [OF live, simplified] and inst = live_node(2) [OF live, simplified]
    note n = inv_node [OF ok nd]
    have id: "nd_nodeId nd = ?k" using n by (simp add: node_ok_def)
    have C: "js_get ?C j = (if j = i \<and> (\<exists>c. js_get (rg_claims rg) i = Some c \<and> claimed_by nd c) then None
        else js_get (rg_claims rg) j)" for j
      using id inst by (auto simp: js_map claimed_by_def split: option.split)
    show ?thesis
    proof (rule put_node_inv [OF ok])
      show "js_wf ?C" using ok by (auto simp: registry_inv_def base_ok_def js_map split: option.split)
      show "node_ok 0 {} ((node_context_of rg)\<lparr>nc_claims := js_get ?C\<rparr>) (nd_nodeId ?nd) ?nd"
        using n id by (auto simp: node_ok_def opened_def node_context_of_def claimed_by_def js_map C)
      fix j m assume "js_get (rg_nodes rg) j = Some m" "nd_nodeInstanceId m = nd_nodeInstanceId ?nd"
      then show "j = nd_nodeId ?nd"
        using ok nd id by (auto simp: registry_inv_def view_ok_def unique_instances_def)
    next
      fix j c assume "js_get (rg_claims rg) j = Some c" "cl_nodeId c \<noteq> nd_nodeId ?nd"
      then show "js_get ?C j = Some c" by (auto simp: C claimed_by_def)
    next
      fix j c assume "js_get ?C j = Some c"
      then have c: "js_get (rg_claims rg) j = Some c" "j = i \<longrightarrow> \<not> claimed_by nd c"
        by (auto simp: C split: if_splits)
      with inv_claim [OF ok c(1)] nd id have "cl_nodeId c = ?k \<Longrightarrow> j \<noteq> i"
        by (auto simp: claim_ok_def claimed_by_def)
      with inv_claim [OF ok c(1)] c(1) nd id
      show "js_get (rg_claims rg) j = Some c \<and> cl_nodeId c \<noteq> nd_nodeId ?nd \<or>
          claim_ok (catalog_of rg) ((js_get (rg_nodes rg))(nd_nodeId ?nd \<mapsto> ?nd)) j c"
        by (auto simp: claim_ok_def js_map)
    qed (use nd id in simp_all)
  qed
  show ?thesis
  proof (cases "assertReady rg")
    case (Inr u)
    show ?thesis
    proof (cases "nodeWorkspaceReleaseParamsSchema (rc_formats cfg) p")
      case (Some input)
      show ?thesis
      proof (cases "requireLiveNode rg \<lparr>ni_nodeId = lp_nodeId input, ni_nodeInstanceId = lp_nodeInstanceId input\<rparr>")
        case live: (Inr nd)
        show ?thesis
          by (cases "find (\<lambda>ob. ob_workspaceId ob = lp_workspaceId input) (js_values (nd_workspaces nd))")
            (simp_all add: releaseWorkspace_def Inr Some live ok rel [OF live] Let_def)
      qed (simp add: releaseWorkspace_def Inr Some ok)
    qed (simp add: releaseWorkspace_def Inr ok)
  qed (simp add: releaseWorkspace_def ok)
qed

section \<open>Task routes\<close>

lemma release_effect:
  assumes "release fmt w p t l = Inr l'"
  shows "lease_owner_of l' = lease_owner_of l
    \<or> lease_owner_of l w = Some \<lparr>lo_peerId = js_lower p, lo_taskId = js_lower t\<rparr>
      \<and> lease_owner_of l' = (lease_owner_of l)(w := None)"
  using lease_manager.drop_holder [of fmt w "\<lparr>lo_peerId = p, lo_taskId = t\<rparr>" l] assms
  by (simp add: drop_for_def norm_owner_def)

lemma acquire_effect:
  assumes "acquire fmt w p t l = Inr l'"
  shows "lease_owner_of l w \<in> {None, Some \<lparr>lo_peerId = js_lower p, lo_taskId = js_lower t\<rparr>}"
    "lease_owner_of l' = (lease_owner_of l)(w \<mapsto> \<lparr>lo_peerId = js_lower p, lo_taskId = js_lower t\<rparr>)"
proof -
  have *: "take_for fmt w \<lparr>lo_peerId = p, lo_taskId = t\<rparr> l = Some l'"
    using assms by (simp add: take_for_def)
  show "lease_owner_of l w \<in> {None, Some \<lparr>lo_peerId = js_lower p, lo_taskId = js_lower t\<rparr>}"
    using lease_manager.take_refused [of l w _ "\<lparr>lo_peerId = p, lo_taskId = t\<rparr>" fmt] *
    by (cases "lease_owner_of l w") (auto simp: norm_owner_def)
  show "lease_owner_of l' = (lease_owner_of l)(w \<mapsto> \<lparr>lo_peerId = js_lower p, lo_taskId = js_lower t\<rparr>)"
    using lease_manager.take_holder [OF *] by (simp add: norm_owner_def)
qed

lemma bindings_inv:
  assumes "registry_ok rg" "js_wf bs"
    and "\<And>t b. js_get bs t = Some b \<Longrightarrow> rr_taskId (tb_request b) = t \<and> lease_owner_of leases (tb_workspaceLeaseKey b)
        = Some \<lparr>lo_peerId = rr_ownerId (tb_request b), lo_taskId = t\<rparr>"
  shows "registry_ok (rg\<lparr>rg_leases := leases, rg_taskBindings := bs\<rparr>)"
  using assms
  by (simp add: registry_inv_def base_ok_def bindings_ok_def node_context_of_def catalog_of_def)

lemma bound_lease:
  assumes "registry_ok rg" "js_get (rg_taskBindings rg) t = Some b"
  shows "rr_taskId (tb_request b) = t" "lease_owner_of (rg_leases rg) (tb_workspaceLeaseKey b)
        = Some \<lparr>lo_peerId = rr_ownerId (tb_request b), lo_taskId = t\<rparr>"
  using assms by (auto simp: registry_inv_def base_ok_def bindings_ok_def)

lemma releaseTaskRoute_ok:
  assumes ok: "registry_ok rg"
  shows "registry_ok (snd (releaseTaskRoute cfg now p t rg))"
proof -
  have "registry_ok (rg\<lparr>rg_leases := leases, rg_taskBindings := js_delete u (rg_taskBindings rg)\<rparr>)"
    if r: "release (rc_formats cfg) w q u (rg_leases rg) = Inr leases" and low: "js_lower u = u" for w q u leases
  proof (rule bindings_inv [OF ok])
    show "js_wf (js_delete u (rg_taskBindings rg))"
      using ok by (simp add: registry_inv_def base_ok_def js_map)
    fix v b assume "js_get (js_delete u (rg_taskBindings rg)) v = Some b"
    then have v: "v \<noteq> u" "js_get (rg_taskBindings rg) v = Some b" by (auto simp: js_map split: if_splits)
    from bound_lease [OF ok v(2)] release_effect [OF r] v(1) low
    show "rr_taskId (tb_request b) = v \<and> lease_owner_of leases (tb_workspaceLeaseKey b)
        = Some \<lparr>lo_peerId = rr_ownerId (tb_request b), lo_taskId = v\<rparr>" by auto
  qed
  then show ?thesis
    using ok prune_ok by (auto simp: releaseTaskRoute_def uuidSchema_def split: option.splits if_splits sum.split)
qed

lemma available_route:
  assumes "requireAvailableTaskRoute cfg rg request = Inr (q, nd, claim)"
  shows "taskRouteRequestSchema (rc_formats cfg) request = Some q"
    "authorize_route cfg rg q = Inr ()" "assertReady rg = Inr ()"
    "requireLiveNode rg \<lparr>ni_nodeId = rr_nodeId q, ni_nodeInstanceId = rr_nodeInstanceId q\<rparr> = Inr nd"
    "claim \<in> set (js_values (rg_claims rg))" "cl_workspaceId claim = rr_workspaceId q"
    "cl_nodeId claim = rr_nodeId q" "cl_nodeInstanceId claim = rr_nodeInstanceId q"
    "\<exists>c \<in> set (catalog_of rg). ce_workspaceId c = rr_workspaceId q \<and> ce_enabled c"
    "lease_owner_of (rg_leases rg) (cl_workspaceIdentity claim)
       \<in> {None, Some \<lparr>lo_peerId = rr_ownerId q, lo_taskId = rr_taskId q\<rparr>}"
proof -
  have ready: "assertReady rg = Inr ()"
    using assms by (auto simp: requireAvailableTaskRoute_def bindR_Inr_conv)
  obtain q' where q': "taskRouteRequestSchema (rc_formats cfg) request = Some q'"
    using assms ready by (cases "taskRouteRequestSchema (rc_formats cfg) request") 
      (auto simp: requireAvailableTaskRoute_def)
  have auth: "authorize_route cfg rg q' = Inr ()"
    using assms ready q' by (cases "authorize_route cfg rg q'") (auto simp: requireAvailableTaskRoute_def)
  obtain nd' where nd': "requireLiveNode rg \<lparr>ni_nodeId = rr_nodeId q', ni_nodeInstanceId = rr_nodeInstanceId q'\<rparr> = Inr nd'"
    using assms ready q' auth
    by (cases "requireLiveNode rg \<lparr>ni_nodeId = rr_nodeId q', ni_nodeInstanceId = rr_nodeInstanceId q'\<rparr>")
      (auto simp: requireAvailableTaskRoute_def)
  let ?f = "find (\<lambda>c. cl_workspaceId c = rr_workspaceId q' \<and> cl_nodeId c = rr_nodeId q'
                        \<and> cl_nodeInstanceId c = rr_nodeInstanceId q') (js_values (rg_claims rg))"
  obtain claim' where f: "?f = Some claim'"
    using assms ready q' auth nd' by (cases ?f) (auto simp: requireAvailableTaskRoute_def)
  have "q' = q \<and> nd' = nd \<and> claim' = claim
      \<and> \<not> (case find (\<lambda>c. ce_workspaceId c = cl_workspaceId claim') (catalog_of rg) of
             None \<Rightarrow> True | Some c \<Rightarrow> \<not> ce_enabled c)
      \<and> \<not> (case lease_owner_of (rg_leases rg) (cl_workspaceIdentity claim') of None \<Rightarrow> False
            | Some h \<Rightarrow> lo_peerId h \<noteq> rr_ownerId q' \<or> lo_taskId h \<noteq> rr_taskId q')"
    using assms by (simp add: requireAvailableTaskRoute_def ready q' auth nd' f split: if_splits)
  then have eq: "q' = q" "nd' = nd" "claim' = claim"
    and cat: "\<exists>c. find (\<lambda>c. ce_workspaceId c = cl_workspaceId claim') (catalog_of rg) = Some c \<and> ce_enabled c"
    and lease: "lease_owner_of (rg_leases rg) (cl_workspaceIdentity claim')
       \<in> {None, Some \<lparr>lo_peerId = rr_ownerId q', lo_taskId = rr_taskId q'\<rparr>}"
    by (auto split: option.splits)
  show "taskRouteRequestSchema (rc_formats cfg) request = Some q" "authorize_route cfg rg q = Inr ()"
    "assertReady rg = Inr ()" using q' auth ready eq by simp_all
  show "requireLiveNode rg \<lparr>ni_nodeId = rr_nodeId q, ni_nodeInstanceId = rr_nodeInstanceId q\<rparr> = Inr nd"
    using nd' eq by simp
  from find_Some_mem [OF f] eq show "claim \<in> set (js_values (rg_claims rg))"
    "cl_workspaceId claim = rr_workspaceId q" "cl_nodeId claim = rr_nodeId q"
    "cl_nodeInstanceId claim = rr_nodeInstanceId q" by simp_all
  then show "\<exists>c \<in> set (catalog_of rg). ce_workspaceId c = rr_workspaceId q \<and> ce_enabled c"
    using cat eq by (auto dest!: find_Some_mem)
  show "lease_owner_of (rg_leases rg) (cl_workspaceIdentity claim)
       \<in> {None, Some \<lparr>lo_peerId = rr_ownerId q, lo_taskId = rr_taskId q\<rparr>}"
    using lease eq by simp
qed

lemma route_request_lower:
  assumes "taskRouteRequestSchema fmt request = Some q"
  shows "js_lower (rr_taskId q) = rr_taskId q" "js_lower (rr_ownerId q) = rr_ownerId q"
    "fmt_uuid fmt (rr_taskId request)" "rr_taskId q = js_lower (rr_taskId request)"
  using assms by (auto simp: taskRouteRequestSchema_def Let_def split: if_splits)

lemma acquireTaskRoute_ok:
  assumes ok: "registry_ok rg"
  shows "registry_ok (snd (acquireTaskRoute cfg capability request rg))"
proof -
  have "registry_ok (rg\<lparr>rg_leases := leases,
      rg_taskBindings := js_set (rr_taskId q) (new_binding capability rg q nd claim) (rg_taskBindings rg)\<rparr>)"
    if r: "requireAvailableTaskRoute cfg rg request = Inr (q, nd, claim)"
      and a: "acquire (rc_formats cfg) (cl_workspaceIdentity claim) (rr_ownerId q) (rr_taskId q) (rg_leases rg)
        = Inr leases" for q nd claim leases
  proof (rule bindings_inv [OF ok])
    note low = route_request_lower [OF available_route(1) [OF r]]
    note l = acquire_effect [OF a, unfolded low(1,2)]
    show "js_wf (js_set (rr_taskId q) (new_binding capability rg q nd claim) (rg_taskBindings rg))"
      using ok by (simp add: registry_inv_def base_ok_def js_map)
    fix t b assume b: "js_get (js_set (rr_taskId q) (new_binding capability rg q nd claim) (rg_taskBindings rg)) t = Some b"
    show "rr_taskId (tb_request b) = t \<and> lease_owner_of leases (tb_workspaceLeaseKey b)
        = Some \<lparr>lo_peerId = rr_ownerId (tb_request b), lo_taskId = t\<rparr>"
    proof (cases "t = rr_taskId q")
      case True
      with b l(2) show ?thesis by (auto simp: js_map new_binding_def Let_def)
    next
      case False
      with b have old: "js_get (rg_taskBindings rg) t = Some b" by (simp add: js_map)
      with bound_lease [OF ok old] l False show ?thesis by auto
    qed
  qed
  then show ?thesis
    using ok by (auto simp: acquireTaskRoute_def Let_def split: sum.split prod.split option.split)
qed

section \<open>The catalog\<close>

text \<open>Entries keep their ids and stay enabled; entries may be added.\<close>

definition grows :: "catalog_entry list \<Rightarrow> catalog_entry list \<Rightarrow> bool" where
  "grows cat cat' \<longleftrightarrow>
     (\<forall>c \<in> set cat. \<exists>c' \<in> set cat'. ce_workspaceId c' = ce_workspaceId c
        \<and> ce_workspaceIdentity c' = ce_workspaceIdentity c \<and> (ce_enabled c \<longrightarrow> ce_enabled c'))"

lemma grows_known: "grows cat cat' \<Longrightarrow> known cat w i \<Longrightarrow> known cat' w i"
  by (auto simp: grows_def known_def)

lemma catalog_grows_ok:
  assumes "registry_ok rg" "catalog_ok cat'" "grows (catalog_of rg) cat'"
  shows "registry_ok (rg\<lparr>rg_catalog := Some cat'\<rparr>)"
proof -
  have "claim_ok cat' N i c" if "claim_ok (catalog_of rg) N i c" for N i c
    using that assms(3) unfolding claim_ok_def grows_def by metis
  moreover have "node_ok 0 {} ((node_context_of rg)\<lparr>nc_catalog := cat'\<rparr>) k nd"
    if "node_ok 0 {} (node_context_of rg) k nd" for k nd
    using that grows_known [OF assms(3)] by (auto simp: node_ok_def node_context_of_def)
  ultimately show ?thesis
    using assms(1,2)
    by (auto simp: registry_inv_def view_ok_def base_ok_def bindings_ok_def node_context_of_def catalog_of_def)
qed

lemma parse_all_set: "parse_all p xs = Some ys \<Longrightarrow> length ys = length xs \<and> (\<forall>i < length xs. p (xs ! i) = Some (ys ! i))"
proof (induction xs arbitrary: ys)
  case (Cons x xs)
  then obtain y zs where "p x = Some y" "parse_all p xs = Some zs" "ys = y # zs"
    by (auto split: option.splits)
  with Cons.IH show ?case by (auto simp: nth_Cons split: nat.split)
qed simp

lemma catalog_schema_result:
  assumes "workspaceCatalogV2Schema fmt xs = Some ys"
  shows "ys = map (\<lambda>c. c\<lparr>ce_workspaceId := js_lower (ce_workspaceId c)\<rparr>) xs"
    "length ys \<le> workspaceListCount" "distinct (map ce_workspaceId ys)" "distinct (map ce_workspaceIdentity ys)"
proof -
  from assms have p: "parse_all (workspaceCatalogEntrySchema fmt) xs = Some ys" and l: "length xs \<le> workspaceListCount"
    and d: "distinct (map ce_workspaceId ys)" "distinct (map ce_workspaceIdentity ys)"
    by (auto simp: workspaceCatalogV2Schema_def split: option.splits if_splits)
  note q = parse_all_set [OF p]
  have "ys ! i = (xs ! i)\<lparr>ce_workspaceId := js_lower (ce_workspaceId (xs ! i))\<rparr>" if "i < length xs" for i
    using q that by (auto simp: workspaceCatalogEntrySchema_def split: if_splits)
  then show "ys = map (\<lambda>c. c\<lparr>ce_workspaceId := js_lower (ce_workspaceId c)\<rparr>) xs"
    using q by (intro nth_equalityI) simp_all
  show "length ys \<le> workspaceListCount" "distinct (map ce_workspaceId ys)" "distinct (map ce_workspaceIdentity ys)"
    using q l d by simp_all
qed

lemma parsed_catalog_ok:
  assumes "parsed_catalog cfg xs = Inr ys"
  shows "ys = map (\<lambda>c. c\<lparr>ce_workspaceId := js_lower (ce_workspaceId c)\<rparr>) xs" "catalog_ok ys"
  using assms catalog_schema_result [of "rc_formats cfg" xs ys]
  by (auto simp: parsed_catalog_def catalog_ok_def split: option.splits)

lemma catalog_lower:
  "catalog_ok cat \<Longrightarrow> c \<in> set cat \<Longrightarrow> c\<lparr>ce_workspaceId := js_lower (ce_workspaceId c)\<rparr> = c"
  by (auto simp: catalog_ok_def)

lemma catalog_same_id: "catalog_ok cat \<Longrightarrow> c \<in> set cat \<Longrightarrow> d \<in> set cat \<Longrightarrow> ce_workspaceId c = ce_workspaceId d \<Longrightarrow> c = d"
  unfolding catalog_ok_def distinct_map by (auto dest: inj_onD)

lemma catalog_same_identity:
  "catalog_ok cat \<Longrightarrow> c \<in> set cat \<Longrightarrow> d \<in> set cat \<Longrightarrow> ce_workspaceIdentity c = ce_workspaceIdentity d \<Longrightarrow> c = d"
  unfolding catalog_ok_def distinct_map by (auto dest: inj_onD)

text \<open>What \<open>upsertCatalogEntry\<close> decides: the entry is in the catalog that holds afterwards.\<close>

definition upserted :: "catalog_entry list \<Rightarrow> catalog_entry \<Rightarrow> catalog_entry list option \<Rightarrow> bool" where
  "upserted cat entry written \<longleftrightarrow>
     (case written of
        None \<Rightarrow> entry \<in> set cat
      | Some next_catalog \<Rightarrow> catalog_ok next_catalog \<and> grows cat next_catalog \<and> entry \<in> set next_catalog)"

lemma upsert_ok:
  assumes ok: "catalog_ok cat" and u: "upsertCatalogEntry cfg now fresh_id input cat = Inr (entry, written)"
  shows "upserted cat entry written" "ce_workspaceIdentity entry = cp_workspaceIdentity input"
proof -
  let ?fmt = "rc_formats cfg"
  have "upserted cat entry written \<and> ce_workspaceIdentity entry = cp_workspaceIdentity input"
  proof (cases "find (\<lambda>c. ce_workspaceIdentity c = cp_workspaceIdentity input) cat")
    case None
    from u None obtain new where new: "workspaceCatalogEntrySchema ?fmt new = Some entry"
      "ce_workspaceIdentity new = cp_workspaceIdentity input"
      and p: "\<exists>n. parsed_catalog cfg (cat @ [entry]) = Inr n \<and> written = Some n"
      by (auto simp: upsertCatalogEntry_def Let_def bindR_Inr_conv split: option.splits if_splits)
    from p obtain n where n: "parsed_catalog cfg (cat @ [entry]) = Inr n" "written = Some n" by blast
    from new have e: "ce_workspaceIdentity entry = cp_workspaceIdentity input"
      "js_lower (ce_workspaceId entry) = ce_workspaceId entry"
      by (auto simp: workspaceCatalogEntrySchema_def split: if_splits)
    have "n = cat @ [entry]"
      using parsed_catalog_ok(1) [OF n(1)] catalog_lower [OF ok] e(2) by (simp add: map_idI)
    with parsed_catalog_ok(2) [OF n(1)] n(2) e show ?thesis by (auto simp: upserted_def grows_def)
  next
    case (Some c)
    then have c: "c \<in> set cat" "ce_workspaceIdentity c = cp_workspaceIdentity input"
      by (auto dest: find_Some_mem)
    show ?thesis
    proof (cases "ce_name c = cp_name input \<and> ce_capabilityTags c = cp_capabilityTags input")
      case True
      with u Some c show ?thesis
        by (auto simp: upsertCatalogEntry_def Let_def upserted_def split: option.splits if_splits)
    next
      case False
      let ?u = "c\<lparr>ce_name := cp_name input, ce_capabilityTags := cp_capabilityTags input,
                        ce_updatedAt := to_iso_string now\<rparr>"
      let ?put = "\<lambda>w. if ce_workspaceId w = ce_workspaceId entry then entry else w"
      from u Some False have s: "workspaceCatalogEntrySchema ?fmt ?u = Some entry"
        and p: "\<exists>n. parsed_catalog cfg (map ?put cat) = Inr n \<and> written = Some n"
        by (auto simp: upsertCatalogEntry_def Let_def bindR_Inr_conv split: option.splits if_splits)
      from p obtain n where n: "parsed_catalog cfg (map ?put cat) = Inr n" "written = Some n" by blast
      from s have "entry = ?u\<lparr>ce_workspaceId := js_lower (ce_workspaceId ?u)\<rparr>"
        by (simp add: workspaceCatalogEntrySchema_def split: if_splits)
      with ok c(1) have entry: "entry = ?u" by (auto simp: catalog_ok_def)
      have same: "w \<in> set cat \<Longrightarrow> ce_workspaceId w = ce_workspaceId entry \<Longrightarrow> w = c" for w
        using catalog_same_id [OF ok _ c(1)] entry by simp
      have low: "map (\<lambda>c. c\<lparr>ce_workspaceId := js_lower (ce_workspaceId c)\<rparr>) (map ?put cat) = map ?put cat"
        using catalog_lower [OF ok] ok c(1) entry by (auto simp: catalog_ok_def)
      then have "n = map ?put cat" using parsed_catalog_ok(1) [OF n(1)] by simp
      moreover have "entry \<in> set (map ?put cat)" using c(1) entry by (auto intro!: image_eqI [of _ _ c])
      moreover have "grows cat (map ?put cat)"
        unfolding grows_def
      proof
        fix w assume w: "w \<in> set cat"
        show "\<exists>w' \<in> set (map ?put cat). ce_workspaceId w' = ce_workspaceId w
            \<and> ce_workspaceIdentity w' = ce_workspaceIdentity w \<and> (ce_enabled w \<longrightarrow> ce_enabled w')"
          by (rule bexI [of _ "?put w"]) (use same [OF w] w entry in auto)
      qed
      ultimately show ?thesis
        using parsed_catalog_ok(2) [OF n(1)] n(2) c(2) entry by (simp add: upserted_def)
    qed
  qed
  then show "upserted cat entry written" "ce_workspaceIdentity entry = cp_workspaceIdentity input" by simp_all
qed

lemma store_catalog_ok:
  assumes "registry_ok rg" "upserted (catalog_of rg) entry written"
    and "store_catalog ok written rg = (res, rg')"
  shows "registry_ok rg'" "res = Inr u \<Longrightarrow> entry \<in> set (catalog_of rg')"
    "rg_nodes rg' = rg_nodes rg" "rg_claims rg' = rg_claims rg" "rg_closed rg' = rg_closed rg"
proof -
  have "registry_ok rg' \<and> (res = Inr u \<longrightarrow> entry \<in> set (catalog_of rg'))
    \<and> rg_nodes rg' = rg_nodes rg \<and> rg_claims rg' = rg_claims rg \<and> rg_closed rg' = rg_closed rg"
  proof (cases written)
    case None
    with assms show ?thesis by (auto simp: store_catalog_def upserted_def)
  next
    case (Some n)
    with assms(2) have n: "catalog_ok n" "grows (catalog_of rg) n" "entry \<in> set n"
      by (auto simp: upserted_def)
    from catalog_grows_ok [OF assms(1) n(1,2)]
    have "registry_ok (rg\<lparr>rg_catalog := Some n, rg_stored := Some (Catalog_V2 n)\<rparr>)"
      using inv_simps(8) by metis
    with assms(1,3) Some n(3) show ?thesis
      by (auto simp: store_catalog_def catalog_of_def inv_simps(8) split: update_answer.splits)
  qed
  then show "registry_ok rg'" "res = Inr u \<Longrightarrow> entry \<in> set (catalog_of rg')"
    "rg_nodes rg' = rg_nodes rg" "rg_claims rg' = rg_claims rg" "rg_closed rg' = rg_closed rg" by blast+
qed

section \<open>Claims\<close>

lemma observe_simps [simp]:
  "nd_nodeId (observe input w st nd) = nd_nodeId nd"
  "nd_nodeInstanceId (observe input w st nd) = nd_nodeInstanceId nd"
  "nd_session (observe input w st nd) = nd_session nd" "nd_status (observe input w st nd) = nd_status nd"
  "nd_listening (observe input w st nd) = nd_listening nd"
  by (simp_all add: observe_def Let_def)

lemma observe_ok:
  assumes ok: "registry_ok rg" and nd: "js_get (rg_nodes rg) k = Some nd" and live: "session_open rg nd"
    and entry: "e \<in> set (catalog_of rg)" "ce_workspaceIdentity e = cp_workspaceIdentity input"
    and wf: "js_wf C'"
    and st: "if status = Claimed
      then ce_enabled e \<and> (\<forall>c. js_get (rg_claims rg) (cp_workspaceIdentity input) = Some c \<longrightarrow> claimed_by nd c)
        \<and> js_get C' = (js_get (rg_claims rg))(cp_workspaceIdentity input \<mapsto>
            \<lparr>cl_workspaceIdentity = cp_workspaceIdentity input, cl_workspaceId = ce_workspaceId e,
             cl_nodeId = nd_nodeId nd, cl_nodeInstanceId = nd_nodeInstanceId nd\<rparr>)
      else js_get C' = js_get (rg_claims rg)
        \<and> (\<forall>c. js_get (rg_claims rg) (cp_workspaceIdentity input) = Some c \<longrightarrow> \<not> claimed_by nd c)"
  shows "registry_ok (put_node (observe input (ce_workspaceId e) status nd) (rg\<lparr>rg_claims := C'\<rparr>))"
proof (rule put_node_inv [OF ok wf])
  let ?nd = "observe input (ce_workspaceId e) status nd" and ?i = "cp_workspaceIdentity input"
  note n = inv_node [OF ok nd]
  have id: "nd_nodeId nd = k" using n by (simp add: node_ok_def)
  show "js_get (rg_nodes rg) (nd_nodeId ?nd) = None \<longrightarrow> length (rg_nodes rg) < nodeListCount"
    using nd id by simp
  have kn: "known (catalog_of rg) (ce_workspaceId e) ?i" using entry by (auto simp: known_def)
  show "node_ok 0 {} ((node_context_of rg)\<lparr>nc_claims := js_get C'\<rparr>) (nd_nodeId ?nd) ?nd"
    using n kn live st opened_iff [of rg nd] id
    by (auto simp: node_ok_def observe_def Let_def js_map node_context_of_def claimed_by_def opened_def
        split: if_splits)
  fix j m assume "js_get (rg_nodes rg) j = Some m" "nd_nodeInstanceId m = nd_nodeInstanceId ?nd"
  then show "j = nd_nodeId ?nd"
    using ok nd id by (auto simp: registry_inv_def view_ok_def unique_instances_def)
next
  let ?nd = "observe input (ce_workspaceId e) status nd" and ?i = "cp_workspaceIdentity input"
  have id: "nd_nodeId nd = k" by (rule inv_id [OF ok nd])
  fix i c
  show "js_get (rg_claims rg) i = Some c \<Longrightarrow> cl_nodeId c \<noteq> nd_nodeId ?nd \<Longrightarrow> js_get C' i = Some c"
    using st by (auto simp: claimed_by_def split: if_splits)
  assume c: "js_get C' i = Some c"
  show "js_get (rg_claims rg) i = Some c \<and> cl_nodeId c \<noteq> nd_nodeId ?nd \<or>
      claim_ok (catalog_of rg) ((js_get (rg_nodes rg))(nd_nodeId ?nd \<mapsto> ?nd)) i c"
  proof (cases "status = Claimed \<and> i = ?i")
    case True
    with c st entry show ?thesis by (auto simp: claim_ok_def observe_def Let_def js_map)
  next
    case False
    with c st have old: "js_get (rg_claims rg) i = Some c" by (auto split: if_splits)
    note k = inv_claim [OF ok old]
    have "i \<noteq> ?i" if "cl_nodeId c = k"
      using that k nd st False old by (auto simp: claim_ok_def claimed_by_def id split: if_splits)
    with k nd id old show ?thesis by (auto simp: claim_ok_def observe_def Let_def js_map)
  qed
qed simp

lemma claim_resume_ok:
  assumes ok: "registry_ok rg" and up: "upserted (catalog_of rg) (pc_entry pc) (pc_written pc)"
    and ident: "ce_workspaceIdentity (pc_entry pc) = cp_workspaceIdentity (pc_input pc)"
  shows "registry_ok (snd (claim_resume b pc rg))"
proof -
  obtain res rg1 where s: "store_catalog b (pc_written pc) rg = (res, rg1)" by fastforce
  note st = store_catalog_ok [OF ok up s]
  show ?thesis
  proof (cases res)
    case (Inl e)
    with s st(1) show ?thesis by (simp add: claim_resume_def)
  next
    case (Inr u)
    note entry = st(2) [OF Inr]
    let ?i = "cp_workspaceIdentity (pc_input pc)"
    show ?thesis
    proof (cases "requireLiveNode rg1 (claim_identity (pc_input pc))")
      case (Inl e)
      with s st(1) \<open>res = Inr u\<close> show ?thesis by (simp add: claim_resume_def Let_def)
    next
      case live: (Inr nd)
      note l = live_node [OF live]
      have wf: "js_wf (rg_claims rg1)" using st(1) by (simp add: registry_inv_def base_ok_def)
      let ?foreign = "case js_get (rg_claims rg1) ?i of None \<Rightarrow> False
        | Some c \<Rightarrow> cl_nodeId c \<noteq> nd_nodeId nd \<or> cl_nodeInstanceId c \<noteq> nd_nodeInstanceId nd"
      have foreign: "?foreign \<longleftrightarrow> (\<exists>c. js_get (rg_claims rg1) ?i = Some c \<and> \<not> claimed_by nd c)"
        by (auto simp: claimed_by_def split: option.splits)
      have same: "rg1\<lparr>rg_claims := rg_claims rg1\<rparr> = rg1" by simp
      have disabled: "\<not> ce_enabled (pc_entry pc) \<Longrightarrow>
          registry_ok (put_node (observe (pc_input pc) (ce_workspaceId (pc_entry pc)) Read_Only nd) rg1)"
      proof -
        assume d: "\<not> ce_enabled (pc_entry pc)"
        have "js_get (rg_claims rg1) ?i = None"
        proof (cases "js_get (rg_claims rg1) ?i")
          case (Some c)
          then obtain e where e: "e \<in> set (catalog_of rg1)" "ce_workspaceIdentity e = ?i" "ce_enabled e"
            using inv_claim [OF st(1) Some] by (auto simp: claim_ok_def)
          have "catalog_ok (catalog_of rg1)" using st(1) by (simp add: registry_inv_def base_ok_def)
          from catalog_same_identity [OF this e(1) entry] e(2,3) ident d show ?thesis by simp
        qed
        then show ?thesis
          using observe_ok [OF st(1) l(1,4) entry ident wf, of Read_Only] by (simp add: same)
      qed
      have conflict: "?foreign \<Longrightarrow>
          registry_ok (put_node (observe (pc_input pc) (ce_workspaceId (pc_entry pc)) Claim_Conflict nd) rg1)"
        using observe_ok [OF st(1) l(1,4) entry ident wf, of Claim_Conflict] foreign by (auto simp: same)
      have granted: "ce_enabled (pc_entry pc) \<Longrightarrow> \<not> ?foreign \<Longrightarrow>
          registry_ok (put_node (observe (pc_input pc) (ce_workspaceId (pc_entry pc)) Claimed nd)
            (rg1\<lparr>rg_claims := js_set ?i \<lparr>cl_workspaceIdentity = ?i, cl_workspaceId = ce_workspaceId (pc_entry pc),
                cl_nodeId = nd_nodeId nd, cl_nodeInstanceId = nd_nodeInstanceId nd\<rparr> (rg_claims rg1)\<rparr>))"
        using foreign
        by (intro observe_ok [OF st(1) l(1,4) entry ident js_wf_set [OF wf]]) (auto simp: js_map)
      show ?thesis
        using s \<open>res = Inr u\<close> st(1) disabled conflict granted
        by (simp add: claim_resume_def Let_def live)
    qed
  qed
qed

text \<open>No synchronous call touches the catalog.\<close>

lemma lost_catalog: "only_lost rg rg' \<Longrightarrow> rg_catalog rg' = rg_catalog rg"
  by (simp add: only_lost_def)

lemma put_node_catalog [simp]: "rg_catalog (put_node nd rg) = rg_catalog rg"
  by (simp add: put_node_def)

lemma listen_catalog [simp]: "rg_catalog (listenForNodeClose s nd rg) = rg_catalog rg"
  by (simp add: listenForNodeClose_def)

lemma prune_catalog [simp]: "rg_catalog (pruneOfflineTombstones cfg now rg) = rg_catalog rg"
  by (simp add: pruneOfflineTombstones_def)

lemma evict_catalog [simp]: "rg_catalog (evictOfflineTombstones cfg n rg) = rg_catalog rg"
  by (simp add: evictOfflineTombstones_def)

lemma close_listener_catalog [simp]: "rg_catalog (close_listener now s k rg) = rg_catalog rg"
  by (simp add: close_listener_def split: option.split)

lemma close_listeners_catalog [simp]: "rg_catalog (fold (close_listener now s) ks rg) = rg_catalog rg"
  by (induction ks arbitrary: rg) simp_all

lemma close_session_catalog [simp]: "rg_catalog (close_session now s rg) = rg_catalog rg"
  by (simp add: close_session_def)

lemma loseNode_catalog [simp]: "rg_catalog (loseNode now b nd rg) = rg_catalog rg"
  by (simp add: loseNode_def Let_def split: option.split)

lemma sweep_nodes_catalog: "rg_catalog (snd (fold (sweep_node now c) ks st)) = rg_catalog (snd st)"
proof (induction ks arbitrary: st)
  case (Cons k ks)
  have "rg_catalog (snd (sweep_node now c k st)) = rg_catalog (snd st)"
    by (simp add: sweep_node_def split: prod.split option.split)
  with Cons show ?case by simp
qed simp

lemma dispose_nodes_catalog: "rg_catalog (fold (dispose_node now) ks rg) = rg_catalog rg"
proof (induction ks arbitrary: rg)
  case (Cons k ks)
  have "rg_catalog (dispose_node now k rg) = rg_catalog rg"
    by (simp add: dispose_node_def split: option.split)
  with Cons show ?case by simp
qed simp

lemma register_catalog: "rg_catalog (snd (register cfg now c p s rg)) = rg_catalog rg"
  by (simp add: register_def add_node_def reconnect_def Let_def split: sum.split option.split)

lemma sweep_catalog: "rg_catalog (snd (sweepExpired cfg now rg)) = rg_catalog rg"
  using sweep_nodes_catalog [of now "now - rc_heartbeatTtlMs cfg" "map fst (rg_nodes rg)" "([], rg)"]
  by (cases "fold (sweep_node now (now - rc_heartbeatTtlMs cfg)) (map fst (rg_nodes rg)) ([], rg)")
    (simp add: sweepExpired_def split: sum.split)

lemma run_sync_catalog: "rg_catalog (run_sync cfg c rg) = rg_catalog rg"
proof -
  obtain now call where c: "c = (now, call)" by (cases c)
  show ?thesis
    using register_catalog sweep_catalog dispose_nodes_catalog
    by (cases call)
      (simp_all add: c heartbeat_def unregister_def releaseWorkspace_def releaseTaskRoute_def
        setPeerRouteAuthorizer_def dispose_def run_microtask_def Let_def
        split: sum.split option.split list.split)
qed

lemma run_syncs_catalog: "catalog_of (fold (run_sync cfg) cs rg) = catalog_of rg"
proof -
  have "rg_catalog (fold (run_sync cfg) cs rg) = rg_catalog rg"
    by (induction cs arbitrary: rg) (simp_all add: run_sync_catalog)
  then show ?thesis by (simp add: catalog_of_def)
qed

lemma run_sync_ok: "registry_ok rg \<Longrightarrow> registry_ok (run_sync cfg c rg)"
proof -
  assume ok: "registry_ok rg"
  obtain now call where c: "c = (now, call)" by (cases c)
  show ?thesis
    by (cases call)
      (simp_all add: c ok register_ok heartbeat_ok unregister_ok sweep_ok releaseWorkspace_ok
        releaseTaskRoute_ok authorizer_ok dispose_ok close_session_ok microtask_ok)
qed

lemma run_syncs_ok: "registry_ok rg \<Longrightarrow> registry_ok (fold (run_sync cfg) cs rg)"
  by (induction cs arbitrary: rg) (simp_all add: run_sync_ok)

lemma claimWorkspace_ok:
  assumes ok: "registry_ok rg"
  shows "registry_ok (snd (claimWorkspace cfg now fresh_id b (fold (run_sync cfg) cs) p rg))"
proof (cases "claim_begin cfg now fresh_id p rg")
  case (Inl e)
  with ok show ?thesis by (simp add: claimWorkspace_def)
next
  case (Inr pc)
  then have up: "upsertCatalogEntry cfg now fresh_id (pc_input pc) (catalog_of rg) = Inr (pc_entry pc, pc_written pc)"
    by (auto simp: claim_begin_def bindR_Inr_conv split: option.splits)
  have "catalog_ok (catalog_of rg)" using ok by (simp add: registry_inv_def base_ok_def)
  from upsert_ok [OF this up] claim_resume_ok [OF run_syncs_ok [OF ok]]
  show ?thesis using Inr by (simp add: claimWorkspace_def run_syncs_catalog)
qed


lemma index_where_Some: "index_where P xs = Some i \<Longrightarrow> i < length xs \<and> P (xs ! i)"
  using find_Some_mem [of "\<lambda>i. P (xs ! i)" "[0..<length xs]" i] by (simp add: index_where_def)

lemma enable_begin_result:
  assumes ok: "catalog_ok (catalog_of rg)"
    and b: "enable_begin cfg now w enabled rg = Inr (current, updated, next_catalog)"
  shows "current \<in> set (catalog_of rg)" "updated = current\<lparr>ce_enabled := enabled, ce_updatedAt := to_iso_string now\<rparr>"
    "catalog_ok next_catalog" "updated \<in> set next_catalog"
    "\<And>c. c \<in> set (catalog_of rg) \<Longrightarrow> c = current \<or> c \<in> set next_catalog"
proof -
  from b obtain i where i: "index_where (\<lambda>c. ce_workspaceId c = js_lower w) (catalog_of rg) = Some i"
    and cur: "current = catalog_of rg ! i"
    and u: "workspaceCatalogEntrySchema (rc_formats cfg)
      (current\<lparr>ce_enabled := enabled, ce_updatedAt := to_iso_string now\<rparr>) = Some updated"
    and p: "parsed_catalog cfg ((catalog_of rg)[i := updated]) = Inr next_catalog"
    by (auto simp: enable_begin_def bindR_Inr_conv Let_def uuidSchema_def split: option.splits if_splits)
  have l: "i < length (catalog_of rg)" using index_where_Some [OF i] by simp
  show cur_in: "current \<in> set (catalog_of rg)" using l cur by simp
  have "updated = (current\<lparr>ce_enabled := enabled, ce_updatedAt := to_iso_string now\<rparr>)
      \<lparr>ce_workspaceId := js_lower (ce_workspaceId current)\<rparr>"
    using u by (simp add: workspaceCatalogEntrySchema_def split: if_splits)
  with ok cur_in show upd: "updated = current\<lparr>ce_enabled := enabled, ce_updatedAt := to_iso_string now\<rparr>"
    by (auto simp: catalog_ok_def)
  have low: "c \<in> set ((catalog_of rg)[i := updated]) \<Longrightarrow> c\<lparr>ce_workspaceId := js_lower (ce_workspaceId c)\<rparr> = c" for c
    using catalog_lower [OF ok] upd ok cur_in set_update_subset_insert [of "catalog_of rg" i updated]
    by (auto simp: catalog_ok_def)
  have n: "next_catalog = (catalog_of rg)[i := updated]"
    using parsed_catalog_ok(1) [OF p] low by (simp add: map_idI)
  show "catalog_ok next_catalog" by (rule parsed_catalog_ok(2) [OF p])
  show "updated \<in> set next_catalog" using l by (simp add: n set_update_memI)
  show "c = current \<or> c \<in> set next_catalog" if "c \<in> set (catalog_of rg)" for c
    using that l cur by (auto simp: n in_set_conv_nth nth_list_update)
qed

lemma demote_simps [simp]:
  "nd_nodeId (demote i nd) = nd_nodeId nd" "nd_nodeInstanceId (demote i nd) = nd_nodeInstanceId nd"
  "nd_session (demote i nd) = nd_session nd" "nd_status (demote i nd) = nd_status nd"
  "nd_listening (demote i nd) = nd_listening nd"
  by (simp_all add: demote_def split: option.split)

lemma demote_workspaces:
  "js_get (nd_workspaces (demote i nd)) j =
     (if j = i then map_option (\<lambda>ob. ob\<lparr>ob_status := Read_Only\<rparr>) (js_get (nd_workspaces nd) i)
      else js_get (nd_workspaces nd) j)"
  by (auto simp: demote_def demote_in_def js_map split: option.split)

lemma demote_history:
  "js_get (nd_workspaceHistory (demote i nd)) j =
     (if j = i \<and> js_get (nd_workspaces nd) i \<noteq> None
      then map_option (\<lambda>ob. ob\<lparr>ob_status := Read_Only\<rparr>) (js_get (nd_workspaceHistory nd) i)
      else js_get (nd_workspaceHistory nd) j)"
  by (auto simp: demote_def demote_in_def js_map split: option.split)

lemma demote_wf:
  "js_wf (nd_workspaces nd) \<Longrightarrow> js_wf (nd_workspaces (demote i nd))"
  "js_wf (nd_workspaceHistory nd) \<Longrightarrow> js_wf (nd_workspaceHistory (demote i nd))"
  by (auto simp: demote_def demote_in_def js_map split: option.split)

lemma demote_Nil: "nd_workspaces nd = [] \<Longrightarrow> nd_workspaces (demote i nd) = []"
  by (simp add: demote_def)

lemma demote_node_ok:
  assumes n: "node_ok 0 {} nc k nd"
    and K: "\<And>w j. known (nc_catalog nc) w j \<Longrightarrow> known cat' w j"
  shows "node_ok 0 {} \<lparr>nc_closed = nc_closed nc, nc_catalog = cat', nc_claims = (nc_claims nc)(i := None)\<rparr> k (demote i nd)"
proof -
  have ws: "js_get (nd_workspaceHistory (demote i nd)) j = Some ob"
    if "js_get (nd_workspaces (demote i nd)) j = Some ob" for j ob
    using that n by (auto simp: node_ok_def demote_workspaces demote_history split: if_splits)
  have hist: "ob_workspaceIdentity ob = j \<and> known cat' (ob_workspaceId ob) j"
    if "js_get (nd_workspaceHistory (demote i nd)) j = Some ob" for j ob
    using that n K by (auto simp: node_ok_def demote_history split: if_splits)
  have claimed: "\<exists>c. ((nc_claims nc)(i := None)) j = Some c \<and> claimed_by (demote i nd) c \<and> cl_workspaceId c = ob_workspaceId ob"
    if "js_get (nd_workspaces (demote i nd)) j = Some ob" "ob_status ob = Claimed" for j ob
    using that n by (auto simp: node_ok_def demote_workspaces claimed_by_def split: if_splits)
  have "opened (nc_closed nc) (demote i nd) = opened (nc_closed nc) nd" by (simp add: opened_def)
  with n ws hist claimed demote_wf [of nd i] demote_Nil [of nd i] show ?thesis
    by (auto simp: node_ok_def)
qed

lemma disable_ok:
  assumes ok: "registry_ok rg" and b: "enable_begin cfg now w False rg0 = Inr (current, updated, next_catalog)"
    and cat: "catalog_of rg = catalog_of rg0"
  shows "registry_ok (rg\<lparr>rg_catalog := Some next_catalog,
      rg_claims := js_delete (ce_workspaceIdentity current) (rg_claims rg),
      rg_nodes := map (\<lambda>(k, nd). (k, demote (ce_workspaceIdentity current) nd)) (rg_nodes rg)\<rparr>)" (is "registry_ok ?rg")
proof -
  let ?i = "ce_workspaceIdentity current"
  have cok: "catalog_ok (catalog_of rg0)" using ok cat by (simp add: registry_inv_def base_ok_def)
  note r = enable_begin_result [OF cok b]
  have K: "known next_catalog x j" if "known (catalog_of rg) x j" for x j
  proof -
    from that obtain c where c: "c \<in> set (catalog_of rg0)" "ce_workspaceId c = x" "ce_workspaceIdentity c = j"
      using cat by (auto simp: known_def)
    show ?thesis
    proof (cases "c = current")
      case True
      then have "ce_workspaceId updated = x" "ce_workspaceIdentity updated = j" using c r(2) by simp_all
      with r(4) show ?thesis unfolding known_def by blast
    next
      case False
      with r(5) [OF c(1)] c show ?thesis unfolding known_def by blast
    qed
  qed
  have get: "js_get (rg_nodes ?rg) = (\<lambda>k. map_option (demote ?i) (js_get (rg_nodes rg) k))"
    using map_of_map [of "demote ?i" "rg_nodes rg"] by (simp add: fun_eq_iff)
  have "view_ok 0 {} (node_context_of ?rg) (js_get (rg_nodes ?rg))"
    unfolding view_ok_def
  proof (intro conjI allI impI)
    have "unique_instances (js_get (rg_nodes rg))" using ok by (simp add: registry_inv_def view_ok_def)
    then show "unique_instances (js_get (rg_nodes ?rg))"
      unfolding get unique_instances_def by (auto 0 3)
    fix k nd assume "js_get (rg_nodes ?rg) k = Some nd"
    with fun_cong [OF get, of k] have "map_option (demote ?i) (js_get (rg_nodes rg) k) = Some nd" by simp
    then obtain nd0 where nd0: "js_get (rg_nodes rg) k = Some nd0" "nd = demote ?i nd0"
      by (cases "js_get (rg_nodes rg) k") auto
    have ctx: "node_context_of ?rg = \<lparr>nc_closed = rg_closed rg, nc_catalog = next_catalog,
        nc_claims = (js_get (rg_claims rg))(?i := None)\<rparr>"
      by (simp add: node_context_of_def catalog_of_def js_get_delete fun_eq_iff)
    show "node_ok 0 {} (node_context_of ?rg) k nd"
      unfolding ctx nd0(2)
      using demote_node_ok [OF inv_node [OF ok nd0(1)], of next_catalog ?i] K
      by (simp add: node_context_of_def)
  next
    fix j c assume "nc_claims (node_context_of ?rg) j = Some c"
    then have c: "j \<noteq> ?i" "js_get (rg_claims rg) j = Some c"
      by (auto simp: node_context_of_def js_map split: if_splits)
    from inv_claim [OF ok c(2)] obtain nd ob e where k: "cl_workspaceIdentity c = j"
      "js_get (rg_nodes rg) (cl_nodeId c) = Some nd" "nd_nodeInstanceId nd = cl_nodeInstanceId c"
      "js_get (nd_workspaces nd) j = Some ob" "ob_status ob = Claimed" "ob_workspaceId ob = cl_workspaceId c"
      and e: "e \<in> set (catalog_of rg)" "ce_workspaceId e = cl_workspaceId c" "ce_workspaceIdentity e = j" "ce_enabled e"
      by (auto simp: claim_ok_def)
    have "e \<in> set next_catalog" using r(5) [of e] e c(1) cat by auto
    then have cat': "\<exists>e \<in> set (nc_catalog (node_context_of ?rg)). ce_workspaceId e = cl_workspaceId c
        \<and> ce_workspaceIdentity e = j \<and> ce_enabled e"
      using e by (auto simp: node_context_of_def catalog_of_def)
    have N: "js_get (rg_nodes ?rg) (cl_nodeId c) = Some (demote ?i nd)"
      unfolding get by (simp add: k(2))
    show "claim_ok (nc_catalog (node_context_of ?rg)) (js_get (rg_nodes ?rg)) j c"
      unfolding claim_ok_def N using k cat' c(1) by (simp add: demote_workspaces)
  qed
  moreover have "base_ok ?rg"
    using ok r(3) by (auto simp: registry_inv_def base_ok_def bindings_ok_def catalog_of_def js_map
        js_wf_def js_wf_delete [unfolded js_wf_def] case_prod_unfold comp_def)
  ultimately show ?thesis by (simp add: registry_inv_def)
qed


lemma setWorkspaceEnabled_ok:
  assumes ok: "registry_ok rg"
  shows "registry_ok (snd (setWorkspaceEnabled cfg now b (fold (run_sync cfg) cs) w enabled rg))"
proof (cases "enable_begin cfg now w enabled rg")
  case (Inl e)
  with ok show ?thesis by (simp add: setWorkspaceEnabled_def)
next
  case (Inr pending)
  obtain current updated next_catalog where p: "pending = (current, updated, next_catalog)"
    by (cases pending)
  let ?rg = "fold (run_sync cfg) cs rg"
  note ok1 = run_syncs_ok [OF ok, of cfg cs]
  show ?thesis
  proof (cases enabled)
    case True
    have cok: "catalog_ok (catalog_of rg)" using ok by (simp add: registry_inv_def base_ok_def)
    note r = enable_begin_result [OF cok Inr [unfolded p]]
    have "grows (catalog_of rg) next_catalog"
      unfolding grows_def
    proof
      fix c assume "c \<in> set (catalog_of rg)"
      from r(5) [OF this] r(2,4) True
      show "\<exists>c' \<in> set next_catalog. ce_workspaceId c' = ce_workspaceId c
          \<and> ce_workspaceIdentity c' = ce_workspaceIdentity c \<and> (ce_enabled c \<longrightarrow> ce_enabled c')"
        by (cases "c = current") (auto intro: bexI [of _ updated])
    qed
    then have up: "upserted (catalog_of ?rg) updated (Some next_catalog)"
      using r(3,4) by (simp add: upserted_def run_syncs_catalog)
    obtain res rg' where s: "store_catalog b (Some next_catalog) ?rg = (res, rg')" by fastforce
    from store_catalog_ok(1) [OF ok1 up s] True Inr p s show ?thesis
      by (simp add: setWorkspaceEnabled_def enable_resume_def split: sum.split)
  next
    case False
    have d: "registry_ok (?rg\<lparr>rg_catalog := Some next_catalog,
      rg_claims := js_delete (ce_workspaceIdentity current) (rg_claims ?rg),
      rg_nodes := map (\<lambda>(k, nd). (k, demote (ce_workspaceIdentity current) nd)) (rg_nodes ?rg)\<rparr>)"
      using disable_ok [OF ok1, of cfg now w rg current updated next_catalog] Inr p False
      by (simp add: run_syncs_catalog)
    have "registry_ok (?rg\<lparr>rg_catalog := Some next_catalog, rg_stored := x,
      rg_claims := js_delete (ce_workspaceIdentity current) (rg_claims ?rg),
      rg_nodes := map (\<lambda>(k, nd). (k, demote (ce_workspaceIdentity current) nd)) (rg_nodes ?rg)\<rparr>)" for x
    proof -
      have "?rg\<lparr>rg_catalog := Some next_catalog, rg_stored := x,
          rg_claims := js_delete (ce_workspaceIdentity current) (rg_claims ?rg),
          rg_nodes := map (\<lambda>(k, nd). (k, demote (ce_workspaceIdentity current) nd)) (rg_nodes ?rg)\<rparr>
        = ?rg\<lparr>rg_catalog := Some next_catalog,
          rg_claims := js_delete (ce_workspaceIdentity current) (rg_claims ?rg),
          rg_nodes := map (\<lambda>(k, nd). (k, demote (ce_workspaceIdentity current) nd)) (rg_nodes ?rg),
          rg_stored := x\<rparr>" by simp
      then show ?thesis using d by (simp only: inv_simps)
    qed
    with ok1 Inr p False show ?thesis
      by (simp add: setWorkspaceEnabled_def enable_resume_def store_catalog_def inv_simps(8) split: update_answer.split)
  qed
qed

lemma initialize_ok:
  assumes ok: "registry_ok rg"
  shows "registry_ok (snd (initialize cfg b disposes rg))"
proof -
  have entries: "catalog_ok xs" if "workspaceCatalogV2Schema fmt ys = Some xs" for fmt ys xs
    using catalog_schema_result [OF that] by (auto simp: catalog_ok_def)
  have cat: "catalog_ok c" if "initial_catalog cfg rg = Inr (c, w)" for c w
    using that entries
    by (auto simp: initial_catalog_def migrateWorkspaceRegistryV1_def bindR_Inr_conv catalog_ok_def
        split: option.splits stored_catalog.splits if_splits)
  have "registry_ok (snd (initializeCatalog cfg b disposes rg))" if none: "rg_catalog rg = None"
  proof (cases "initial_catalog cfg rg")
    case (Inl e)
    with ok show ?thesis by (simp add: initializeCatalog_def)
  next
    case (Inr cw)
    obtain c w where cw: "cw = (c, w)" by fastforce
    define awaited where "awaited = (if w \<and> disposes then rg\<lparr>rg_disposed := True\<rparr> else rg)"
    define updated where "updated = (if w \<and> b \<noteq> Update_Refused
      then awaited\<lparr>rg_stored := Some (Catalog_V2 c)\<rparr> else awaited)"
    have res: "snd (initializeCatalog cfg b disposes rg) = (if w \<and> b \<noteq> Update_Done then updated
        else updated\<lparr>rg_catalog := Some c, rg_timer := \<not> rg_disposed updated\<rparr>)"
      by (simp add: initializeCatalog_def Inr cw Let_def awaited_def updated_def)
    have "registry_ok awaited" "catalog_of awaited = []"
      using ok none by (simp_all add: awaited_def catalog_of_def)
    then have up: "registry_ok updated" "catalog_of updated = []"
      by (simp_all add: updated_def catalog_of_def)
    then have "registry_ok (updated\<lparr>rg_catalog := Some c\<rparr>)"
      using catalog_grows_ok [of updated c] cat Inr cw by (simp add: grows_def)
    then have "registry_ok (updated\<lparr>rg_catalog := Some c, rg_timer := t\<rparr>)" for t
      by (simp only: inv_simps)
    with up(1) show ?thesis by (simp add: res)
  qed
  then show ?thesis
    using ok by (auto simp: initialize_def split: option.split prod.split)
qed

lemma registry_step_ok: "registry_ok rg \<Longrightarrow> registry_ok (registry_step cfg c rg)"
proof -
  assume ok: "registry_ok rg"
  obtain now call where c: "c = (now, call)" by (cases c)
  show ?thesis
    by (cases call) (simp_all add: c ok run_sync_ok initialize_ok claimWorkspace_ok acquireTaskRoute_ok
        setWorkspaceEnabled_ok)
qed

interpretation registry_run: state_machine "registry_step cfg" registry_ok
  by unfold_locales (rule registry_step_ok)

lemma new_registry_ok:
  "new_registry cfg sweep leases stored legacy = Inr rg \<Longrightarrow> registry_ok rg"
  by (auto simp: new_registry_def registry_inv_def base_ok_def bindings_ok_def view_ok_def
      unique_instances_def node_context_of_def catalog_of_def catalog_ok_def js_map split: if_splits)

text \<open>The registries a run reaches.\<close>

definition reached :: "registry_config \<Rightarrow> registry \<Rightarrow> bool" where
  "reached cfg rg \<longleftrightarrow>
     (\<exists>sweep leases stored legacy rg0 calls. new_registry cfg sweep leases stored legacy = Inr rg0
        \<and> rg = fold (registry_step cfg) calls rg0)"

lemma reached_ok: "reached cfg rg \<Longrightarrow> registry_ok rg"
  using new_registry_ok registry_run.run_inv by (auto simp: reached_def)

end
