(* ===== verification/Registry_Claims.thy ===== *)
theory Registry_Claims
  imports Registry_Safety
begin

text \<open>
  The properties of the node registry: exclusive claims and bindings, the checks a task route and a
  task event pass, the delegation principal, expiry, re-registration and the size of the directory;
  with one example run, evaluated step by step, on which their witnesses rest.
\<close>

section \<open>An example\<close>

text \<open>
  Two windows register, both claim the same workspace, a task is routed to the first one and the
  second window's claim stays a conflict. Ids are short here; the formats accept any nonempty text.
\<close>

definition sample_config :: registry_config where
  "sample_config =
     \<lparr>rc_formats = \<lparr>fmt_uuid = (\<lambda>s. s \<noteq> []), fmt_datetime = (\<lambda>s. s \<noteq> [])\<rparr>, rc_deviceId = ''d'',
      rc_heartbeatTtlMs = 30000,
      rc_localeCompare = (\<lambda>a b. if a = b then 0 else if ord_class.lexordp a b then -1 else 1),
      rc_assertRouteAllowed = (\<lambda>a q c. Inr ()), rc_displayLabel = (\<lambda>a. None),
      rc_fileUrl = (\<lambda>s. True), rc_digest = (\<lambda>s. s)\<rparr>"

definition sample_params :: "string \<Rightarrow> string \<Rightarrow> register_params" where
  "sample_params node inst =
     \<lparr>rp_nodeId = node, rp_nodeInstanceId = inst, rp_label = ''w'', rp_capabilities = [],
      rp_status = Node_Online, rp_startedAt = ''t''\<rparr>"

definition sample_identity :: string where
  "sample_identity = ''sha256:AAAAAAAAAAAAAAAAAAAAAAAAAAAAAAAAAAAAAAAAAAA''"

definition sample_claim :: "string \<Rightarrow> string \<Rightarrow> claim_params" where
  "sample_claim node inst =
     \<lparr>cp_nodeId = node, cp_nodeInstanceId = inst, cp_workspaceId = None,
      cp_workspaceIdentity = sample_identity, cp_name = ''mesh'', cp_capabilityTags = []\<rparr>"

definition sample_route :: route_request where
  "sample_route =
     \<lparr>rr_nodeId = ''a1'', rr_nodeInstanceId = ''b1'', rr_workspaceId = ''c1'', rr_ownerId = ''o'',
      rr_taskId = ''k'', rr_sourceNodeId = None, rr_sourceNodeInstanceId = None, rr_remotePeerId = None\<rparr>"

definition sample_capability :: string where
  "sample_capability = ''ccccccccccccccccccccccccccccccccccccccccccc''"

definition sample_child :: string where
  "sample_child = ''ddddddddddddddddddddddddddddddddddddddddddd''"

definition sample_calls :: "(int \<times> registry_call) list" where
  "sample_calls =
     [(0, Initialize Update_Done False),
      (1, Sync (Register sample_capability (sample_params ''a1'' ''b1'') 1)),
      (2, Sync (Register ''q'' (sample_params ''a2'' ''b2'') 2)),
      (3, Claim ''c1'' (sample_claim ''a1'' ''b1'') Update_Done []),
      (4, Claim ''c2'' (sample_claim ''a2'' ''b2'') Update_Done []),
      (5, Acquire_Route sample_child sample_route)]"

definition sample_empty :: registry where
  "sample_empty =
     \<lparr>rg_nodes = [], rg_claims = [], rg_taskBindings = [], rg_catalog = None,
      rg_initializing = None, rg_timer = False, rg_authorizer = None, rg_disposed = False,
      rg_leases = [], rg_stored = None, rg_legacy = None, rg_closed = [],
      rg_microtasks = [], rg_lost = [], rg_nextRef = 0\<rparr>"

definition sample_observed :: "claim_status \<Rightarrow> (string, observation) jsmap" where
  "sample_observed status =
     [(sample_identity, \<lparr>ob_workspaceId = ''c1'', ob_workspaceIdentity = sample_identity, ob_status = status\<rparr>)]"

definition sample_window ::
  "string \<Rightarrow> string \<Rightarrow> nat \<Rightarrow> string \<Rightarrow> int \<Rightarrow> (string, observation) jsmap \<Rightarrow> node_record" where
  "sample_window node inst s capability at obs =
     \<lparr>nd_nodeId = node, nd_nodeInstanceId = inst, nd_label = ''w'', nd_capabilities = [],
      nd_status = Node_Online, nd_startedAt = ''t'', nd_lastHeartbeatAt = to_iso_string at,
      nd_lastHeartbeatReceivedAt = at, nd_offlineAt = None, nd_session = Some s, nd_listening = True,
      nd_windowDelegationCapability = capability, nd_workspaces = obs, nd_workspaceHistory = obs,
      nd_ref = s - 1\<rparr>"

definition sample_opened :: registry where
  "sample_opened =
     sample_empty\<lparr>rg_nodes :=
         [(''a1'', sample_window ''a1'' ''b1'' 1 sample_capability 1 []), (''a2'', sample_window ''a2'' ''b2'' 2 ''q'' 2 [])],
       rg_catalog := Some [], rg_initializing := Some (Inr ()), rg_timer := True,
       rg_stored := Some (Catalog_V2 []), rg_nextRef := 2\<rparr>"

definition sample_catalog :: "catalog_entry list" where
  "sample_catalog =
     [\<lparr>ce_workspaceId = ''c1'', ce_workspaceIdentity = sample_identity, ce_name = ''mesh'',
       ce_capabilityTags = [], ce_enabled = True, ce_createdAt = to_iso_string 3, ce_updatedAt = to_iso_string 3\<rparr>]"

definition sample_registry :: registry where
  "sample_registry =
     sample_opened\<lparr>rg_nodes :=
         [(''a1'', sample_window ''a1'' ''b1'' 1 sample_capability 1 (sample_observed Claimed)),
          (''a2'', sample_window ''a2'' ''b2'' 2 ''q'' 2 (sample_observed Claim_Conflict))],
       rg_claims := [(sample_identity, \<lparr>cl_workspaceIdentity = sample_identity, cl_workspaceId = ''c1'',
          cl_nodeId = ''a1'', cl_nodeInstanceId = ''b1''\<rparr>)],
       rg_catalog := Some sample_catalog, rg_stored := Some (Catalog_V2 sample_catalog),
       rg_taskBindings := [(''k'', \<lparr>tb_request = sample_route, tb_codespaceOwned = False,
          tb_workspaceLeaseKey = sample_identity, tb_contextTaskId = ''k'', tb_contextCapability = sample_child\<rparr>)],
       rg_leases := [(sample_identity, \<lparr>lo_peerId = ''o'', lo_taskId = ''k''\<rparr>)]\<rparr>"

lemma sample_new_registry: "new_registry sample_config 1000 [] None None = Inr sample_empty"
  by (simp add: new_registry_def sample_config_def sample_empty_def uuidSchema_def)

lemma short_lower: "js_lower ''a1'' = ''a1''" "js_lower ''a2'' = ''a2''" "js_lower ''b1'' = ''b1''"
  "js_lower ''b2'' = ''b2''" "js_lower ''c1'' = ''c1''" "js_lower ''k'' = ''k''" "js_lower ''o'' = ''o''"
  by code_simp+

lemma sample_utf8: "utf8String 256 (Suc 0) ''w''" "utf8String 256 (Suc 0) ''mesh''" "utf8String 1024 (Suc 0) sample_identity"
  "node_capabilities_ok []" "capability_tags_ok []" "workspaceIdentitySchema sample_identity"
  by code_simp+

lemma iso_nonempty: "to_iso_string t \<noteq> []" by (simp add: to_iso_string_def Let_def split: prod.split)

lemmas sample_eval = sample_opened_def sample_empty_def sample_params_def sample_window_def
  sample_config_def short_lower sample_utf8 iso_nonempty assertReady_def catalog_of_def put_node_def
  session_open_def hasTaskBindings_def bound_to_def requireExactNode_def requireLiveNode_def opt_all_def

lemma sample_initialize:
  "registry_step sample_config (0, Initialize Update_Done False) sample_empty =
     sample_empty\<lparr>rg_catalog := Some [], rg_initializing := Some (Inr ()), rg_timer := True,
       rg_stored := Some (Catalog_V2 [])\<rparr>"
  by (simp add: sample_eval initialize_def initializeCatalog_def initial_catalog_def)

lemmas register_eval = register_def nodeRegisterParamsSchema_def live_count_def Let_def
  evictOfflineTombstones_def nodeListCount_def js_sort_def add_node_def listenForNodeClose_def

lemma sample_register1:
  "registry_step sample_config (1, Sync (Register sample_capability (sample_params ''a1'' ''b1'') 1))
     (sample_empty\<lparr>rg_catalog := Some [], rg_initializing := Some (Inr ()), rg_timer := True,
       rg_stored := Some (Catalog_V2 [])\<rparr>) =
     sample_opened\<lparr>rg_nodes := [(''a1'', sample_window ''a1'' ''b1'' 1 sample_capability 1 [])], rg_nextRef := 1\<rparr>"
  by (simp add: sample_eval register_eval)

lemma sample_register2:
  "registry_step sample_config (2, Sync (Register ''q'' (sample_params ''a2'' ''b2'') 2))
     (sample_opened\<lparr>rg_nodes := [(''a1'', sample_window ''a1'' ''b1'' 1 sample_capability 1 [])], rg_nextRef := 1\<rparr>) =
     sample_opened"
  by (simp add: sample_eval register_eval)


lemmas claim_eval = claimWorkspace_def claim_begin_def nodeWorkspaceClaimParamsSchema_def claim_identity_def
  sample_claim_def upsertCatalogEntry_def workspaceCatalogEntrySchema_def parsed_catalog_def
  workspaceCatalogV2Schema_def workspaceListCount_def claim_resume_def store_catalog_def observe_def Let_def
  sample_observed_def sample_catalog_def

definition sample_first :: registry where
  "sample_first =
     sample_opened\<lparr>rg_nodes :=
         [(''a1'', sample_window ''a1'' ''b1'' 1 sample_capability 1 (sample_observed Claimed)),
          (''a2'', sample_window ''a2'' ''b2'' 2 ''q'' 2 [])],
       rg_claims := [(sample_identity, \<lparr>cl_workspaceIdentity = sample_identity, cl_workspaceId = ''c1'',
          cl_nodeId = ''a1'', cl_nodeInstanceId = ''b1''\<rparr>)],
       rg_catalog := Some sample_catalog, rg_stored := Some (Catalog_V2 sample_catalog)\<rparr>"

lemma sample_claim1:
  "registry_step sample_config (3, Claim ''c1'' (sample_claim ''a1'' ''b1'') Update_Done []) sample_opened = sample_first"
  by (simp add: sample_eval claim_eval sample_first_def)

definition sample_second :: registry where
  "sample_second =
     sample_first\<lparr>rg_nodes :=
         [(''a1'', sample_window ''a1'' ''b1'' 1 sample_capability 1 (sample_observed Claimed)),
          (''a2'', sample_window ''a2'' ''b2'' 2 ''q'' 2 (sample_observed Claim_Conflict))]\<rparr>"

lemma sample_claim2:
  "registry_step sample_config (4, Claim ''c2'' (sample_claim ''a2'' ''b2'') Update_Done []) sample_first = sample_second"
  by (simp add: sample_eval claim_eval sample_first_def sample_second_def)

lemma sample_leases:
  "acquire (rc_formats sample_config) sample_identity ''o'' ''k'' [] =
     Inr [(sample_identity, \<lparr>lo_peerId = ''o'', lo_taskId = ''k''\<rparr>)]"
  by code_simp

lemma sample_acquire:
  "acquireTaskRoute sample_config sample_child sample_route sample_second =
     (Inr \<lparr>ro_session = 1, ro_codespaceOwned = False, ro_workspaceLeaseKey = sample_identity,
        ro_contextTaskId = ''k'', ro_contextCapability = sample_child\<rparr>, sample_registry)"
proof -
  have "requireAvailableTaskRoute sample_config sample_second sample_route =
      Inr (sample_route, sample_window ''a1'' ''b1'' 1 sample_capability 1 (sample_observed Claimed),
        \<lparr>cl_workspaceIdentity = sample_identity, cl_workspaceId = ''c1'', cl_nodeId = ''a1'', cl_nodeInstanceId = ''b1''\<rparr>)"
    by (simp add: sample_eval sample_second_def sample_first_def requireAvailableTaskRoute_def sample_route_def
        taskRouteRequestSchema_def Let_def authorize_route_def sample_catalog_def lease_owner_of_def)
  then show ?thesis
    using sample_leases
    by (simp add: acquireTaskRoute_def sample_second_def sample_first_def sample_registry_def sample_route_def
        new_binding_def Let_def sample_opened_def sample_empty_def sample_window_def CODESPACE_EXECUTION_CAPABILITY_def)
qed

lemma sample_route_step:
  "registry_step sample_config (5, Acquire_Route sample_child sample_route) sample_second = sample_registry"
  by (simp add: sample_acquire)

lemma sample_run: "fold (registry_step sample_config) sample_calls sample_empty = sample_registry"
  unfolding sample_calls_def
  by (simp only: fold_simps comp_apply id_apply sample_initialize sample_register1 sample_register2 sample_claim1
      sample_claim2 sample_route_step)

lemma sample_reached: "reached sample_config sample_registry"
  unfolding reached_def using sample_new_registry sample_run by metis

section \<open>Exclusive claims\<close>

lemma reached_size:
  assumes "reached cfg rg"
  shows "length (rg_nodes rg) \<le> 128" "length (catalog_of rg) \<le> 32"
    "js_get (rg_nodes rg) k = Some nd \<Longrightarrow> js_get (rg_nodes rg) j = Some nd' \<Longrightarrow>
     nd_nodeInstanceId nd = nd_nodeInstanceId nd' \<Longrightarrow> k = j"
  using reached_ok [OF assms]
  by (auto simp: registry_inv_def base_ok_def nodeListCount_def catalog_ok_def workspaceListCount_def
      view_ok_def unique_instances_def)

lemma observed_live:
  assumes ok: "registry_ok rg" and nd: "js_get (rg_nodes rg) k = Some nd" and ob: "js_get (nd_workspaces nd) i = Some ob"
  shows "session_open rg nd \<and> nd_status nd \<noteq> Node_Offline \<and> nd_nodeId nd = k"
proof -
  have "nd_workspaces nd \<noteq> []" using ob by auto
  with inv_node [OF ok nd] show ?thesis
    by (auto simp: node_ok_def node_context_of_def opened_iff session_open_def split: option.splits)
qed

lemma claim_holder:
  assumes ok: "registry_ok rg" and c: "js_get (rg_claims rg) i = Some c"
  obtains nd ob e where "js_get (rg_nodes rg) (cl_nodeId c) = Some nd" "nd_nodeInstanceId nd = cl_nodeInstanceId c"
    "session_open rg nd" "nd_status nd \<noteq> Node_Offline"
    "js_get (nd_workspaces nd) i = Some ob" "ob_status ob = Claimed" "ob_workspaceId ob = cl_workspaceId c"
    "e \<in> set (catalog_of rg)" "ce_workspaceId e = cl_workspaceId c" "ce_workspaceIdentity e = i" "ce_enabled e"
  using inv_claim [OF ok c] observed_live [OF ok] by (auto simp: claim_ok_def)

lemma claimed_observation:
  assumes ok: "registry_ok rg" and nd: "js_get (rg_nodes rg) k = Some nd"
    and ob: "js_get (nd_workspaces nd) i = Some ob" "ob_status ob = Claimed"
  shows "\<exists>c. js_get (rg_claims rg) i = Some c \<and> cl_nodeId c = k \<and> cl_nodeInstanceId c = nd_nodeInstanceId nd
    \<and> cl_workspaceId c = ob_workspaceId ob"
  using inv_node [OF ok nd] ob by (auto simp: node_ok_def node_context_of_def claimed_by_def)

lemma claim_exclusive:
  assumes ok: "registry_ok rg"
  shows "js_get (rg_claims rg) i = Some c \<longleftrightarrow>
    cl_workspaceIdentity c = i \<and> (\<exists>nd ob. js_get (rg_nodes rg) (cl_nodeId c) = Some nd
      \<and> nd_nodeInstanceId nd = cl_nodeInstanceId c
      \<and> js_get (nd_workspaces nd) i = Some ob \<and> ob_status ob = Claimed \<and> ob_workspaceId ob = cl_workspaceId c)"
    (is "?l \<longleftrightarrow> ?r")
proof
  assume ?l
  with claim_holder [OF ok this] inv_claim [OF ok this] show ?r unfolding claim_ok_def by blast
next
  assume ?r
  then obtain nd ob where i: "cl_workspaceIdentity c = i" "js_get (rg_nodes rg) (cl_nodeId c) = Some nd"
    "nd_nodeInstanceId nd = cl_nodeInstanceId c" "js_get (nd_workspaces nd) i = Some ob" "ob_status ob = Claimed"
    "ob_workspaceId ob = cl_workspaceId c" by blast
  from claimed_observation [OF ok i(2,4,5)] obtain d where d: "js_get (rg_claims rg) i = Some d"
    "cl_nodeId d = cl_nodeId c" "cl_nodeInstanceId d = cl_nodeInstanceId c" "cl_workspaceId d = cl_workspaceId c"
    using i by auto
  moreover have "cl_workspaceIdentity d = i" using inv_claim [OF ok d(1)] by (simp add: claim_ok_def)
  ultimately have "d = c" using i(1) by simp
  with d show ?l by simp
qed

lemma bound_once:
  assumes ok: "registry_ok rg" and b: "js_get (rg_taskBindings rg) t = Some b"
    "js_get (rg_taskBindings rg) t' = Some b'" "tb_workspaceLeaseKey b = tb_workspaceLeaseKey b'"
  shows "t = t'"
  using bound_lease(2) [OF ok b(1)] bound_lease(2) [OF ok b(2)] b(3) by simp

lemma sample_holder:
  "js_get (rg_nodes sample_registry) ''a1'' =
     Some (sample_window ''a1'' ''b1'' 1 sample_capability 1 (sample_observed Claimed))"
  by (simp add: sample_registry_def)

lemma sample_holder_observes:
  "js_get (nd_workspaces (sample_window ''a1'' ''b1'' 1 sample_capability 1 (sample_observed Claimed))) sample_identity =
     Some \<lparr>ob_workspaceId = ''c1'', ob_workspaceIdentity = sample_identity, ob_status = Claimed\<rparr>"
  "ob_status \<lparr>ob_workspaceId = ''c1'', ob_workspaceIdentity = sample_identity, ob_status = Claimed\<rparr> = Claimed"
  by (simp_all add: sample_window_def sample_observed_def)

text \<open>
  C4. A workspace is claimed by at most one window. In every registry a run reaches, whatever calls
  ran while a claim waited for the store: if a node shows a workspace identity as Claimed, then it
  is live with an open session, the catalog holds the workspace enabled, and every node that shows
  the same identity as Claimed is this node.
\<close>

theorem workspace_claimed_at_most_once:
  assumes "reached cfg rg"
    and "js_get (rg_nodes rg) k = Some nd" "js_get (nd_workspaces nd) i = Some ob" "ob_status ob = Claimed"
  shows "session_open rg nd \<and> nd_status nd \<noteq> Node_Offline
    \<and> (\<exists>e \<in> set (catalog_of rg). ce_workspaceId e = ob_workspaceId ob \<and> ce_workspaceIdentity e = i \<and> ce_enabled e)
    \<and> (\<forall>j nd' ob'. js_get (rg_nodes rg) j = Some nd' \<longrightarrow> js_get (nd_workspaces nd') i = Some ob' \<longrightarrow>
         ob_status ob' = Claimed \<longrightarrow> j = k)"
proof -
  note ok = reached_ok [OF assms(1)]
  obtain c where c: "js_get (rg_claims rg) i = Some c" "cl_nodeId c = k" "cl_workspaceId c = ob_workspaceId ob"
    using claimed_observation [OF ok assms(2-4)] by blast
  have "j = k" if "js_get (rg_nodes rg) j = Some nd'" "js_get (nd_workspaces nd') i = Some ob'" "ob_status ob' = Claimed"
    for j nd' ob' using claimed_observation [OF ok that] c by auto
  with observed_live [OF ok assms(2,3)] claim_holder [OF ok c(1)] c show ?thesis by (metis)
qed

lemma claimed_once_witness:
  "session_open sample_registry (sample_window ''a1'' ''b1'' 1 sample_capability 1 (sample_observed Claimed))
   \<and> nd_status (sample_window ''a1'' ''b1'' 1 sample_capability 1 (sample_observed Claimed)) \<noteq> Node_Offline"
  using workspace_claimed_at_most_once [OF sample_reached sample_holder sample_holder_observes] by simp

text \<open>
  C20. The claim table is exactly what the nodes show, and the tables stay bounded: at most 128
  nodes, no two with the same instance id, at most 32 catalog entries, and one bound task per
  workspace, which holds its lease.
\<close>

theorem registry_tables_agree:
  assumes "reached cfg rg"
  shows "(js_get (rg_claims rg) i = Some c \<longleftrightarrow>
      cl_workspaceIdentity c = i \<and> (\<exists>nd ob. js_get (rg_nodes rg) (cl_nodeId c) = Some nd
        \<and> nd_nodeInstanceId nd = cl_nodeInstanceId c
        \<and> js_get (nd_workspaces nd) i = Some ob \<and> ob_status ob = Claimed \<and> ob_workspaceId ob = cl_workspaceId c))
    \<and> length (rg_nodes rg) \<le> 128 \<and> length (catalog_of rg) \<le> 32
    \<and> (js_get (rg_nodes rg) k = Some n \<longrightarrow> js_get (rg_nodes rg) k' = Some n' \<longrightarrow>
        nd_nodeInstanceId n = nd_nodeInstanceId n' \<longrightarrow> k = k')
    \<and> (js_get (rg_taskBindings rg) t = Some b \<longrightarrow> js_get (rg_taskBindings rg) t' = Some b' \<longrightarrow>
        tb_workspaceLeaseKey b = tb_workspaceLeaseKey b' \<longrightarrow> t = t')
    \<and> (js_get (rg_taskBindings rg) t = Some b \<longrightarrow>
        lease_owner_of (rg_leases rg) (tb_workspaceLeaseKey b)
          = Some \<lparr>lo_peerId = rr_ownerId (tb_request b), lo_taskId = t\<rparr>)"
proof (intro conjI impI)
  note ok = reached_ok [OF assms]
  show "(js_get (rg_claims rg) i = Some c) =
      (cl_workspaceIdentity c = i \<and> (\<exists>nd ob. js_get (rg_nodes rg) (cl_nodeId c) = Some nd
        \<and> nd_nodeInstanceId nd = cl_nodeInstanceId c
        \<and> js_get (nd_workspaces nd) i = Some ob \<and> ob_status ob = Claimed \<and> ob_workspaceId ob = cl_workspaceId c))"
    by (rule claim_exclusive [OF ok])
  show "length (rg_nodes rg) \<le> 128" "length (catalog_of rg) \<le> 32"
    by (rule reached_size [OF assms])+
  show "js_get (rg_nodes rg) k = Some n \<Longrightarrow> js_get (rg_nodes rg) k' = Some n' \<Longrightarrow>
      nd_nodeInstanceId n = nd_nodeInstanceId n' \<Longrightarrow> k = k'"
    by (rule reached_size [OF assms])
  show "js_get (rg_taskBindings rg) t = Some b \<Longrightarrow> js_get (rg_taskBindings rg) t' = Some b' \<Longrightarrow>
      tb_workspaceLeaseKey b = tb_workspaceLeaseKey b' \<Longrightarrow> t = t'"
    by (rule bound_once [OF ok])
  show "js_get (rg_taskBindings rg) t = Some b \<Longrightarrow> lease_owner_of (rg_leases rg) (tb_workspaceLeaseKey b)
      = Some \<lparr>lo_peerId = rr_ownerId (tb_request b), lo_taskId = t\<rparr>"
    by (rule bound_lease(2) [OF ok])
qed

lemma tables_agree_witness:
  "cl_workspaceIdentity \<lparr>cl_workspaceIdentity = sample_identity, cl_workspaceId = ''c1'', cl_nodeId = ''a1'',
     cl_nodeInstanceId = ''b1''\<rparr> = sample_identity \<and> length (rg_nodes sample_registry) \<le> 128"
  using registry_tables_agree [OF sample_reached, of sample_identity _ "''a1''" _ "''a1''" _ "''k''"] by (simp only: simp_thms active_claim.simps)

section \<open>Task routes\<close>

lemma live_exact:
  assumes "requireLiveNode rg i = Inr nd"
  shows "js_get (rg_nodes rg) (ni_nodeId i) = Some nd" "nd_nodeInstanceId nd = ni_nodeInstanceId i"
    "session_open rg nd" "nd_status nd \<noteq> Node_Offline"
  using assms by (auto simp: requireLiveNode_def requireExactNode_def bindR_Inr_conv split: option.splits if_splits)

lemma route_acquired:
  assumes ok: "registry_ok rg" and a: "acquireTaskRoute cfg capability request rg = (Inr route, rg')"
  obtains q nd ob b where
    "taskRouteRequestSchema (rc_formats cfg) request = Some q" "authorize_route cfg rg q = Inr ()"
    "js_get (rg_nodes rg) (rr_nodeId q) = Some nd" "nd_nodeInstanceId nd = rr_nodeInstanceId q"
    "nd_session nd = Some (ro_session route)" "ro_session route \<notin> set (rg_closed rg)"
    "js_get (nd_workspaces nd) (ro_workspaceLeaseKey route) = Some ob" "ob_status ob = Claimed"
    "ob_workspaceId ob = rr_workspaceId q"
    "\<exists>e \<in> set (catalog_of rg). ce_workspaceId e = rr_workspaceId q \<and> ce_enabled e"
    "lease_owner_of (rg_leases rg) (ro_workspaceLeaseKey route)
       \<in> {None, Some \<lparr>lo_peerId = rr_ownerId q, lo_taskId = rr_taskId q\<rparr>}"
    "lease_owner_of (rg_leases rg') (ro_workspaceLeaseKey route)
       = Some \<lparr>lo_peerId = rr_ownerId q, lo_taskId = rr_taskId q\<rparr>"
    "js_get (rg_taskBindings rg') (rr_taskId q) = Some b" "tb_request b = q"
    "tb_workspaceLeaseKey b = ro_workspaceLeaseKey route"
proof -
  obtain q nd claim where r: "requireAvailableTaskRoute cfg rg request = Inr (q, nd, claim)"
    using a by (auto simp: acquireTaskRoute_def split: sum.splits)
  obtain leases where l: "acquire (rc_formats cfg) (cl_workspaceIdentity claim) (rr_ownerId q) (rr_taskId q) (rg_leases rg)
      = Inr leases" using a r by (auto simp: acquireTaskRoute_def split: sum.splits)
  obtain s where s: "nd_session nd = Some s"
    using a r l by (auto simp: acquireTaskRoute_def Let_def split: option.splits)
  note av = available_route [OF r]
  note low = route_request_lower [OF av(1)]
  from a r l s have eq: "ro_session route = s" "ro_workspaceLeaseKey route = cl_workspaceIdentity claim"
    "rg' = rg\<lparr>rg_leases := leases, rg_taskBindings := js_set (rr_taskId q) (new_binding capability rg q nd claim) (rg_taskBindings rg)\<rparr>"
    by (auto simp: acquireTaskRoute_def Let_def new_binding_def)
  obtain i where i: "js_get (rg_claims rg) i = Some claim"
    using av(5) ok by (auto simp: registry_inv_def base_ok_def js_wf_def)
  have ident: "cl_workspaceIdentity claim = i" using inv_claim [OF ok i] by (simp add: claim_ok_def)
  note lv = live_exact [OF av(4), simplified]
  from claim_holder [OF ok i] obtain ob where ob: "js_get (nd_workspaces nd) i = Some ob" "ob_status ob = Claimed"
    "ob_workspaceId ob = cl_workspaceId claim" using av(7) lv(1) by (metis option.inject)
  have eff: "lease_owner_of leases i = Some \<lparr>lo_peerId = rr_ownerId q, lo_taskId = rr_taskId q\<rparr>"
    using acquire_effect [OF l] low ident by simp
  show ?thesis
  proof (rule that [of q nd ob "new_binding capability rg q nd claim"])
    show "ro_session route \<notin> set (rg_closed rg)" using lv(3) s eq(1) by (simp add: session_open_def)
  qed (use av lv s eq ob eff ident in \<open>simp_all add: js_map new_binding_def Let_def\<close>)
qed

text \<open>
  C8. A task route is only handed out for a claimed workspace of a live window. When \<open>acquireTaskRoute\<close>
  succeeds in a reached registry, the request parsed, the peer policy allowed it, the session in the
  route is the open session of the exact node instance, that node shows the workspace as Claimed and
  the catalog has it enabled, nobody else held the lease before, and afterwards the task holds the
  lease and is bound to the request.
\<close>

theorem acquired_route_is_authorised:
  assumes "reached cfg rg" and "acquireTaskRoute cfg capability request rg = (Inr route, rg')"
  shows "\<exists>q nd ob b. taskRouteRequestSchema (rc_formats cfg) request = Some q
    \<and> authorize_route cfg rg q = Inr ()
    \<and> js_get (rg_nodes rg) (rr_nodeId q) = Some nd \<and> nd_nodeInstanceId nd = rr_nodeInstanceId q
    \<and> nd_session nd = Some (ro_session route) \<and> ro_session route \<notin> set (rg_closed rg)
    \<and> js_get (nd_workspaces nd) (ro_workspaceLeaseKey route) = Some ob \<and> ob_status ob = Claimed
    \<and> ob_workspaceId ob = rr_workspaceId q
    \<and> (\<exists>e \<in> set (catalog_of rg). ce_workspaceId e = rr_workspaceId q \<and> ce_enabled e)
    \<and> lease_owner_of (rg_leases rg) (ro_workspaceLeaseKey route)
        \<in> {None, Some \<lparr>lo_peerId = rr_ownerId q, lo_taskId = rr_taskId q\<rparr>}
    \<and> lease_owner_of (rg_leases rg') (ro_workspaceLeaseKey route)
        = Some \<lparr>lo_peerId = rr_ownerId q, lo_taskId = rr_taskId q\<rparr>
    \<and> js_get (rg_taskBindings rg') (rr_taskId q) = Some b \<and> tb_request b = q
    \<and> tb_workspaceLeaseKey b = ro_workspaceLeaseKey route"
  by (rule route_acquired [OF reached_ok [OF assms(1)] assms(2)]) blast

lemma reached_second: "reached sample_config sample_second"
proof -
  have "butlast sample_calls =
     [(0, Initialize Update_Done False),
      (1, Sync (Register sample_capability (sample_params ''a1'' ''b1'') 1)),
      (2, Sync (Register ''q'' (sample_params ''a2'' ''b2'') 2)),
      (3, Claim ''c1'' (sample_claim ''a1'' ''b1'') Update_Done []),
      (4, Claim ''c2'' (sample_claim ''a2'' ''b2'') Update_Done [])]"
    by (simp add: sample_calls_def)
  then have "fold (registry_step sample_config) (butlast sample_calls) sample_empty = sample_second"
    by (simp only: fold_simps comp_apply id_apply
        sample_initialize sample_register1 sample_register2 sample_claim1 sample_claim2)
  then show ?thesis unfolding reached_def using sample_new_registry by metis
qed

lemma authorised_route_witness:
  "\<exists>e \<in> set (catalog_of sample_second). ce_enabled e"
  using acquired_route_is_authorised [OF reached_second sample_acquire] by blast

section \<open>Task events and delegation\<close>

lemma event_authenticated:
  assumes "authenticateTaskEvent cfg s event rg = Inr b"
  obtains i nd where "nodeTaskEventIdentitySchema (rc_formats cfg) event = Some i" "js_get (rg_taskBindings rg) (te_taskId i) = Some b"
    "js_get (rg_nodes rg) (te_nodeId i) = Some nd" "bound_to (te_nodeId i) (te_nodeInstanceId i) b"
    "nd_nodeInstanceId nd = te_nodeInstanceId i" "nd_status nd \<noteq> Node_Offline" "nd_session nd = Some s"
    "s \<notin> set (rg_closed rg)"
  using assms by (auto simp: authenticateTaskEvent_def bindR_Inr_conv split: option.splits if_splits)

text \<open>
  C33. Task events are accepted on one connection only: if events of the same task are accepted from
  two sessions, the sessions are the same, it is the open session of the exact node instance the
  task is bound to, and both answers are that binding.
\<close>

theorem task_event_single_session:
  assumes "authenticateTaskEvent cfg s event rg = Inr b" "authenticateTaskEvent cfg s' event' rg = Inr b'"
    and "js_lower (te_taskId event) = js_lower (te_taskId event')"
  shows "s = s' \<and> b = b' \<and> s \<notin> set (rg_closed rg)
    \<and> (\<exists>nd. js_get (rg_nodes rg) (rr_nodeId (tb_request b)) = Some nd
         \<and> nd_nodeInstanceId nd = rr_nodeInstanceId (tb_request b) \<and> nd_session nd = Some s)"
proof -
  obtain i nd where 1: "nodeTaskEventIdentitySchema (rc_formats cfg) event = Some i" "js_get (rg_taskBindings rg) (te_taskId i) = Some b"
    "js_get (rg_nodes rg) (te_nodeId i) = Some nd" "bound_to (te_nodeId i) (te_nodeInstanceId i) b"
    "nd_nodeInstanceId nd = te_nodeInstanceId i" "nd_session nd = Some s" "s \<notin> set (rg_closed rg)"
    using event_authenticated [OF assms(1)] by metis
  obtain i' nd' where 2: "nodeTaskEventIdentitySchema (rc_formats cfg) event' = Some i'" "js_get (rg_taskBindings rg) (te_taskId i') = Some b'"
    "js_get (rg_nodes rg) (te_nodeId i') = Some nd'" "bound_to (te_nodeId i') (te_nodeInstanceId i') b'"
    "nd_session nd' = Some s'" using event_authenticated [OF assms(2)] by metis
  have "te_taskId i = te_taskId i'"
    using 1(1) 2(1) assms(3) by (auto simp: nodeTaskEventIdentitySchema_def split: if_splits)
  with 1(2) 2(2) have b: "b = b'" by simp
  with 1 2 show ?thesis by (auto simp: bound_to_def)
qed

lemma sample_event:
  "authenticateTaskEvent sample_config 1 \<lparr>te_nodeId = ''a1'', te_nodeInstanceId = ''b1'', te_taskId = ''k''\<rparr>
     sample_registry = Inr \<lparr>tb_request = sample_route, tb_codespaceOwned = False,
          tb_workspaceLeaseKey = sample_identity, tb_contextTaskId = ''k'', tb_contextCapability = sample_child\<rparr>"
  by (simp add: authenticateTaskEvent_def sample_registry_def sample_eval nodeTaskEventIdentitySchema_def sample_route_def)

lemma event_session_witness: "(1 :: nat) \<notin> set (rg_closed sample_registry)"
  using task_event_single_session [OF sample_event sample_event refl] by simp

text \<open>
  C22. A delegated task never delegates. \<open>assertDelegationPrincipal\<close> accepts a caller exactly when it
  presents the window's own capability over the open session of the exact live instance it names; a
  child context is refused always, and with the recursion code when it is genuine.
\<close>

theorem delegation_principal_accepted_iff:
  "(assertDelegationPrincipal cfg s i given rg = Inr () \<longleftrightarrow>
      (\<exists>capability source nd. assertReady rg = Inr () \<and> given = Window_Principal capability
        \<and> capability_format capability
        \<and> nodeIdentityParamsSchema (rc_formats cfg) i = Some source \<and> requireLiveNode rg source = Inr nd
        \<and> nd_session nd = Some s \<and> s \<notin> set (rg_closed rg) \<and> nd_windowDelegationCapability nd = capability))
   \<and> (\<forall>t capability source nd b. assertReady rg = Inr () \<longrightarrow> given = Delegated_Child t capability \<longrightarrow>
        capability_format capability \<longrightarrow> fmt_uuid (rc_formats cfg) t \<longrightarrow>
        nodeIdentityParamsSchema (rc_formats cfg) i = Some source \<longrightarrow> requireLiveNode rg source = Inr nd \<longrightarrow>
        nd_session nd = Some s \<longrightarrow> s \<notin> set (rg_closed rg) \<longrightarrow>
        js_get (rg_taskBindings rg) (js_lower t) = Some b \<longrightarrow>
        bound_to (nd_nodeId nd) (nd_nodeInstanceId nd) b \<longrightarrow> tb_contextCapability b = capability \<longrightarrow>
        assertDelegationPrincipal cfg s i given rg = Inl (mesh_fail DELEGATION_RECURSION))"
proof (intro conjI allI impI)
  show "assertDelegationPrincipal cfg s i given rg = Inr () \<longleftrightarrow>
      (\<exists>capability source nd. assertReady rg = Inr () \<and> given = Window_Principal capability
        \<and> capability_format capability
        \<and> nodeIdentityParamsSchema (rc_formats cfg) i = Some source \<and> requireLiveNode rg source = Inr nd
        \<and> nd_session nd = Some s \<and> s \<notin> set (rg_closed rg) \<and> nd_windowDelegationCapability nd = capability)"
    by (cases given) (auto simp: assertDelegationPrincipal_def bindR_Inr_conv split: option.splits if_splits)
qed (simp add: assertDelegationPrincipal_def)

lemma sample_live:
  "requireLiveNode sample_registry \<lparr>ni_nodeId = ''a1'', ni_nodeInstanceId = ''b1''\<rparr> =
     Inr (sample_window ''a1'' ''b1'' 1 sample_capability 1 (sample_observed Claimed))"
  "nodeIdentityParamsSchema (rc_formats sample_config) \<lparr>ni_nodeId = ''a1'', ni_nodeInstanceId = ''b1''\<rparr>
     = Some \<lparr>ni_nodeId = ''a1'', ni_nodeInstanceId = ''b1''\<rparr>"
  by (simp_all add: sample_registry_def sample_eval nodeIdentityParamsSchema_def)

lemma sample_capability_formats: "capability_format sample_capability" "capability_format sample_child"
  by code_simp+

lemma delegation_witness:
  "assertDelegationPrincipal sample_config 1 \<lparr>ni_nodeId = ''a1'', ni_nodeInstanceId = ''b1''\<rparr>
     (Window_Principal sample_capability) sample_registry = Inr ()
   \<and> assertDelegationPrincipal sample_config 1 \<lparr>ni_nodeId = ''a1'', ni_nodeInstanceId = ''b1''\<rparr>
     (Delegated_Child ''k'' sample_child) sample_registry = Inl (mesh_fail DELEGATION_RECURSION)"
proof
  have base: "assertReady sample_registry = Inr ()"
    by (simp add: sample_registry_def assertReady_def sample_opened_def sample_empty_def)
  show "assertDelegationPrincipal sample_config 1 \<lparr>ni_nodeId = ''a1'', ni_nodeInstanceId = ''b1''\<rparr>
     (Window_Principal sample_capability) sample_registry = Inr ()"
    by (subst delegation_principal_accepted_iff [THEN conjunct1])
      (simp add: base sample_live sample_capability_formats, simp add: sample_window_def sample_registry_def
        sample_opened_def sample_empty_def)
  show "assertDelegationPrincipal sample_config 1 \<lparr>ni_nodeId = ''a1'', ni_nodeInstanceId = ''b1''\<rparr>
     (Delegated_Child ''k'' sample_child) sample_registry = Inl (mesh_fail DELEGATION_RECURSION)"
    by (rule delegation_principal_accepted_iff [THEN conjunct2, rule_format, OF base refl
          sample_capability_formats(2) _ sample_live(2) sample_live(1)])
      (simp_all add: sample_window_def sample_registry_def sample_opened_def sample_empty_def short_lower
        sample_config_def bound_to_def sample_route_def, simp_all)
qed

section \<open>Expiry and re-registration\<close>

lemma lost_live: "lost_or_same a b \<Longrightarrow> nd_status b \<noteq> Node_Offline \<Longrightarrow> b = a"
  by (auto simp: lost_or_same_def)

lemma sweep_node_effect:
  assumes ids: "ids_ok rg"
  shows "only_lost rg (snd (sweep_node now cutoff k (expired, rg)))"
    "js_get (rg_nodes (snd (sweep_node now cutoff k (expired, rg)))) k = Some nd \<Longrightarrow>
       nd_status nd \<noteq> Node_Offline \<Longrightarrow> cutoff < nd_lastHeartbeatReceivedAt nd"
    "x \<in> set (fst (sweep_node now cutoff k (expired, rg))) \<Longrightarrow> x \<in> set expired \<or> (\<exists>nd. js_get (rg_nodes rg) x = Some nd
       \<and> nd_status nd \<noteq> Node_Offline \<and> nd_lastHeartbeatReceivedAt nd \<le> cutoff)"
proof -
  show "only_lost rg (snd (sweep_node now cutoff k (expired, rg)))"
    using loseNode_lost(1) [OF ids] by (auto simp: sweep_node_def split: option.split)
  show "js_get (rg_nodes (snd (sweep_node now cutoff k (expired, rg)))) k = Some nd \<Longrightarrow>
       nd_status nd \<noteq> Node_Offline \<Longrightarrow> cutoff < nd_lastHeartbeatReceivedAt nd"
    using loseNode_self [OF ids, of k _ now True]
    by (fastforce simp: sweep_node_def split: option.splits if_splits)
  show "x \<in> set (fst (sweep_node now cutoff k (expired, rg))) \<Longrightarrow> x \<in> set expired \<or> (\<exists>nd. js_get (rg_nodes rg) x = Some nd
       \<and> nd_status nd \<noteq> Node_Offline \<and> nd_lastHeartbeatReceivedAt nd \<le> cutoff)"
    using ids by (auto simp: sweep_node_def ids_ok_def split: option.splits if_splits)
qed

lemma sweep_effect:
  assumes "ids_ok rg"
  shows "only_lost rg (snd (fold (sweep_node now cutoff) ks (expired, rg)))
    \<and> (\<forall>k \<in> set ks. \<forall>nd. js_get (rg_nodes (snd (fold (sweep_node now cutoff) ks (expired, rg)))) k = Some nd \<longrightarrow>
         nd_status nd \<noteq> Node_Offline \<longrightarrow> cutoff < nd_lastHeartbeatReceivedAt nd)
    \<and> (\<forall>x \<in> set (fst (fold (sweep_node now cutoff) ks (expired, rg))). x \<in> set expired \<or>
         (\<exists>nd. js_get (rg_nodes rg) x = Some nd \<and> nd_status nd \<noteq> Node_Offline \<and> nd_lastHeartbeatReceivedAt nd \<le> cutoff))"
  using assms
proof (induction ks arbitrary: expired rg)
  case (Cons k ks)
  obtain ex rg1 where s: "sweep_node now cutoff k (expired, rg) = (ex, rg1)" by fastforce
  note e = sweep_node_effect [OF Cons.prems, where now = now and cutoff = cutoff and k = k and expired = expired,
      unfolded s fst_conv snd_conv]
  note IH = Cons.IH [OF ids_lost [OF Cons.prems e(1)], of ex]
  let ?r = "snd (fold (sweep_node now cutoff) ks (ex, rg1))"
  have "cutoff < nd_lastHeartbeatReceivedAt nd"
    if "js_get (rg_nodes ?r) k = Some nd" "nd_status nd \<noteq> Node_Offline" for nd
  proof -
    from IH only_lost_back that(1) obtain nd1 where "js_get (rg_nodes rg1) k = Some nd1" "lost_or_same nd1 nd" by blast
    with lost_live that(2) e(2) show ?thesis by blast
  qed
  moreover have "\<exists>nd. js_get (rg_nodes rg) x = Some nd \<and> nd_status nd \<noteq> Node_Offline \<and> nd_lastHeartbeatReceivedAt nd \<le> cutoff"
    if "js_get (rg_nodes rg1) x = Some nd" "nd_status nd \<noteq> Node_Offline" "nd_lastHeartbeatReceivedAt nd \<le> cutoff" for x nd
    using only_lost_back [OF e(1) that(1)] lost_live that by blast
  ultimately show ?case
    using IH e(1,3) only_lost_trans [OF e(1)] by (simp add: s) blast
qed simp

lemma sweep_result:
  assumes "registry_ok rg" "sweepExpired cfg now rg = (Inr expired, rg')"
  shows "js_get (rg_nodes rg') k = Some nd \<Longrightarrow> nd_status nd \<noteq> Node_Offline \<Longrightarrow>
      now - rc_heartbeatTtlMs cfg < nd_lastHeartbeatReceivedAt nd \<and> js_get (rg_nodes rg) k = Some nd"
    "x \<in> set expired \<Longrightarrow> \<exists>nd. js_get (rg_nodes rg) x = Some nd \<and> nd_status nd \<noteq> Node_Offline
      \<and> nd_lastHeartbeatReceivedAt nd \<le> now - rc_heartbeatTtlMs cfg"
    "js_get (rg_nodes rg) j = Some n \<Longrightarrow> hasTaskBindings rg n \<Longrightarrow>
      \<exists>n'. js_get (rg_nodes rg') j = Some n' \<and> nd_nodeInstanceId n' = nd_nodeInstanceId n"
proof -
  let ?s = "fold (sweep_node now (now - rc_heartbeatTtlMs cfg)) (map fst (rg_nodes rg)) ([], rg)"
  note e = sweep_effect [OF inv_ids [OF assms(1)], of now "now - rc_heartbeatTtlMs cfg" "map fst (rg_nodes rg)" "[]"]
  from assms(2) have eq: "expired = sort (fst ?s)" "rg' = pruneOfflineTombstones cfg now (snd ?s)"
    by (auto simp: sweepExpired_def split: sum.splits prod.splits)
  have lost: "only_lost rg (snd ?s)" using e by blast
  have ok: "registry_ok (snd ?s)" using sweep_nodes_ok [of "([], rg)"] assms(1) by simp
  then have wf: "js_wf (rg_nodes (snd ?s))" by (simp add: registry_inv_def base_ok_def)
  note get = js_get_filter [OF wf]
  show "\<exists>nd. js_get (rg_nodes rg) x = Some nd \<and> nd_status nd \<noteq> Node_Offline
      \<and> nd_lastHeartbeatReceivedAt nd \<le> now - rc_heartbeatTtlMs cfg" if "x \<in> set expired"
    using that e unfolding eq by simp
  show "now - rc_heartbeatTtlMs cfg < nd_lastHeartbeatReceivedAt nd \<and> js_get (rg_nodes rg) k = Some nd"
    if "js_get (rg_nodes rg') k = Some nd" "nd_status nd \<noteq> Node_Offline"
  proof -
    have s: "js_get (rg_nodes (snd ?s)) k = Some nd"
      using that(1) unfolding eq pruneOfflineTombstones_def by (auto simp: get split: option.splits if_splits)
    from only_lost_back [OF lost this] lost_live that(2) have r: "js_get (rg_nodes rg) k = Some nd" by blast
    then have "k \<in> set (map fst (rg_nodes rg))" using map_of_SomeD by force
    with e s that(2) r show ?thesis by blast
  qed
  show "\<exists>n'. js_get (rg_nodes rg') j = Some n' \<and> nd_nodeInstanceId n' = nd_nodeInstanceId n"
    if n: "js_get (rg_nodes rg) j = Some n" "hasTaskBindings rg n"
  proof -
    obtain n' where n': "js_get (rg_nodes (snd ?s)) j = Some n'" "lost_or_same n n'"
      using only_lost_get [OF lost n(1)] by blast
    have "hasTaskBindings (snd ?s) n'"
      using n(2) lost lost_or_same_ids [OF n'(2)] by (simp add: hasTaskBindings_def only_lost_def)
    with n' lost_or_same_ids [OF n'(2)] show ?thesis
      unfolding eq pruneOfflineTombstones_def by (simp add: get)
  qed
qed

text \<open>
  After a sweep every node that is still live sent a heartbeat within the time-to-live and is
  unchanged; every id in the answer was a live node whose heartbeat was too old; and a node with
  bound tasks is never forgotten.
\<close>

theorem sweep_expires_silent_nodes:
  assumes "reached cfg rg" and "sweepExpired cfg now rg = (Inr expired, rg')"
  shows "(\<forall>k nd. js_get (rg_nodes rg') k = Some nd \<longrightarrow> nd_status nd \<noteq> Node_Offline \<longrightarrow>
        now - rc_heartbeatTtlMs cfg < nd_lastHeartbeatReceivedAt nd \<and> js_get (rg_nodes rg) k = Some nd)
    \<and> (\<forall>x \<in> set expired. \<exists>nd. js_get (rg_nodes rg) x = Some nd \<and> nd_status nd \<noteq> Node_Offline
        \<and> nd_lastHeartbeatReceivedAt nd \<le> now - rc_heartbeatTtlMs cfg)
    \<and> (\<forall>j n. js_get (rg_nodes rg) j = Some n \<longrightarrow> hasTaskBindings rg n \<longrightarrow>
        (\<exists>n'. js_get (rg_nodes rg') j = Some n' \<and> nd_nodeInstanceId n' = nd_nodeInstanceId n))"
  using sweep_result [OF reached_ok [OF assms(1)] assms(2)] by blast

lemma sample_sweep:
  "\<exists>rg'. sweepExpired sample_config 30001 sample_registry = (Inr [''a1''], rg')
     \<and> map nd_status (js_values (rg_nodes rg')) = [Node_Offline, Node_Online]"
  by (simp add: sweepExpired_def sample_registry_def sample_eval sweep_node_def loseNode_def Let_def take_offline_def
      close_session_def close_listener_def notify_lost_def drop_claims_def sample_observed_def lost_bindings_def
      sample_route_def pruneOfflineTombstones_def)

lemma listen_get:
  "js_get (rg_nodes (listenForNodeClose s nd rg)) j =
     (if j = nd_nodeId nd then Some (if s \<in> set (rg_closed rg) then nd else nd\<lparr>nd_listening := True\<rparr>)
      else js_get (rg_nodes rg) j)"
  by (simp add: listenForNodeClose_def put_node_def js_get_set)

lemma evict_get:
  assumes "registry_ok rg" "js_get (rg_nodes rg) k = Some nd" "hasTaskBindings rg nd"
  shows "js_get (rg_nodes (evictOfflineTombstones cfg n rg)) k = Some nd"
proof -
  have wf: "js_wf (rg_nodes rg)" using assms(1) by (simp add: registry_inv_def base_ok_def)
  have "k \<notin> nd_nodeId ` set (take m (js_sort (tombstone_compare cfg)
     (filter (\<lambda>nd. nd_status nd = Node_Offline \<and> \<not> hasTaskBindings rg nd) (js_values (rg_nodes rg)))))" for m
  proof
    assume "k \<in> nd_nodeId ` set (take m (js_sort (tombstone_compare cfg)
     (filter (\<lambda>nd. nd_status nd = Node_Offline \<and> \<not> hasTaskBindings rg nd) (js_values (rg_nodes rg)))))"
    then obtain x where x: "x \<in> set (js_values (rg_nodes rg))" "\<not> hasTaskBindings rg x" "nd_nodeId x = k"
      by (force dest!: in_set_takeD)
    from x(1) js_values_mem [OF wf] obtain j where j: "js_get (rg_nodes rg) j = Some x" by blast
    with inv_id [OF assms(1)] x(3) assms(2) have "x = nd" by fastforce
    with x(2) assms(3) show False by simp
  qed
  with assms(2) show ?thesis by (simp add: evictOfflineTombstones_def Let_def fold_delete_get)
qed

lemma register_keeps:
  assumes ok: "registry_ok rg" and nd: "js_get (rg_nodes rg) k = Some nd" "hasTaskBindings rg nd"
  shows "\<exists>nd'. js_get (rg_nodes (snd (register cfg now capability params s rg))) k = Some nd'
    \<and> nd_nodeInstanceId nd' = nd_nodeInstanceId nd"
proof -
  note ids = inv_ids [OF ok]
  note frame = listen_get add_node_def reconnect_def
  have lose: "\<exists>nd'. js_get (rg_nodes (loseNode now True ex rg)) k = Some nd' \<and> nd_nodeInstanceId nd' = nd_nodeInstanceId nd"
    if "js_get (rg_nodes rg) j = Some ex" for j ex
    using only_lost_get [OF loseNode_lost(1) [OF ids that] nd(1)] lost_or_same_ids by blast
  have bindings: "hasTaskBindings (loseNode now True ex rg) x = hasTaskBindings rg x" if "js_get (rg_nodes rg) j = Some ex" for j ex x
    using loseNode_lost(1) [OF ids that, of now True] by (simp add: hasTaskBindings_def only_lost_def)
  have ev: "js_get (rg_nodes (evictOfflineTombstones cfg 1 rg)) k = Some nd" by (rule evict_get [OF ok nd])
  have idk: "js_get (rg_nodes rg) j = Some ex \<Longrightarrow> nd_nodeId ex = j" for j ex using ids by (simp add: ids_ok_def)
  show ?thesis
  proof (cases "assertReady rg")
    case (Inr u)
    then show ?thesis
      using nd lose bindings ev idk
      by (auto simp: register_def frame Let_def split: option.split)
  qed (simp add: register_def nd)
qed

text \<open>
  C34. A node with bound tasks cannot be replaced: whatever \<open>register\<close> is called with, by that window
  or any other, the node it had before is still there with the same instance id. A new instance of a
  window whose tasks are still bound is refused.
\<close>

theorem registration_keeps_bound_nodes:
  assumes "reached cfg rg" and "js_get (rg_nodes rg) k = Some nd" and "hasTaskBindings rg nd"
  shows "(\<exists>nd'. js_get (rg_nodes (snd (register cfg now capability params s rg))) k = Some nd'
      \<and> nd_nodeInstanceId nd' = nd_nodeInstanceId nd)
    \<and> (\<forall>input. nodeRegisterParamsSchema (rc_formats cfg) params = Some input \<longrightarrow> rp_nodeId input = k \<longrightarrow>
        rp_nodeInstanceId input \<noteq> nd_nodeInstanceId nd \<longrightarrow>
        isl (fst (register cfg now capability params s rg)))"
proof -
  note ok = reached_ok [OF assms(1)]
  have "hasTaskBindings (loseNode now True nd rg) nd"
    using loseNode_lost(1) [OF inv_ids [OF ok] assms(2), of now True] assms(3)
    by (simp add: hasTaskBindings_def only_lost_def)
  then show ?thesis
    using register_keeps [OF ok assms(2,3)] assms(2)
    by (auto simp: register_def Let_def split: sum.split)
qed

lemma bound_node_witness:
  "isl (fst (register sample_config 6 sample_child (sample_params ''a1'' ''b3'') 3 sample_registry))"
proof -
  have b: "hasTaskBindings sample_registry (sample_window ''a1'' ''b1'' 1 sample_capability 1 (sample_observed Claimed))"
    by (simp add: hasTaskBindings_def bound_to_def sample_registry_def sample_route_def sample_window_def)
  have "js_lower ''b3'' = ''b3''" by code_simp
  then have p: "nodeRegisterParamsSchema (rc_formats sample_config) (sample_params ''a1'' ''b3'')
      = Some (sample_params ''a1'' ''b3'')"
    by (simp add: nodeRegisterParamsSchema_def sample_eval)
  show ?thesis
    using registration_keeps_bound_nodes [OF sample_reached sample_holder b, of 6 sample_child "sample_params ''a1'' ''b3''" 3] p
    by (simp add: sample_params_def sample_window_def)
qed

section \<open>The directory\<close>

lemma directory_loop_greedy:
  "\<exists>more. directory_loop d n acc rest = acc @ more \<and> (\<exists>skipped. rest = more @ skipped \<and>
     (skipped = [] \<or> frameBytes_limit < serializedLocalResultBytes (directory_json
        \<lparr>nr_deviceId = d, nr_nodes = directory_loop d n acc rest @ [hd skipped],
         nr_truncated = (length (directory_loop d n acc rest) + 1 < n), nr_totalNodes = n\<rparr>)))"
proof (induction rest arbitrary: acc)
  case (Cons x rest)
  show ?case
  proof (cases "frameBytes_limit < serializedLocalResultBytes (directory_json
      \<lparr>nr_deviceId = d, nr_nodes = acc @ [x], nr_truncated = (length acc + 1 < n), nr_totalNodes = n\<rparr>)")
    case False
    obtain more skipped where IH: "directory_loop d n (acc @ [x]) rest = (acc @ [x]) @ more" "rest = more @ skipped"
      "skipped = [] \<or> frameBytes_limit < serializedLocalResultBytes (directory_json
        \<lparr>nr_deviceId = d, nr_nodes = directory_loop d n (acc @ [x]) rest @ [hd skipped],
         nr_truncated = (length (directory_loop d n (acc @ [x]) rest) + 1 < n), nr_totalNodes = n\<rparr>)"
      using Cons.IH [of "acc @ [x]"] by blast
    have step: "directory_loop d n acc (x # rest) = directory_loop d n (acc @ [x]) rest" using False by simp
    show ?thesis
      unfolding step by (rule exI [of _ "x # more"], intro conjI exI [of _ skipped]) (use IH in simp_all)
  qed simp
qed simp

text \<open>
  C35. The directory answer fits one frame and is as long as it can be: it lists a prefix of the
  sorted nodes (parsed, so ids may change to lower case), says how many there are and whether some
  are left out, never exceeds the frame limit, and when it leaves nodes out then one more would not
  have fitted.
\<close>

theorem directory_fits_and_is_maximal:
  assumes "list_nodes cfg includeOffline rg = Inr r"
  shows "serializedLocalResultBytes (directory_json r) \<le> frameBytes_limit \<and> length (nr_nodes r) \<le> 128
    \<and> (\<exists>available shown skipped. map_result (descriptor cfg rg)
          (take nodeListCount (js_sort (node_compare cfg)
             (filter (\<lambda>nd. includeOffline \<or> nd_status nd \<noteq> Node_Offline) (js_values (rg_nodes rg))))) = Inr available
        \<and> available = shown @ skipped \<and> nr_totalNodes r = length available
        \<and> parse_all (windowNodeDescriptorSchema (rc_formats cfg)) shown = Some (nr_nodes r)
        \<and> (nr_truncated r \<longleftrightarrow> skipped \<noteq> [])
        \<and> (nr_truncated r \<longrightarrow> frameBytes_limit < serializedLocalResultBytes (directory_json
             \<lparr>nr_deviceId = rc_deviceId cfg, nr_nodes = shown @ [hd skipped],
              nr_truncated = (length shown + 1 < length available), nr_totalNodes = length available\<rparr>)))"
proof -
  let ?m = "map_result (descriptor cfg rg)
          (take nodeListCount (js_sort (node_compare cfg)
             (filter (\<lambda>nd. includeOffline \<or> nd_status nd \<noteq> Node_Offline) (js_values (rg_nodes rg)))))"
  obtain available where av: "?m = Inr available"
    using assms by (cases ?m) (auto simp: list_nodes_def bindR_Inr_conv)
  let ?shown = "directory_loop (rc_deviceId cfg) (length available) [] available"
  from directory_loop_greedy [of "rc_deviceId cfg" "length available" "[]" available]
  obtain skipped where sk: "available = ?shown @ skipped" "skipped = [] \<or> frameBytes_limit < serializedLocalResultBytes (directory_json
             \<lparr>nr_deviceId = rc_deviceId cfg, nr_nodes = ?shown @ [hd skipped],
              nr_truncated = (length ?shown + 1 < length available), nr_totalNodes = length available\<rparr>)"
    by auto
  have "nodeDirectoryResultSchema (rc_formats cfg)
      \<lparr>nr_deviceId = rc_deviceId cfg, nr_nodes = ?shown, nr_truncated = (length ?shown < length available),
       nr_totalNodes = length available\<rparr> = Some r"
    using assms av by (auto simp: list_nodes_def bindR_Inr_conv Let_def split: option.splits)
  then have r: "serializedLocalResultBytes (directory_json r) \<le> frameBytes_limit"
    "parse_all (windowNodeDescriptorSchema (rc_formats cfg)) ?shown = Some (nr_nodes r)"
    "nr_truncated r = (length ?shown < length available)" "nr_totalNodes r = length available"
    "length ?shown \<le> 128"
    by (auto simp: nodeDirectoryResultSchema_def Let_def nodeListCount_def split: if_splits option.splits)
  have "length ?shown + length skipped = length available"
    using arg_cong [OF sk(1), of length] by (simp only: length_append)
  then have "length ?shown < length available \<longleftrightarrow> skipped \<noteq> []" by (cases skipped) simp_all
  moreover have "length (nr_nodes r) = length ?shown" using parse_all_set [OF r(2)] by simp
  ultimately show ?thesis using av sk r by auto
qed

definition sample_listing :: registry where
  "sample_listing = sample_opened\<lparr>rg_nodes :=
     [(''a1'', (sample_window ''a1'' ''b1'' 1 sample_capability 1 [])\<lparr>nd_lastHeartbeatAt := ''t''\<rparr>)]\<rparr>"

definition sample_listed :: node_directory where
  "sample_listed = \<lparr>nr_deviceId = ''d'', nr_nodes = [\<lparr>wd_nodeId = ''a1'', wd_nodeInstanceId = ''b1'', wd_label = ''w'',
     wd_status = Node_Online, wd_capabilities = [], wd_startedAt = ''t'', wd_lastHeartbeatAt = ''t'', wd_workspaces = []\<rparr>],
     nr_truncated = False, nr_totalNodes = 1\<rparr>"

lemma length_json_string: "length (json_string s) \<le> 2 + 6 * length s"
proof -
  have "length (concat (map json_escape s)) \<le> 6 * length s"
  proof (induction s)
    case (Cons c s) then show ?case using length_json_escape [of c] by simp
  qed simp
  then show ?thesis by (simp add: json_string_def)
qed

lemma sample_listed_size: "serializedLocalResultBytes (directory_json sample_listed) \<le> 1048576"
proof -
  note b = length_json_string
  show ?thesis
    using b [of "''kind''"] b [of "''result''"] b [of "''jsonrpc''"] b [of "''2.0''"] b [of "''id''"]
      b [of "replicate 128 (CHR 0x00)", unfolded length_replicate] b [of "''deviceId''"] b [of "''d''"] b [of "''nodes''"] b [of "''truncated''"]
      b [of "''totalNodes''"] b [of "''nodeId''"] b [of "''a1''"] b [of "''nodeInstanceId''"] b [of "''b1''"]
      b [of "''label''"] b [of "''w''"] b [of "''status''"] b [of "''online''"] b [of "''capabilities''"]
      b [of "''startedAt''"] b [of "''t''"] b [of "''lastHeartbeatAt''"] b [of "''workspaces''"]
    by (simp add: serializedLocalResultBytes_def directory_json_def sample_listed_def json_object_def node_json_def
        json_array_def show_nat.simps json_bool_def)
qed

lemma lower_d: "js_lower ''d'' = ''d''" by code_simp

lemma sample_list: "list_nodes sample_config True sample_listing = Inr sample_listed"
  using sample_listed_size
  by (simp add: list_nodes_def sample_listing_def sample_eval frameBytes_limit_def nodeDirectoryResultSchema_def
      descriptor_def js_sort_def nodeListCount_def workspaceListCount_def sample_listed_def windowNodeDescriptorSchema_def
      validateTruncation_def Let_def lower_d)

lemma directory_witness: "serializedLocalResultBytes (directory_json sample_listed) \<le> frameBytes_limit"
  using directory_fits_and_is_maximal [OF sample_list] by simp

end
