(* ===== verification/Broker_Lifecycle.thy ===== *)
theory Broker_Lifecycle
  imports Mesh_State
begin

text \<open>
  The life of the device broker in one window (\<open>src/broker/BrokerLifecycle.ts\<close>): it contends for the
  ownership of the device, builds and starts the broker runtime while it is the owner, stops it when
  the ownership is lost, retries with growing delays, and releases everything when it is disposed.

  The class runs one asynchronous operation at a time from a queue. Between its awaits the outside
  acts: it calls \<open>start\<close> and \<open>dispose\<close>, the timer fires, the ownership changes or reports its loss.
  An operation gets its awaits as an argument: for each one, what happened outside and how the
  awaited call ended. \<open>lc_log\<close> records what the class does at its interface to the runtimes, which
  are numbered in the order the factory makes them. Status listeners only observe; they are left out.
\<close>

section \<open>State\<close>

datatype lifecycle_state =
    Broker_Starting | Broker_Running | Broker_Contending | Broker_Taking_Over
  | Broker_Stopping | Broker_Error | Broker_Disposed

datatype lifecycle_error =
    BROKER_TAKEOVER_BLOCKED
  | BROKER_CONTENTION_FAILED
  | BROKER_OWNERSHIP_RELEASE_FAILED
  | BROKER_OWNERSHIP_INVALID
  | BROKER_RUNTIME_DISPOSE_FAILED
  | BROKER_RUNTIME_START_FAILED

text \<open>\<open>isOwner\<close>, \<open>currentGeneration\<close> and the snapshot of \<open>BrokerOwnership\<close>.\<close>

record ownership =
  ow_isOwner :: bool
  ow_currentGeneration :: "string option"
  sn_owner :: bool
  sn_generation :: "string option"
  sn_holder :: "string option"
  sn_takeoverBlocked :: bool

record owner_snapshot =
  os_owner :: bool
  os_generation :: "string option"
  os_holderWindowId :: "string option"

record lifecycle_status =
  st_state :: lifecycle_state
  st_generation :: "string option"
  st_owner :: bool
  st_holderWindowId :: "string option"
  st_ownership :: owner_snapshot
  st_error :: "lifecycle_error option"

text \<open>The queued operations; \<open>disposeCore\<close> has the failure of cancelling the timer.\<close>

datatype lifecycle_op = Start_Op | Loss_Op | Contention_Op | Dispose_Op bool

text \<open>
  A runtime is made for a generation; it is started, with what the ownership and the dispose flag
  were at the call and whether \<open>start\<close> succeeded; it is stopped when its disposal succeeds.
\<close>

datatype runtime_event =
    Created nat string
  | Started nat string ownership bool bool
  | Stopped nat

record lifecycle =
  lc_ownership :: ownership
  lc_disposing :: bool
  lc_disposeRequested :: bool
  lc_subscribed :: bool
  lc_queue :: "lifecycle_op list"
  lc_retryAttempt :: nat
  lc_runtime :: "nat option"
  lc_runtimeGeneration :: "string option"
  lc_startRequested :: bool
  lc_timer :: "nat option"
  lc_status :: lifecycle_status
  lc_runtimes :: nat
  lc_log :: "runtime_event list"

record lifecycle_options =
  op_contentionIntervalMs :: nat
  op_retryBaseDelayMs :: nat
  op_retryMaxDelayMs :: nat

definition maxTimerDelayMs :: nat where "maxTimerDelayMs = 2147483647"

text \<open>\<open>options.x ?? default\<close>.\<close>

definition default_options :: lifecycle_options where
  "default_options =
     \<lparr>op_contentionIntervalMs = 1000, op_retryBaseDelayMs = 1000, op_retryMaxDelayMs = 30000\<rparr>"

section \<open>Status and timer\<close>

definition publicOwnerSnapshot :: "ownership \<Rightarrow> owner_snapshot" where
  "publicOwnerSnapshot ow =
     \<lparr>os_owner = sn_owner ow, os_generation = sn_generation ow, os_holderWindowId = sn_holder ow\<rparr>"

definition createStatus ::
  "ownership \<Rightarrow> string option \<Rightarrow> lifecycle_state \<Rightarrow> lifecycle_error option \<Rightarrow> lifecycle_status" where
  "createStatus ow runtimeGeneration state error =
     \<lparr>st_state = state,
      st_generation = (case runtimeGeneration of None \<Rightarrow> sn_generation ow | Some g \<Rightarrow> Some g),
      st_owner = sn_owner ow, st_holderWindowId = sn_holder ow, st_ownership = publicOwnerSnapshot ow,
      st_error = (case error of
         Some e \<Rightarrow> Some e
       | None \<Rightarrow> if state = Broker_Contending \<and> sn_takeoverBlocked ow then Some BROKER_TAKEOVER_BLOCKED else None)\<rparr>"

definition transition_to :: "lifecycle_state \<Rightarrow> lifecycle_error option \<Rightarrow> lifecycle \<Rightarrow> lifecycle" where
  "transition_to state error lc =
     lc\<lparr>lc_status := createStatus (lc_ownership lc) (lc_runtimeGeneration lc) state error\<rparr>"

definition fail_with :: "lifecycle_error \<Rightarrow> lifecycle \<Rightarrow> lifecycle" where
  "fail_with code lc = transition_to Broker_Error (Some code) lc"

definition schedule :: "nat \<Rightarrow> lifecycle \<Rightarrow> lifecycle" where
  "schedule delayMs lc =
     (if lc_disposeRequested lc \<or> lc_timer lc \<noteq> None then lc
      else lc\<lparr>lc_timer := Some (min delayMs maxTimerDelayMs)\<rparr>)"

definition retry_delay :: "lifecycle_options \<Rightarrow> nat \<Rightarrow> nat" where
  "retry_delay opts attempt = min (op_retryBaseDelayMs opts * 2 ^ (attempt - 1)) (op_retryMaxDelayMs opts)"

definition scheduleRetry :: "lifecycle_options \<Rightarrow> lifecycle \<Rightarrow> lifecycle" where
  "scheduleRetry opts lc =
     (let attempt = min (lc_retryAttempt lc + 1) 31
      in schedule (retry_delay opts attempt) (lc\<lparr>lc_retryAttempt := attempt\<rparr>))"

definition isCurrentOwner :: "string option \<Rightarrow> lifecycle \<Rightarrow> bool" where
  "isCurrentOwner generation lc \<longleftrightarrow>
     generation \<noteq> None \<and> ow_isOwner (lc_ownership lc) \<and> ow_currentGeneration (lc_ownership lc) = generation"

definition contend_later :: "lifecycle_options \<Rightarrow> lifecycle \<Rightarrow> lifecycle" where
  "contend_later opts lc = schedule (op_contentionIntervalMs opts) (transition_to Broker_Contending None lc)"

definition validateDelay :: "nat \<Rightarrow> bool" where
  "validateDelay v \<longleftrightarrow> 0 < v \<and> v \<le> maxTimerDelayMs"

text \<open>The constructor; the delays are numbers that passed \<open>Number.isSafeInteger\<close>.\<close>

definition new_lifecycle :: "lifecycle_options \<Rightarrow> ownership \<Rightarrow> (mesh_error, lifecycle) result" where
  "new_lifecycle opts ow =
     (if \<not> (validateDelay (op_contentionIntervalMs opts) \<and> validateDelay (op_retryBaseDelayMs opts)
            \<and> validateDelay (op_retryMaxDelayMs opts)) then Inl Range_Error
      else if op_retryMaxDelayMs opts < op_retryBaseDelayMs opts then Inl Range_Error
      else Inr \<lparr>lc_ownership = ow, lc_disposing = False, lc_disposeRequested = False, lc_subscribed = False,
        lc_queue = [], lc_retryAttempt = 0, lc_runtime = None, lc_runtimeGeneration = None,
        lc_startRequested = False, lc_timer = None,
        lc_status = createStatus ow None Broker_Contending None, lc_runtimes = 0, lc_log = []\<rparr>)"

section \<open>What happens outside\<close>

definition enqueue :: "lifecycle_op \<Rightarrow> lifecycle \<Rightarrow> lifecycle" where
  "enqueue op lc = lc\<lparr>lc_queue := lc_queue lc @ [op]\<rparr>"

definition start_lifecycle :: "lifecycle \<Rightarrow> lifecycle" where
  "start_lifecycle lc =
     (if lc_disposeRequested lc \<or> lc_startRequested lc then lc
      else enqueue Start_Op (lc\<lparr>lc_startRequested := True\<rparr>))"

text \<open>\<open>fails\<close>: cancelling the timer throws.\<close>

definition dispose_lifecycle :: "bool \<Rightarrow> lifecycle \<Rightarrow> lifecycle" where
  "dispose_lifecycle fails lc =
     (if lc_disposing lc then lc
      else enqueue (Dispose_Op (lc_timer lc \<noteq> None \<and> fails))
             (lc\<lparr>lc_disposeRequested := True, lc_timer := None, lc_disposing := True\<rparr>))"

datatype outside = Ext_Start | Ext_Dispose bool | Ext_Loss | Ext_Timer | Ext_Ownership ownership

fun external :: "outside \<Rightarrow> lifecycle \<Rightarrow> lifecycle" where
  "external Ext_Start lc = start_lifecycle lc"
| "external (Ext_Dispose fails) lc = dispose_lifecycle fails lc"
| "external Ext_Loss lc =
     (if lc_subscribed lc \<and> \<not> lc_disposeRequested lc then enqueue Loss_Op lc else lc)"
| "external Ext_Timer lc =
     (if lc_timer lc = None then lc else enqueue Contention_Op (lc\<lparr>lc_timer := None\<rparr>))"
| "external (Ext_Ownership ow) lc = lc\<lparr>lc_ownership := ow\<rparr>"

definition meanwhile :: "outside list \<Rightarrow> lifecycle \<Rightarrow> lifecycle" where
  "meanwhile es lc = fold external es lc"

text \<open>The awaits of an operation; \<open>aw_contend\<close> may throw, which is \<open>None\<close>.\<close>

record awaits =
  aw_stop :: "outside list \<times> bool"
  aw_contend :: "outside list \<times> bool option"
  aw_factory :: "outside list \<times> bool"
  aw_start :: "outside list \<times> bool"
  aw_cleanup :: "outside list \<times> bool"
  aw_unsubscribe :: bool
  aw_release :: "outside list \<times> bool"

section \<open>The operations\<close>

definition log_event :: "runtime_event \<Rightarrow> lifecycle \<Rightarrow> lifecycle" where
  "log_event e lc = lc\<lparr>lc_log := lc_log lc @ [e]\<rparr>"

definition stopRuntime :: "outside list \<times> bool \<Rightarrow> (lifecycle, unit) stateful" where
  "stopRuntime aw lc =
     (case lc_runtime lc of
        None \<Rightarrow> (Inr (), lc\<lparr>lc_runtimeGeneration := None\<rparr>)
      | Some runtime \<Rightarrow>
          let lc1 = meanwhile (fst aw) lc in
          if \<not> snd aw then (Inl Plain_Error, lc1)
          else let lc2 = log_event (Stopped runtime) lc1 in
            (Inr (), if lc_runtime lc2 = Some runtime
                     then lc2\<lparr>lc_runtime := None, lc_runtimeGeneration := None\<rparr> else lc2))"

definition make_runtime :: "string \<Rightarrow> lifecycle \<Rightarrow> lifecycle" where
  "make_runtime generation lc =
     log_event (Created (lc_runtimes lc) generation)
       (lc\<lparr>lc_runtime := Some (lc_runtimes lc), lc_runtimeGeneration := Some generation,
          lc_runtimes := lc_runtimes lc + 1\<rparr>)"

definition startRuntime :: "awaits \<Rightarrow> string \<Rightarrow> (lifecycle, bool) stateful" where
  "startRuntime aw generation lc =
     (if \<not> isCurrentOwner (Some generation) lc \<or> lc_disposeRequested lc then (Inr False, lc)
      else
        let lc1 = meanwhile (fst (aw_factory aw)) (transition_to Broker_Starting None lc) in
        if \<not> snd (aw_factory aw) then (Inl Plain_Error, lc1)
        else
          let lc2 = make_runtime generation lc1 in
          if \<not> isCurrentOwner (Some generation) lc2 \<or> lc_disposeRequested lc2
          then bindS (stopRuntime (aw_cleanup aw)) (\<lambda>_. liftS (Inr False)) lc2
          else
            let lc3 = meanwhile (fst (aw_start aw))
                  (log_event (Started (lc_runtimes lc1) generation (lc_ownership lc2) (lc_disposeRequested lc2)
                     (snd (aw_start aw))) lc2) in
            if \<not> snd (aw_start aw)
            then bindS (stopRuntime (aw_cleanup aw)) (\<lambda>_. liftS (Inl Plain_Error)) lc3
            else if \<not> isCurrentOwner (Some generation) lc3 \<or> lc_disposeRequested lc3
            then bindS (stopRuntime (aw_cleanup aw)) (\<lambda>_. liftS (Inr False)) lc3
            else (Inr True, transition_to Broker_Running None (lc3\<lparr>lc_retryAttempt := 0\<rparr>)))"

text \<open>What \<open>startCore\<close> and the contention do with the outcome of \<open>startRuntime\<close>.\<close>

definition after_start :: "lifecycle_options \<Rightarrow> (mesh_error, bool) result \<times> lifecycle \<Rightarrow> lifecycle" where
  "after_start opts outcome =
     (case outcome of
        (Inl _, lc) \<Rightarrow> scheduleRetry opts (fail_with BROKER_RUNTIME_START_FAILED lc)
      | (Inr started, lc) \<Rightarrow> if started then lc else contend_later opts lc)"

definition startCore :: "lifecycle_options \<Rightarrow> awaits \<Rightarrow> lifecycle \<Rightarrow> lifecycle" where
  "startCore opts aw lc =
     (if lc_disposeRequested lc then lc
      else
        let lc1 = lc\<lparr>lc_subscribed := True\<rparr> in
        if \<not> ow_isOwner (lc_ownership lc1) then contend_later opts lc1
        else case ow_currentGeneration (lc_ownership lc1) of
          None \<Rightarrow> scheduleRetry opts (fail_with BROKER_OWNERSHIP_INVALID lc1)
        | Some generation \<Rightarrow> after_start opts (startRuntime aw generation lc1))"

definition handleOwnershipLoss :: "lifecycle_options \<Rightarrow> awaits \<Rightarrow> lifecycle \<Rightarrow> lifecycle" where
  "handleOwnershipLoss opts aw lc =
     (if lc_disposeRequested lc then lc
      else
        let stopped = (if lc_runtime lc \<noteq> None
              then stopRuntime (aw_stop aw) (transition_to Broker_Stopping None lc) else (Inr (), lc)) in
        case stopped of
          (Inl _, lc1) \<Rightarrow> scheduleRetry opts (fail_with BROKER_RUNTIME_DISPOSE_FAILED lc1)
        | (Inr _, lc1) \<Rightarrow> contend_later opts (lc1\<lparr>lc_retryAttempt := 0\<rparr>))"

text \<open>The contention from the point where no runtime is left.\<close>

definition contend_and_start :: "lifecycle_options \<Rightarrow> awaits \<Rightarrow> lifecycle \<Rightarrow> lifecycle" where
  "contend_and_start opts aw lc =
     (let lc1 = meanwhile (fst (aw_contend aw)) (transition_to Broker_Contending None lc) in
      case snd (aw_contend aw) of
        None \<Rightarrow> scheduleRetry opts (fail_with BROKER_CONTENTION_FAILED lc1)
      | Some False \<Rightarrow> contend_later opts (lc1\<lparr>lc_retryAttempt := 0\<rparr>)
      | Some True \<Rightarrow>
          (case ow_currentGeneration (lc_ownership lc1) of
             None \<Rightarrow> scheduleRetry opts (fail_with BROKER_OWNERSHIP_INVALID lc1)
           | Some generation \<Rightarrow>
               if \<not> ow_isOwner (lc_ownership lc1)
               then scheduleRetry opts (fail_with BROKER_OWNERSHIP_INVALID lc1)
               else after_start opts (startRuntime aw generation (transition_to Broker_Taking_Over None lc1))))"

definition runScheduledContention :: "lifecycle_options \<Rightarrow> awaits \<Rightarrow> lifecycle \<Rightarrow> lifecycle" where
  "runScheduledContention opts aw lc =
     (if lc_disposeRequested lc then lc
      else
        let stopped = (if lc_runtime lc \<noteq> None \<and> \<not> isCurrentOwner (lc_runtimeGeneration lc) lc
              then stopRuntime (aw_stop aw) (transition_to Broker_Stopping None lc) else (Inr (), lc)) in
        case stopped of
          (Inl _, lc1) \<Rightarrow> scheduleRetry opts (fail_with BROKER_RUNTIME_DISPOSE_FAILED lc1)
        | (Inr _, lc1) \<Rightarrow>
            if lc_runtime lc1 \<noteq> None \<and> isCurrentOwner (lc_runtimeGeneration lc1) lc1
            then transition_to Broker_Running None (lc1\<lparr>lc_retryAttempt := 0\<rparr>)
            else contend_and_start opts aw lc1)"

text \<open>
  \<open>disposeCore\<close>, with the \<open>finally\<close> of \<open>dispose\<close>: unless the status is disposed, the operation is
  forgotten and \<open>dispose\<close> can be called again.
\<close>

definition release_ownership :: "awaits \<Rightarrow> lifecycle \<Rightarrow> lifecycle" where
  "release_ownership aw lc =
     (if \<not> aw_unsubscribe aw \<and> lc_subscribed lc then fail_with BROKER_OWNERSHIP_RELEASE_FAILED lc
      else
        let lc1 = meanwhile (fst (aw_release aw)) (lc\<lparr>lc_subscribed := False\<rparr>) in
        if \<not> snd (aw_release aw) then fail_with BROKER_OWNERSHIP_RELEASE_FAILED lc1
        else transition_to Broker_Disposed None lc1)"

definition disposeCore :: "bool \<Rightarrow> awaits \<Rightarrow> lifecycle \<Rightarrow> lifecycle" where
  "disposeCore timerFailure aw lc =
     (let lc1 = transition_to Broker_Stopping None lc;
          stopped = (if lc_runtime lc1 \<noteq> None then stopRuntime (aw_stop aw) lc1 else (Inr (), lc1));
          lc2 = snd stopped;
          lc3 = (if timerFailure \<or> isl (fst stopped) then fail_with BROKER_RUNTIME_DISPOSE_FAILED lc2
                 else release_ownership aw lc2)
      in if st_state (lc_status lc3) = Broker_Disposed then lc3 else lc3\<lparr>lc_disposing := False\<rparr>)"

fun run_op :: "lifecycle_options \<Rightarrow> awaits \<Rightarrow> lifecycle_op \<Rightarrow> lifecycle \<Rightarrow> lifecycle" where
  "run_op opts aw Start_Op lc = startCore opts aw lc"
| "run_op opts aw Loss_Op lc = handleOwnershipLoss opts aw lc"
| "run_op opts aw Contention_Op lc = runScheduledContention opts aw lc"
| "run_op opts aw (Dispose_Op failure) lc = disposeCore failure aw lc"

text \<open>The next queued operation, run to its end.\<close>

definition run_next :: "lifecycle_options \<Rightarrow> awaits \<Rightarrow> lifecycle \<Rightarrow> lifecycle" where
  "run_next opts aw lc =
     (case lc_queue lc of [] \<Rightarrow> lc | op # rest \<Rightarrow> run_op opts aw op (lc\<lparr>lc_queue := rest\<rparr>))"

inductive lifecycle_step :: "lifecycle_options \<Rightarrow> lifecycle \<Rightarrow> lifecycle \<Rightarrow> bool" for opts where
  Outside: "lifecycle_step opts lc (external e lc)"
| Operation: "lc_queue lc \<noteq> [] \<Longrightarrow> lifecycle_step opts lc (run_next opts aw lc)"

inductive lifecycle_reached :: "lifecycle_options \<Rightarrow> lifecycle \<Rightarrow> bool" for opts where
  Initially: "new_lifecycle opts ow = Inr lc \<Longrightarrow> lifecycle_reached opts lc"
| Step: "lifecycle_reached opts lc \<Longrightarrow> lifecycle_step opts lc lc' \<Longrightarrow> lifecycle_reached opts lc'"

text \<open>The histories in which every disposal of a runtime succeeds.\<close>

definition clean :: "awaits \<Rightarrow> bool" where
  "clean aw \<longleftrightarrow> snd (aw_stop aw) \<and> snd (aw_cleanup aw)"

inductive clean_reached :: "lifecycle_options \<Rightarrow> lifecycle \<Rightarrow> bool" for opts where
  Initially: "new_lifecycle opts ow = Inr lc \<Longrightarrow> clean_reached opts lc"
| Outside: "clean_reached opts lc \<Longrightarrow> clean_reached opts (external e lc)"
| Operation: "clean_reached opts lc \<Longrightarrow> lc_queue lc \<noteq> [] \<Longrightarrow> clean aw \<Longrightarrow> clean_reached opts (run_next opts aw lc)"

lemma clean_reached_reached: "clean_reached opts lc \<Longrightarrow> lifecycle_reached opts lc"
  by (induction rule: clean_reached.induct) (auto intro: lifecycle_reached.intros lifecycle_step.intros)

section \<open>Replaying the log\<close>

datatype holder = Free | Held nat string bool

text \<open>
  What the log may do: a runtime is made when none is left; it is started at most once, as the owner
  of its generation and not after \<open>dispose\<close> was called; the one stopped is the one held.
\<close>

fun replay_step :: "runtime_event \<Rightarrow> holder \<Rightarrow> holder option" where
  "replay_step (Created n g) Free = Some (Held n g False)"
| "replay_step (Started n g ow disposing ok) (Held m h False) =
     (if n = m \<and> g = h \<and> ow_isOwner ow \<and> ow_currentGeneration ow = Some g \<and> \<not> disposing
      then Some (Held m h True) else None)"
| "replay_step (Stopped n) (Held m h s) = (if n = m then Some Free else None)"
| "replay_step _ _ = None"

definition replay :: "runtime_event list \<Rightarrow> holder option" where
  "replay es = foldl (\<lambda>h e. Option.bind h (replay_step e)) (Some Free) es"

lemma replay_Nil [simp]: "replay [] = Some Free" by (simp add: replay_def)

lemma replay_snoc [simp]: "replay (es @ [e]) = Option.bind (replay es) (replay_step e)"
  by (simp add: replay_def)

definition holds :: "lifecycle \<Rightarrow> holder \<Rightarrow> bool" where
  "holds lc h \<longleftrightarrow>
     (case h of Free \<Rightarrow> lc_runtime lc = None
      | Held n g _ \<Rightarrow> lc_runtime lc = Some n \<and> lc_runtimeGeneration lc = Some g)"

definition ledger_ok :: "lifecycle \<Rightarrow> bool" where
  "ledger_ok lc \<longleftrightarrow> (case replay (lc_log lc) of None \<Rightarrow> False | Some h \<Rightarrow> holds lc h)"

lemma ledger_cong:
  "lc_log a = lc_log b \<Longrightarrow> lc_runtime a = lc_runtime b \<Longrightarrow> lc_runtimeGeneration a = lc_runtimeGeneration b \<Longrightarrow>
   ledger_ok a = ledger_ok b"
  by (auto simp: ledger_ok_def holds_def split: option.splits holder.splits)

lemma ledger_free: "ledger_ok lc \<Longrightarrow> lc_runtime lc = None \<Longrightarrow> replay (lc_log lc) = Some Free"
  by (auto simp: ledger_ok_def holds_def split: option.splits holder.splits)

lemma ledger_held: "ledger_ok lc \<Longrightarrow> lc_runtime lc = Some n \<Longrightarrow>
   \<exists>g s. replay (lc_log lc) = Some (Held n g s) \<and> lc_runtimeGeneration lc = Some g"
  by (auto simp: ledger_ok_def holds_def split: option.splits holder.splits)

section \<open>The invariant\<close>

definition options_ok :: "lifecycle_options \<Rightarrow> bool" where
  "options_ok opts \<longleftrightarrow> validateDelay (op_contentionIntervalMs opts) \<and> validateDelay (op_retryBaseDelayMs opts)
     \<and> validateDelay (op_retryMaxDelayMs opts) \<and> op_retryBaseDelayMs opts \<le> op_retryMaxDelayMs opts"

definition delays :: "lifecycle_options \<Rightarrow> nat set" where
  "delays opts = insert (op_contentionIntervalMs opts) (retry_delay opts ` {1..31})"

definition begun :: "lifecycle \<Rightarrow> bool" where
  "begun lc \<longleftrightarrow> lc_startRequested lc \<and> Start_Op \<notin> set (lc_queue lc)"

definition is_dispose :: "lifecycle_op \<Rightarrow> bool" where
  "is_dispose op \<longleftrightarrow> (\<exists>b. op = Dispose_Op b)"

definition queue_ok :: "lifecycle \<Rightarrow> bool" where
  "queue_ok lc \<longleftrightarrow>
     length (filter ((=) Start_Op) (lc_queue lc)) \<le> 1
     \<and> (Start_Op \<in> set (lc_queue lc) \<longrightarrow> lc_startRequested lc)
     \<and> length (filter is_dispose (lc_queue lc)) \<le> 1
     \<and> ((\<exists>op \<in> set (lc_queue lc). is_dispose op) \<longrightarrow> lc_disposing lc)
     \<and> (lc_disposing lc \<longrightarrow> lc_disposeRequested lc)"

definition lc_ok :: "lifecycle_options \<Rightarrow> lifecycle \<Rightarrow> bool" where
  "lc_ok opts lc \<longleftrightarrow>
     ledger_ok lc
     \<and> queue_ok lc
     \<and> (\<forall>d. lc_timer lc = Some d \<longrightarrow> d \<in> delays opts \<and> \<not> lc_disposeRequested lc)
     \<and> (\<not> begun lc \<longrightarrow> lc_runtime lc = None \<and> \<not> lc_subscribed lc \<and> lc_timer lc = None
          \<and> Loss_Op \<notin> set (lc_queue lc) \<and> Contention_Op \<notin> set (lc_queue lc))
     \<and> (st_state (lc_status lc) = Broker_Disposed \<longrightarrow> lc_runtime lc = None \<and> \<not> lc_subscribed lc
          \<and> lc_disposing lc \<and> lc_disposeRequested lc \<and> \<not> (\<exists>op \<in> set (lc_queue lc). is_dispose op))"

text \<open>Something will happen: an operation is queued, the timer runs, or the runtime does.\<close>

definition awake :: "lifecycle \<Rightarrow> bool" where
  "awake lc \<longleftrightarrow>
     lc_disposeRequested lc \<or> \<not> lc_startRequested lc \<or> lc_queue lc \<noteq> [] \<or> lc_timer lc \<noteq> None
     \<or> lc_runtime lc \<noteq> None \<and> st_state (lc_status lc) = Broker_Running"

named_theorems lifecycle_defs "the small steps of the lifecycle"

lemmas [lifecycle_defs] = transition_to_def fail_with_def createStatus_def

section \<open>The outside\<close>

lemma external_frame:
  "lc_runtime (external e lc) = lc_runtime lc" "lc_runtimeGeneration (external e lc) = lc_runtimeGeneration lc"
  "lc_status (external e lc) = lc_status lc" "lc_log (external e lc) = lc_log lc"
  "lc_subscribed (external e lc) = lc_subscribed lc" "lc_runtimes (external e lc) = lc_runtimes lc"
  "begun lc \<Longrightarrow> begun (external e lc)" "lc_disposeRequested lc \<Longrightarrow> lc_disposeRequested (external e lc)"
  "lc_disposing lc \<Longrightarrow> lc_disposing (external e lc)"
  by (cases e; simp add: start_lifecycle_def dispose_lifecycle_def enqueue_def begun_def)+

lemma external_ok: "lc_ok opts lc \<Longrightarrow> lc_ok opts (external e lc)"
proof -
  assume ok: "lc_ok opts lc"
  have "ledger_ok (external e lc)" using ok ledger_cong [of "external e lc" lc] by (simp add: external_frame lc_ok_def)
  moreover have "filter ((=) Start_Op) (lc_queue lc) = []" if "Start_Op \<notin> set (lc_queue lc)"
    using that by (auto simp: filter_empty_conv)
  moreover have "filter is_dispose (lc_queue lc) = []" if "\<not> lc_disposing lc"
    using that ok by (auto simp: filter_empty_conv lc_ok_def queue_ok_def)
  ultimately show ?thesis
    using ok by (cases e) (auto simp: lc_ok_def queue_ok_def begun_def start_lifecycle_def dispose_lifecycle_def
        enqueue_def is_dispose_def)
qed

lemma external_awake: "awake lc \<Longrightarrow> awake (external e lc)"
  by (cases e) (auto simp: awake_def start_lifecycle_def dispose_lifecycle_def enqueue_def)

lemma meanwhile_ok: "lc_ok opts lc \<Longrightarrow> lc_ok opts (meanwhile es lc)"
  by (induction es arbitrary: lc) (simp_all add: meanwhile_def external_ok)

lemma meanwhile_frame [simp]:
  "lc_runtime (meanwhile es lc) = lc_runtime lc" "lc_runtimeGeneration (meanwhile es lc) = lc_runtimeGeneration lc"
  "lc_status (meanwhile es lc) = lc_status lc" "lc_log (meanwhile es lc) = lc_log lc"
  "lc_subscribed (meanwhile es lc) = lc_subscribed lc" "lc_runtimes (meanwhile es lc) = lc_runtimes lc"
  "begun lc \<Longrightarrow> begun (meanwhile es lc)" "lc_disposeRequested lc \<Longrightarrow> lc_disposeRequested (meanwhile es lc)"
  "lc_disposing lc \<Longrightarrow> lc_disposing (meanwhile es lc)"
  by (induction es arbitrary: lc; simp add: meanwhile_def external_frame)+

section \<open>The operations\<close>

lemma transition_to_frame [simp]:
  "lc_runtime (transition_to st er lc) = lc_runtime lc" "lc_runtimeGeneration (transition_to st er lc) = lc_runtimeGeneration lc"
  "lc_log (transition_to st er lc) = lc_log lc" "lc_subscribed (transition_to st er lc) = lc_subscribed lc"
  "lc_runtimes (transition_to st er lc) = lc_runtimes lc" "begun (transition_to st er lc) = begun lc"
  "lc_disposeRequested (transition_to st er lc) = lc_disposeRequested lc"
  "lc_disposing (transition_to st er lc) = lc_disposing lc" "lc_ownership (transition_to st er lc) = lc_ownership lc"
  "lc_timer (transition_to st er lc) = lc_timer lc" "lc_queue (transition_to st er lc) = lc_queue lc"
  "st_state (lc_status (transition_to st er lc)) = st" "lc_startRequested (transition_to st er lc) = lc_startRequested lc"
  by (simp_all add: transition_to_def createStatus_def begun_def)

lemma transition_ok: "lc_ok opts lc \<Longrightarrow> st \<noteq> Broker_Disposed \<Longrightarrow> lc_ok opts (transition_to st er lc)"
  using ledger_cong [of "transition_to st er lc" lc]
  by (auto simp: lc_ok_def queue_ok_def begun_def transition_to_def createStatus_def)

lemma retry_attempt_ok: "lc_ok opts (lc\<lparr>lc_retryAttempt := k\<rparr>) = lc_ok opts lc"
  using ledger_cong [of "lc\<lparr>lc_retryAttempt := k\<rparr>" lc] by (simp add: lc_ok_def queue_ok_def begun_def)

lemma schedule_ok:
  assumes "lc_ok opts lc" "begun lc" "options_ok opts" "d \<in> delays opts"
  shows "lc_ok opts (schedule d lc)" "lc_disposeRequested (schedule d lc) \<or> lc_timer (schedule d lc) \<noteq> None"
proof -
  have "min d maxTimerDelayMs = d"
    using assms(3,4) by (auto simp: delays_def options_ok_def validateDelay_def retry_delay_def)
  with assms show "lc_ok opts (schedule d lc)"
    using ledger_cong [of "schedule d lc" lc] by (auto simp: lc_ok_def queue_ok_def begun_def schedule_def)
  show "lc_disposeRequested (schedule d lc) \<or> lc_timer (schedule d lc) \<noteq> None" by (simp add: schedule_def)
qed

text \<open>The end of an operation that arms the timer.\<close>

definition settled :: "lifecycle_options \<Rightarrow> lifecycle \<Rightarrow> bool" where
  "settled opts lc \<longleftrightarrow> lc_ok opts lc \<and> awake lc"

lemma retry_settled:
  assumes "lc_ok opts lc" "begun lc" "options_ok opts"
  shows "settled opts (scheduleRetry opts (fail_with er lc))"
proof -
  let ?k = "min (lc_retryAttempt (fail_with er lc) + 1) 31"
  have "lc_ok opts ((fail_with er lc)\<lparr>lc_retryAttempt := ?k\<rparr>)" "begun ((fail_with er lc)\<lparr>lc_retryAttempt := ?k\<rparr>)"
    using assms by (simp_all add: retry_attempt_ok fail_with_def transition_ok) (simp add: begun_def)
  moreover have "retry_delay opts ?k \<in> delays opts" by (simp add: delays_def)
  ultimately show ?thesis
    using schedule_ok assms(3) unfolding settled_def scheduleRetry_def Let_def awake_def by blast
qed

lemma contend_settled: "lc_ok opts lc \<Longrightarrow> begun lc \<Longrightarrow> options_ok opts \<Longrightarrow> settled opts (contend_later opts lc)"
  using schedule_ok [of opts "transition_to Broker_Contending None lc" "op_contentionIntervalMs opts"]
  by (auto simp: settled_def contend_later_def transition_ok awake_def delays_def)

lemma stopRuntime_ok:
  assumes "lc_ok opts lc" "stopRuntime aw lc = (r, lc')"
  shows "lc_ok opts lc'" "begun lc \<Longrightarrow> begun lc'" "r = Inr () \<Longrightarrow> lc_runtime lc' = None"
    "lc_status lc' = lc_status lc" "lc_disposeRequested lc \<Longrightarrow> lc_disposeRequested lc'"
    "lc_disposing lc \<Longrightarrow> lc_disposing lc'" "lc_subscribed lc' = lc_subscribed lc"
proof -
  show "lc_ok opts lc'"
  proof (cases "lc_runtime lc")
    case None
    then have "lc' = lc\<lparr>lc_runtimeGeneration := None\<rparr>" using assms(2) by (simp add: stopRuntime_def)
    moreover have "ledger_ok (lc\<lparr>lc_runtimeGeneration := None\<rparr>)"
      using assms(1) ledger_free [OF _ None] by (simp add: lc_ok_def) (simp add: ledger_ok_def holds_def None)
    ultimately show ?thesis using assms(1) by (simp add: lc_ok_def queue_ok_def begun_def)
  next
    case (Some n)
    let ?m = "meanwhile (fst aw) lc"
    have m: "lc_ok opts ?m" by (rule meanwhile_ok [OF assms(1)])
    then have h: "\<exists>g s. replay (lc_log lc) = Some (Held n g s)" using ledger_held [of ?m n] Some by (auto simp: lc_ok_def)
    show ?thesis
    proof (cases "snd aw")
      case True
      then have "lc' = (log_event (Stopped n) ?m)\<lparr>lc_runtime := None, lc_runtimeGeneration := None\<rparr>"
        using Some assms(2) by (simp add: stopRuntime_def Let_def log_event_def)
      with m h show ?thesis
        by (auto simp: lc_ok_def queue_ok_def begun_def ledger_ok_def holds_def log_event_def)
    next
      case False
      with Some assms(2) m show ?thesis by (simp add: stopRuntime_def Let_def)
    qed
  qed
  show "begun lc \<Longrightarrow> begun lc'"
    using assms(2) meanwhile_frame(7) [of lc "fst aw"]
    by (auto simp: stopRuntime_def Let_def log_event_def begun_def split: option.splits if_splits)
  show "r = Inr () \<Longrightarrow> lc_runtime lc' = None" "lc_status lc' = lc_status lc"
    "lc_disposeRequested lc \<Longrightarrow> lc_disposeRequested lc'"
    "lc_disposing lc \<Longrightarrow> lc_disposing lc'" "lc_subscribed lc' = lc_subscribed lc"
    using assms(2) by (auto simp: stopRuntime_def Let_def log_event_def split: option.splits if_splits)
qed

lemma make_runtime_ok:
  assumes "lc_ok opts lc" "begun lc" "lc_runtime lc = None" "st_state (lc_status lc) \<noteq> Broker_Disposed"
  shows "lc_ok opts (make_runtime g lc)" "begun (make_runtime g lc)"
    "replay (lc_log (make_runtime g lc)) = Some (Held (lc_runtimes lc) g False)"
proof -
  have "replay (lc_log lc) = Some Free" using assms(1,3) ledger_free by (simp add: lc_ok_def)
  then show r: "replay (lc_log (make_runtime g lc)) = Some (Held (lc_runtimes lc) g False)"
    by (simp add: make_runtime_def log_event_def)
  then have "ledger_ok (make_runtime g lc)" by (simp add: ledger_ok_def holds_def make_runtime_def log_event_def)
  then show "lc_ok opts (make_runtime g lc)" "begun (make_runtime g lc)"
    using assms by (simp_all add: lc_ok_def queue_ok_def begun_def) (auto simp: make_runtime_def log_event_def)
qed

lemma started_ok:
  assumes "lc_ok opts lc" "begun lc" "lc_runtime lc = None" "st_state (lc_status lc) \<noteq> Broker_Disposed"
    and "isCurrentOwner (Some g) (make_runtime g lc)" "\<not> lc_disposeRequested (make_runtime g lc)"
  shows "lc_ok opts (log_event (Started (lc_runtimes lc) g (lc_ownership (make_runtime g lc))
    (lc_disposeRequested (make_runtime g lc)) ok) (make_runtime g lc))" (is "lc_ok opts ?new")
proof -
  note m = make_runtime_ok [OF assms(1-4), of g]
  have "lc_runtime (make_runtime g lc) = Some (lc_runtimes lc)" "lc_runtimeGeneration (make_runtime g lc) = Some g"
    by (simp_all add: make_runtime_def log_event_def)
  then have "ledger_ok ?new"
    using m(3) assms(5,6) by (simp add: ledger_ok_def holds_def log_event_def isCurrentOwner_def)
  with m(1) show ?thesis by (simp add: lc_ok_def queue_ok_def begun_def) (simp add: log_event_def)
qed

lemma log_frame [simp]:
  "lc_disposeRequested (log_event e lc) = lc_disposeRequested lc" "begun (log_event e lc) = begun lc"
  "lc_runtime (log_event e lc) = lc_runtime lc" "lc_status (log_event e lc) = lc_status lc"
  "lc_ownership (log_event e lc) = lc_ownership lc" "lc_subscribed (log_event e lc) = lc_subscribed lc"
  by (simp_all add: log_event_def begun_def)

lemma make_frame [simp]:
  "lc_runtime (make_runtime g lc) = Some (lc_runtimes lc)" "lc_status (make_runtime g lc) = lc_status lc"
  by (simp_all add: make_runtime_def log_event_def)

text \<open>Ending with the disposal of the runtime.\<close>

lemma cleanup_ok:
  assumes "lc_ok opts lc" "begun lc" "bindS (stopRuntime aw) (\<lambda>_. liftS r) lc = (r', lc')" "r \<noteq> Inr True"
  shows "lc_ok opts lc'" "begun lc'" "r' \<noteq> Inr True"
proof -
  obtain x lc1 where s: "stopRuntime aw lc = (x, lc1)" by fastforce
  with assms(3,4) stopRuntime_ok(1,2) [OF assms(1) s] assms(2)
  show "lc_ok opts lc'" "begun lc'" "r' \<noteq> Inr True"
    by (auto simp: bindS_def liftS_def split: sum.splits)
qed

lemma startRuntime_ok:
  assumes ok: "lc_ok opts lc" and b: "begun lc" and free: "lc_runtime lc = None"
    and s: "startRuntime aw g lc = (r, lc')"
  shows "lc_ok opts lc' \<and> begun lc' \<and> (r = Inr True \<longrightarrow> lc_runtime lc' \<noteq> None
    \<and> st_state (lc_status lc') = Broker_Running)"
proof (cases "\<not> isCurrentOwner (Some g) lc \<or> lc_disposeRequested lc")
  case True with s ok b show ?thesis by (auto simp: startRuntime_def)
next
  case owner: False
  define lc1 where "lc1 = meanwhile (fst (aw_factory aw)) (transition_to Broker_Starting None lc)"
  have 1: "lc_ok opts lc1" "begun lc1" "lc_runtime lc1 = None" "st_state (lc_status lc1) \<noteq> Broker_Disposed"
    using ok b free by (simp_all add: lc1_def meanwhile_ok transition_ok)
  note 2 = make_runtime_ok [OF 1, of g]
  show ?thesis
  proof (cases "snd (aw_factory aw)")
    case f: True
    define lc2 where "lc2 = make_runtime g lc1"
    show ?thesis
    proof (cases "\<not> isCurrentOwner (Some g) lc2 \<or> lc_disposeRequested lc2")
      case True
      then have "bindS (stopRuntime (aw_cleanup aw)) (\<lambda>_. liftS (Inr False)) lc2 = (r, lc')"
        using s owner f by (simp add: startRuntime_def Let_def flip: lc1_def lc2_def)
      from cleanup_ok [OF 2(1,2) [folded lc2_def] this] show ?thesis by simp
    next
      case still: False
      let ?e = "Started (lc_runtimes lc1) g (lc_ownership lc2) (lc_disposeRequested lc2) (snd (aw_start aw))"
      define lc3 where "lc3 = meanwhile (fst (aw_start aw)) (log_event ?e lc2)"
      have "lc_ok opts (log_event ?e lc2)"
        using started_ok [OF 1, of g "snd (aw_start aw)"] still unfolding lc2_def by blast
      then have 3: "lc_ok opts lc3" "begun lc3" "lc_runtime lc3 \<noteq> None"
        using 2(2) by (simp_all add: lc3_def meanwhile_ok flip: lc2_def) (simp add: lc2_def)
      have "if \<not> snd (aw_start aw) then bindS (stopRuntime (aw_cleanup aw)) (\<lambda>_. liftS (Inl Plain_Error)) lc3 = (r, lc')
        else if \<not> isCurrentOwner (Some g) lc3 \<or> lc_disposeRequested lc3
        then bindS (stopRuntime (aw_cleanup aw)) (\<lambda>_. liftS (Inr False)) lc3 = (r, lc')
        else (Inr True, transition_to Broker_Running None (lc3\<lparr>lc_retryAttempt := 0\<rparr>)) = (r, lc')"
        using s unfolding startRuntime_def Let_def
        by (simp only: lc1_def [symmetric] lc2_def [symmetric] lc3_def [symmetric] owner f still if_False if_True simp_thms)
          (auto split: if_splits)
      then show ?thesis
        using cleanup_ok [OF 3(1,2)] 3 by (auto simp: transition_ok retry_attempt_ok begun_def split: if_splits) 
    qed
  next
    case False
    with s owner 1 show ?thesis by (auto simp: startRuntime_def Let_def simp flip: lc1_def)
  qed
qed

lemma after_start_settled:
  assumes "lc_ok opts lc" "begun lc" "lc_runtime lc = None" "options_ok opts"
  shows "settled opts (after_start opts (startRuntime aw g lc))"
proof -
  obtain r lc' where s: "startRuntime aw g lc = (r, lc')" by fastforce
  from startRuntime_ok [OF assms(1-3) s] assms(4) retry_settled contend_settled show ?thesis
    by (auto simp: after_start_def s settled_def awake_def split: sum.split)
qed

lemma startCore_settled:
  assumes "lc_ok opts lc" "begun lc" "lc_runtime lc = None" "options_ok opts"
  shows "settled opts (startCore opts aw lc)"
proof (cases "lc_disposeRequested lc")
  case False
  let ?lc = "lc\<lparr>lc_subscribed := True\<rparr>"
  have "st_state (lc_status lc) \<noteq> Broker_Disposed" using False assms(1) by (auto simp: lc_ok_def)
  then have "lc_ok opts ?lc"
    using assms(1,2) ledger_cong [of ?lc lc] by (auto simp: lc_ok_def queue_ok_def begun_def)
  moreover have "begun ?lc" "lc_runtime ?lc = None" using assms by (simp_all add: begun_def)
  ultimately show ?thesis
    using False assms(4) contend_settled retry_settled after_start_settled
    by (auto simp: startCore_def Let_def split: option.split)
qed (use assms in \<open>simp add: startCore_def settled_def awake_def\<close>)

lemma stop_first_ok:
  assumes "lc_ok opts lc" "(if P then stopRuntime aw (transition_to Broker_Stopping None lc) else (Inr (), lc)) = (r, lc1)"
  shows "lc_ok opts lc1" "begun lc \<Longrightarrow> begun lc1" "r = Inr () \<Longrightarrow> P \<Longrightarrow> lc_runtime lc1 = None" "\<not> P \<Longrightarrow> lc1 = lc"
    "lc_disposing lc \<Longrightarrow> lc_disposing lc1" "lc_disposeRequested lc \<Longrightarrow> lc_disposeRequested lc1"
proof -
  have t: "lc_ok opts (transition_to Broker_Stopping None lc)" using assms(1) by (simp add: transition_ok)
  show "\<not> P \<Longrightarrow> lc1 = lc" using assms(2) by simp
  show "r = Inr () \<Longrightarrow> P \<Longrightarrow> lc_runtime lc1 = None"
    using assms(2) stopRuntime_ok(3) [OF t] by simp
  show "lc_ok opts lc1" "begun lc \<Longrightarrow> begun lc1" "lc_disposing lc \<Longrightarrow> lc_disposing lc1"
    "lc_disposeRequested lc \<Longrightarrow> lc_disposeRequested lc1"
    using assms stopRuntime_ok(1,2,5,6) [OF t, where aw = aw] by (cases P; force)+
qed

lemma handleOwnershipLoss_settled:
  assumes "lc_ok opts lc" "begun lc" "options_ok opts"
  shows "settled opts (handleOwnershipLoss opts aw lc)"
proof (cases "lc_disposeRequested lc")
  case False
  obtain r lc1 where s: "(if lc_runtime lc \<noteq> None
      then stopRuntime (aw_stop aw) (transition_to Broker_Stopping None lc) else (Inr (), lc)) = (r, lc1)" by fastforce
  note stop = stop_first_ok [OF assms(1) s]
  have "lc_ok opts lc1" "begun lc1" using stop assms(2) by blast+
  moreover from this have "lc_ok opts (lc1\<lparr>lc_retryAttempt := 0\<rparr>)" "begun (lc1\<lparr>lc_retryAttempt := 0\<rparr>)"
    by (simp_all add: retry_attempt_ok begun_def)
  ultimately show ?thesis
    using False assms(3) retry_settled contend_settled
    unfolding handleOwnershipLoss_def Let_def s by (auto split: sum.split)
qed (use assms in \<open>simp add: handleOwnershipLoss_def settled_def awake_def\<close>)

lemma contend_and_start_settled:
  assumes "lc_ok opts lc" "begun lc" "lc_runtime lc = None" "options_ok opts"
  shows "settled opts (contend_and_start opts aw lc)"
proof -
  define lc1 where "lc1 = meanwhile (fst (aw_contend aw)) (transition_to Broker_Contending None lc)"
  have 1: "lc_ok opts lc1" "begun lc1" "lc_runtime lc1 = None"
    using assms by (simp_all add: lc1_def meanwhile_ok transition_ok)
  then have "lc_ok opts (lc1\<lparr>lc_retryAttempt := 0\<rparr>)" "begun (lc1\<lparr>lc_retryAttempt := 0\<rparr>)"
    by (simp_all add: retry_attempt_ok begun_def)
  with 1 assms(4) show ?thesis
    by (auto simp: contend_and_start_def Let_def retry_settled contend_settled after_start_settled transition_ok
        simp flip: lc1_def split: option.split bool.split)
qed

lemma runScheduledContention_settled:
  assumes "lc_ok opts lc" "begun lc" "options_ok opts"
  shows "settled opts (runScheduledContention opts aw lc)"
proof (cases "lc_disposeRequested lc")
  case False
  obtain r lc1 where s: "(if lc_runtime lc \<noteq> None \<and> \<not> isCurrentOwner (lc_runtimeGeneration lc) lc
      then stopRuntime (aw_stop aw) (transition_to Broker_Stopping None lc) else (Inr (), lc)) = (r, lc1)" by fastforce
  have 1: "lc_ok opts lc1" "begun lc1"
    and free: "r = Inr () \<Longrightarrow> \<not> (lc_runtime lc1 \<noteq> None \<and> isCurrentOwner (lc_runtimeGeneration lc1) lc1) \<Longrightarrow>
      lc_runtime lc1 = None"
    using stop_first_ok [OF assms(1) s] assms(2) by blast+
  from 1 have "lc_ok opts (lc1\<lparr>lc_retryAttempt := 0\<rparr>)" by (simp add: retry_attempt_ok)
  then have run: "lc_runtime lc1 \<noteq> None \<Longrightarrow> settled opts (transition_to Broker_Running None (lc1\<lparr>lc_retryAttempt := 0\<rparr>))"
    by (simp add: settled_def awake_def transition_ok)
  show ?thesis
    using False 1 assms(3) retry_settled contend_and_start_settled run free
    unfolding runScheduledContention_def Let_def s by (auto split: sum.split)
qed (use assms in \<open>simp add: runScheduledContention_def settled_def awake_def\<close>)

text \<open>While the disposal runs, no second one is queued.\<close>

definition lone_dispose :: "lifecycle \<Rightarrow> bool" where
  "lone_dispose lc \<longleftrightarrow> lc_disposing lc \<and> lc_disposeRequested lc \<and> \<not> (\<exists>op \<in> set (lc_queue lc). is_dispose op)"

lemma meanwhile_lone: "lone_dispose lc \<Longrightarrow> lone_dispose (meanwhile es lc)"
proof (induction es arbitrary: lc)
  case (Cons e es)
  have "lone_dispose (external e lc)"
    using Cons.prems
    by (cases e) (auto simp: lone_dispose_def start_lifecycle_def dispose_lifecycle_def enqueue_def is_dispose_def)
  from Cons.IH [OF this] show ?case by (simp add: meanwhile_def)
qed (simp add: meanwhile_def)

lemma lone_simps [simp]:
  "lone_dispose (transition_to st er lc) = lone_dispose lc" "lone_dispose (log_event e lc) = lone_dispose lc"
  "lone_dispose (lc\<lparr>lc_runtime := r, lc_runtimeGeneration := g\<rparr>) = lone_dispose lc"
  "lone_dispose (lc\<lparr>lc_runtimeGeneration := g\<rparr>) = lone_dispose lc" "lone_dispose (lc\<lparr>lc_runtime := r\<rparr>) = lone_dispose lc"
  "lone_dispose (lc\<lparr>lc_subscribed := b\<rparr>) = lone_dispose lc"
  by (simp_all add: lone_dispose_def log_event_def)

lemma stop_lone: "lone_dispose lc \<Longrightarrow> stopRuntime aw lc = (r, lc') \<Longrightarrow> lone_dispose lc'"
  using meanwhile_lone by (auto simp: stopRuntime_def Let_def split: option.splits if_splits)

lemma disposed_ok:
  assumes "lc_ok opts lc" "lone_dispose lc" "lc_runtime lc = None" "\<not> lc_subscribed lc"
  shows "lc_ok opts (transition_to Broker_Disposed None lc)"
proof -
  have "ledger_ok (transition_to Broker_Disposed None lc) = ledger_ok lc" by (rule ledger_cong) simp_all
  with assms show ?thesis by (auto simp: lc_ok_def queue_ok_def lone_dispose_def)
qed

lemma release_ok:
  assumes "lc_ok opts lc" "lone_dispose lc" "lc_runtime lc = None" "st_state (lc_status lc) \<noteq> Broker_Disposed"
  shows "lc_ok opts (release_ownership aw lc)" "lone_dispose (release_ownership aw lc)"
proof -
  let ?lc = "lc\<lparr>lc_subscribed := False\<rparr>"
  have "lc_ok opts ?lc"
    using assms(1,4) ledger_cong [of ?lc lc] by (auto simp: lc_ok_def queue_ok_def begun_def)
  then have m: "lc_ok opts (meanwhile (fst (aw_release aw)) ?lc)" "lone_dispose (meanwhile (fst (aw_release aw)) ?lc)"
    using assms(2) by (simp_all add: meanwhile_ok meanwhile_lone)
  then show "lc_ok opts (release_ownership aw lc)" "lone_dispose (release_ownership aw lc)"
    using assms disposed_ok [OF m] by (auto simp: release_ownership_def Let_def fail_with_def transition_ok)
qed

lemma disposeCore_settled:
  assumes "lc_ok opts lc" "lone_dispose lc"
  shows "settled opts (disposeCore failure aw lc)"
proof -
  obtain r lc2 where s: "(if lc_runtime lc \<noteq> None
      then stopRuntime (aw_stop aw) (transition_to Broker_Stopping None lc)
      else (Inr (), transition_to Broker_Stopping None lc)) = (r, lc2)" by fastforce
  have t: "lc_ok opts (transition_to Broker_Stopping None lc)" using assms(1) by (simp add: transition_ok)
  have "lc_ok opts lc2 \<and> lone_dispose lc2 \<and> (r = Inr () \<longrightarrow> lc_runtime lc2 = None)
      \<and> st_state (lc_status lc2) = Broker_Stopping"
  proof (cases "lc_runtime lc = None")
    case True
    with s t assms(2) show ?thesis by auto
  next
    case False
    then have st: "stopRuntime (aw_stop aw) (transition_to Broker_Stopping None lc) = (r, lc2)" using s by simp
    from stopRuntime_ok(1,3,4) [OF t st] stop_lone [OF _ st] assms(2)
    show ?thesis by simp
  qed
  then have 2: "lc_ok opts lc2" "lone_dispose lc2" "r = Inr () \<Longrightarrow> lc_runtime lc2 = None"
    "st_state (lc_status lc2) = Broker_Stopping" by simp_all
  define lc3 where "lc3 = (if failure \<or> isl r then fail_with BROKER_RUNTIME_DISPOSE_FAILED lc2 else release_ownership aw lc2)"
  have 3: "lc_ok opts lc3" "lone_dispose lc3"
    using 2 release_ok [OF 2(1,2)] by (cases r; auto simp: lc3_def fail_with_def transition_ok)+
  have "ledger_ok (lc3\<lparr>lc_disposing := False\<rparr>) = ledger_ok lc3" by (rule ledger_cong) simp_all
  with 3 have "st_state (lc_status lc3) \<noteq> Broker_Disposed \<Longrightarrow> lc_ok opts (lc3\<lparr>lc_disposing := False\<rparr>)"
    by (auto simp: lc_ok_def queue_ok_def begun_def lone_dispose_def)
  moreover have "disposeCore failure aw lc =
      (if st_state (lc_status lc3) = Broker_Disposed then lc3 else lc3\<lparr>lc_disposing := False\<rparr>)"
    using s by (simp add: disposeCore_def Let_def lc3_def)
  ultimately show ?thesis using 3 by (auto simp: settled_def awake_def lone_dispose_def)
qed

section \<open>Runs\<close>

lemma pop_ok:
  assumes "lc_ok opts lc" "lc_queue lc = op # rest"
  shows "lc_ok opts (lc\<lparr>lc_queue := rest\<rparr>)"
    "op = Start_Op \<Longrightarrow> begun (lc\<lparr>lc_queue := rest\<rparr>) \<and> lc_runtime lc = None"
    "op = Loss_Op \<or> op = Contention_Op \<Longrightarrow> begun (lc\<lparr>lc_queue := rest\<rparr>)"
    "is_dispose op \<Longrightarrow> lone_dispose (lc\<lparr>lc_queue := rest\<rparr>)"
proof -
  have l: "ledger_ok (lc\<lparr>lc_queue := rest\<rparr>) = ledger_ok lc" by (rule ledger_cong) simp_all
  have none: "filter P rest = [] \<longleftrightarrow> (\<forall>x \<in> set rest. \<not> P x)" for P :: "lifecycle_op \<Rightarrow> bool"
    by (simp add: filter_empty_conv)
  show "op = Start_Op \<Longrightarrow> begun (lc\<lparr>lc_queue := rest\<rparr>) \<and> lc_runtime lc = None"
    using assms none [of "(=) Start_Op"] by (auto simp: lc_ok_def queue_ok_def begun_def)
  show "op = Loss_Op \<or> op = Contention_Op \<Longrightarrow> begun (lc\<lparr>lc_queue := rest\<rparr>)"
    using assms by (auto simp: lc_ok_def begun_def)
  show "is_dispose op \<Longrightarrow> lone_dispose (lc\<lparr>lc_queue := rest\<rparr>)"
    using assms none [of is_dispose] by (auto simp: lc_ok_def queue_ok_def lone_dispose_def)
  show "lc_ok opts (lc\<lparr>lc_queue := rest\<rparr>)"
    using assms l by (auto simp: lc_ok_def queue_ok_def begun_def split: if_splits)
qed

lemma run_next_settled:
  assumes "lc_ok opts lc" "options_ok opts" "lc_queue lc \<noteq> []"
  shows "settled opts (run_next opts aw lc)"
proof -
  obtain op rest where q: "lc_queue lc = op # rest" using assms(3) by (cases "lc_queue lc") auto
  note p = pop_ok [OF assms(1) q]
  show ?thesis
    using p assms(2)
    by (cases op) (simp_all add: run_next_def q startCore_settled handleOwnershipLoss_settled
        runScheduledContention_settled disposeCore_settled is_dispose_def)
qed

lemma step_settled: "settled opts lc \<Longrightarrow> options_ok opts \<Longrightarrow> lifecycle_step opts lc lc' \<Longrightarrow> settled opts lc'"
  by (cases rule: lifecycle_step.cases [of opts lc lc'])
    (use run_next_settled [of opts lc] in \<open>auto simp: settled_def external_ok external_awake\<close>)

lemma new_settled: "new_lifecycle opts ow = Inr lc \<Longrightarrow> options_ok opts \<and> settled opts lc"
  by (auto simp: new_lifecycle_def settled_def lc_ok_def ledger_ok_def holds_def queue_ok_def begun_def awake_def
      options_ok_def createStatus_def split: if_splits)

lemma reached_settled: "lifecycle_reached opts lc \<Longrightarrow> options_ok opts \<and> settled opts lc"
  by (induction rule: lifecycle_reached.induct) (use new_settled step_settled in blast)+

section \<open>When disposals succeed\<close>

text \<open>The runtime held is one whose \<open>start\<close> was called and succeeded.\<close>

definition healthy :: "lifecycle \<Rightarrow> bool" where
  "healthy lc \<longleftrightarrow> (\<forall>n. lc_runtime lc = Some n \<longrightarrow> (\<exists>es g ow. lc_log lc = es @ [Started n g ow False True]))"

lemma healthy_None [simp]: "lc_runtime lc = None \<Longrightarrow> healthy lc"
  by (simp add: healthy_def)

lemma healthy_cong:
  "lc_runtime lc' = lc_runtime lc \<Longrightarrow> lc_log lc' = lc_log lc \<Longrightarrow> healthy lc' = healthy lc"
  by (simp add: healthy_def)

lemma healthy_simps [simp]:
  "healthy (transition_to st er lc) = healthy lc" "healthy (fail_with code lc) = healthy lc"
  "healthy (schedule d lc) = healthy lc" "healthy (scheduleRetry opts lc) = healthy lc"
  "healthy (contend_later opts lc) = healthy lc" "healthy (lc\<lparr>lc_retryAttempt := k\<rparr>) = healthy lc"
  "healthy (external e lc) = healthy lc"
  by (rule healthy_cong;
      simp add: fail_with_def schedule_def scheduleRetry_def contend_later_def Let_def external_frame)+

lemma stop_clean:
  "snd aw \<Longrightarrow> stopRuntime aw lc = (r, lc') \<Longrightarrow> r = Inr () \<and> lc_runtime lc' = None"
  by (auto simp: stopRuntime_def Let_def log_event_def split: option.splits if_splits)

lemma cleanup_clean:
  assumes "snd aw" "bindS (stopRuntime aw) (\<lambda>_. liftS r) lc = (r', lc')"
  shows "healthy lc'"
proof -
  obtain x lc1 where x: "stopRuntime aw lc = (x, lc1)" by fastforce
  from stop_clean [OF assms(1) x] assms(2) x have "lc_runtime lc' = None"
    by (auto simp: bindS_def liftS_def)
  then show ?thesis by simp
qed

lemma startRuntime_clean:
  assumes "clean aw" "lc_runtime lc = None" "startRuntime aw g lc = (r, lc')"
  shows "healthy lc'"
proof (cases "isCurrentOwner (Some g) lc \<and> \<not> lc_disposeRequested lc \<and> snd (aw_factory aw)")
  case True
  define lc1 where "lc1 = meanwhile (fst (aw_factory aw)) (transition_to Broker_Starting None lc)"
  define lc2 where "lc2 = make_runtime g lc1"
  let ?e = "Started (lc_runtimes lc1) g (lc_ownership lc2) (lc_disposeRequested lc2) (snd (aw_start aw))"
  define lc3 where "lc3 = meanwhile (fst (aw_start aw)) (log_event ?e lc2)"
  have cleanup: "snd (aw_cleanup aw)" using assms(1) by (simp add: clean_def)
  have lc3: "lc_runtime lc3 = Some (lc_runtimes lc1)" "lc_log lc3 = lc_log lc2 @ [?e]"
    by (simp_all add: lc3_def) (simp_all add: lc2_def log_event_def)
  have "if \<not> isCurrentOwner (Some g) lc2 \<or> lc_disposeRequested lc2
      then bindS (stopRuntime (aw_cleanup aw)) (\<lambda>_. liftS (Inr False)) lc2 = (r, lc')
      else if \<not> snd (aw_start aw)
      then bindS (stopRuntime (aw_cleanup aw)) (\<lambda>_. liftS (Inl Plain_Error)) lc3 = (r, lc')
      else if \<not> isCurrentOwner (Some g) lc3 \<or> lc_disposeRequested lc3
      then bindS (stopRuntime (aw_cleanup aw)) (\<lambda>_. liftS (Inr False)) lc3 = (r, lc')
      else (Inr True, transition_to Broker_Running None (lc3\<lparr>lc_retryAttempt := 0\<rparr>)) = (r, lc')"
    using assms(3) True unfolding startRuntime_def Let_def
    by (simp only: lc1_def [symmetric] lc2_def [symmetric] lc3_def [symmetric] True if_False if_True simp_thms)
      (auto split: if_splits)
  moreover have "healthy lc3" if "snd (aw_start aw)" "\<not> lc_disposeRequested lc2"
    using lc3 that by (simp add: healthy_def)
  ultimately show ?thesis using cleanup_clean [OF cleanup] by (auto split: if_splits)
next
  case False
  then have "lc' = lc \<or> lc' = meanwhile (fst (aw_factory aw)) (transition_to Broker_Starting None lc)"
    using assms(3) by (auto simp: startRuntime_def Let_def split: if_splits)
  then have "lc_runtime lc' = None" using assms(2) by auto
  then show ?thesis by simp
qed

lemma after_start_clean:
  "clean aw \<Longrightarrow> lc_runtime lc = None \<Longrightarrow> healthy (after_start opts (startRuntime aw g lc))"
  using startRuntime_clean [of aw lc g]
  by (cases "startRuntime aw g lc") (auto simp: after_start_def split: sum.split)

lemma contend_clean: "clean aw \<Longrightarrow> lc_runtime lc = None \<Longrightarrow> healthy (contend_and_start opts aw lc)"
  by (auto simp: contend_and_start_def Let_def after_start_clean split: option.split bool.split)

lemma run_next_clean:
  assumes "lc_ok opts lc" "clean aw" "lc_queue lc \<noteq> []" "healthy lc"
  shows "healthy (run_next opts aw lc)"
proof -
  obtain op rest where q: "lc_queue lc = op # rest" using assms(3) by (cases "lc_queue lc") auto
  let ?lc = "lc\<lparr>lc_queue := rest\<rparr>"
  have h: "healthy ?lc" using assms(4) healthy_cong [of ?lc lc] by simp
  have stop: "r = Inr () \<and> lc_runtime lc1 = None" if "stopRuntime (aw_stop aw) lc0 = (r, lc1)" for lc0 r lc1
    using stop_clean [OF _ that] assms(2) by (simp add: clean_def)
  show ?thesis
  proof (cases op)
    case Start_Op
    then have "lc_runtime ?lc = None" using pop_ok(2) [OF assms(1) q] by simp
    with h assms(2) show ?thesis
      by (auto simp: run_next_def q Start_Op startCore_def Let_def after_start_clean split: option.split)
  next
    case Loss_Op
    obtain r lc1 where st: "stopRuntime (aw_stop aw) (transition_to Broker_Stopping None ?lc) = (r, lc1)" by fastforce
    from stop [OF st] h show ?thesis
      by (auto simp: run_next_def q Loss_Op handleOwnershipLoss_def Let_def st split: sum.split)
  next
    case Contention_Op
    obtain r lc1 where st: "stopRuntime (aw_stop aw) (transition_to Broker_Stopping None ?lc) = (r, lc1)" by fastforce
    from stop [OF st] h contend_clean [OF assms(2)] show ?thesis
      by (auto simp: run_next_def q Contention_Op runScheduledContention_def Let_def st split: sum.split)
  next
    case (Dispose_Op failure)
    obtain r lc1 where st: "stopRuntime (aw_stop aw) (transition_to Broker_Stopping None ?lc) = (r, lc1)" by fastforce
    from stop [OF st] have "lc_runtime (run_next opts aw lc) = None"
      by (auto simp: run_next_def q Dispose_Op disposeCore_def Let_def st fail_with_def release_ownership_def)
    then show ?thesis by simp
  qed
qed

lemma clean_reached_healthy: "clean_reached opts lc \<Longrightarrow> healthy lc"
proof (induction rule: clean_reached.induct)
  case (Initially ow lc)
  then show ?case by (auto simp: new_lifecycle_def split: if_splits)
next
  case (Operation lc aw)
  then have "lc_ok opts lc" using reached_settled [OF clean_reached_reached] by (simp add: settled_def)
  with Operation show ?case by (blast intro: run_next_clean)
qed simp

section \<open>Properties\<close>

fun is_created :: "runtime_event \<Rightarrow> bool" where
  "is_created (Created n g) = True" | "is_created _ = False"

fun is_stopped :: "runtime_event \<Rightarrow> bool" where
  "is_stopped (Stopped n) = True" | "is_stopped _ = False"

definition in_use :: "runtime_event list \<Rightarrow> int" where
  "in_use es = int (length (filter is_created es)) - int (length (filter is_stopped es))"

text \<open>The call of \<open>start\<close> was made by the owner of the runtime's generation, before any \<open>dispose\<close>.\<close>

fun rightful :: "runtime_event \<Rightarrow> bool" where
  "rightful (Started n g ow disposing ok) \<longleftrightarrow>
     ow_isOwner ow \<and> ow_currentGeneration ow = Some g \<and> \<not> disposing"
| "rightful _ = True"

lemma in_use_snoc: "in_use (es @ [e]) = in_use es + (if is_created e then 1 else 0) - (if is_stopped e then 1 else 0)"
  by (simp add: in_use_def)

lemma replay_step_facts: "replay_step e h = Some h' \<Longrightarrow> rightful e
   \<and> (case h' of Free \<Rightarrow> 0 | _ \<Rightarrow> 1) = (case h of Free \<Rightarrow> 0 | _ \<Rightarrow> 1) + (if is_created e then 1 else 0 :: int)
       - (if is_stopped e then 1 else 0)"
  by (cases "(e, h)" rule: replay_step.cases) (auto split: if_splits)

lemma replay_facts: "replay es = Some h \<Longrightarrow> list_all rightful es \<and> in_use es = (case h of Free \<Rightarrow> 0 | _ \<Rightarrow> 1)"
proof (induction es arbitrary: h rule: rev_induct)
  case (snoc e es)
  then obtain h0 where h0: "replay es = Some h0" "replay_step e h0 = Some h" by (auto simp: Option.bind_eq_Some_conv)
  from snoc.IH [OF h0(1)] replay_step_facts [OF h0(2)] show ?case by (simp add: in_use_snoc)
qed (simp add: in_use_def)

lemma replay_prefix: "replay es = Some h \<Longrightarrow> \<exists>h'. replay (take k es) = Some h'"
proof (induction es arbitrary: h rule: rev_induct)
  case (snoc e es)
  then obtain h0 where h0: "replay es = Some h0" by (auto simp: Option.bind_eq_Some_conv)
  with snoc show ?case by (cases "k \<le> length es") auto
qed simp

lemma in_use_prefix: "replay es = Some h \<Longrightarrow> in_use (take k es) \<in> {0, 1}"
  using replay_prefix [of es h k] replay_facts [of "take k es"] by (auto split: holder.splits)

definition sample_owner :: ownership where
  "sample_owner = \<lparr>ow_isOwner = True, ow_currentGeneration = Some ''g'', sn_owner = True,
     sn_generation = Some ''g'', sn_holder = Some ''w'', sn_takeoverBlocked = False\<rparr>"

definition smooth :: awaits where
  "smooth = \<lparr>aw_stop = ([], True), aw_contend = ([], Some True), aw_factory = ([], True), aw_start = ([], True),
     aw_cleanup = ([], True), aw_unsubscribe = True, aw_release = ([], True)\<rparr>"

definition sample_new :: lifecycle where
  "sample_new = \<lparr>lc_ownership = sample_owner, lc_disposing = False, lc_disposeRequested = False, lc_subscribed = False,
        lc_queue = [], lc_retryAttempt = 0, lc_runtime = None, lc_runtimeGeneration = None,
        lc_startRequested = False, lc_timer = None,
        lc_status = createStatus sample_owner None Broker_Contending None, lc_runtimes = 0, lc_log = []\<rparr>"

lemma sample_new_reached: "lifecycle_reached default_options sample_new"
  by (rule lifecycle_reached.Initially)
    (simp add: new_lifecycle_def default_options_def validateDelay_def maxTimerDelayMs_def sample_new_def)

lemma reached_external: "lifecycle_reached opts lc \<Longrightarrow> lifecycle_reached opts (external e lc)"
  by (rule lifecycle_reached.Step [OF _ lifecycle_step.Outside])

lemma reached_next: "lifecycle_reached opts lc \<Longrightarrow> lifecycle_reached opts (run_next opts aw lc)"
  by (cases "lc_queue lc = []") (simp add: run_next_def, rule lifecycle_reached.Step [OF _ lifecycle_step.Operation])

lemmas lifecycle_eval = run_next_def enqueue_def start_lifecycle_def dispose_lifecycle_def startCore_def
  startRuntime_def make_runtime_def stopRuntime_def log_event_def meanwhile_def bindS_def liftS_def after_start_def
  isCurrentOwner_def transition_to_def fail_with_def scheduleRetry_def schedule_def Let_def
  runScheduledContention_def disposeCore_def release_ownership_def contend_later_def createStatus_def
  sample_new_def sample_owner_def smooth_def

definition sample_running :: lifecycle where
  "sample_running = run_next default_options smooth (external Ext_Start sample_new)"

lemma sample_running_reached: "lifecycle_reached default_options sample_running"
  unfolding sample_running_def by (intro reached_next reached_external sample_new_reached)

lemma sample_running_facts:
  "lc_runtime sample_running = Some 0" "st_state (lc_status sample_running) = Broker_Running"
  "lc_queue sample_running = []" "lc_disposeRequested sample_running = False" "lc_startRequested sample_running = True"
  "lc_timer sample_running = None" "lc_subscribed sample_running = True" "lc_disposing sample_running = False"
  "lc_log sample_running = [Created 0 ''g'', Started 0 ''g'' sample_owner False True]"
  by (simp_all add: sample_running_def lifecycle_eval)

text \<open>
  C13. There is at most one broker runtime. In every reached state of the lifecycle, with the outside
  acting between any two awaits: at each point of its history at most one runtime had been made and
  not yet stopped, now exactly if one is held; and whenever a runtime was started, this window was the
  owner of that runtime's generation and \<open>dispose\<close> had not been called.
\<close>

theorem at_most_one_rightful_runtime:
  assumes "lifecycle_reached opts lc"
  shows "in_use (take k (lc_log lc)) \<in> {0, 1} \<and> (in_use (lc_log lc) = 1 \<longleftrightarrow> lc_runtime lc \<noteq> None)
    \<and> list_all rightful (lc_log lc)"
proof -
  have "ledger_ok lc" using reached_settled [OF assms] by (simp add: settled_def lc_ok_def)
  then obtain h where h: "replay (lc_log lc) = Some h" "holds lc h" by (auto simp: ledger_ok_def split: option.splits)
  with in_use_prefix [OF h(1)] replay_facts [OF h(1)] show ?thesis by (cases h) (auto simp: holds_def)
qed

lemma one_runtime_witness: "in_use (take 1 (lc_log sample_running)) \<in> {0, 1} \<and> list_all rightful (lc_log sample_running)"
  using at_most_one_rightful_runtime [OF sample_running_reached] by blast

text \<open>
  C17. A started broker is never idle without a runtime. Once it was started and while it is not
  disposed of, a reached state with no queued operation has its timer armed, with a delay that is
  the contention interval or the back-off of one of at most 31 attempts, positive and within the
  range of timers, or it holds a runtime and reports it as running. If every disposal of a runtime
  in its history succeeded, the \<open>start\<close> of that runtime was the last thing that happened at the
  runtimes, and it succeeded. (Where a disposal failed, the runtime reported as running may be one
  that never started, and then nothing is left to happen: C37.)
\<close>

theorem started_broker_retries_or_holds_runtime:
  assumes "lifecycle_reached opts lc"
    and "lc_startRequested lc" and "\<not> lc_disposeRequested lc" and "lc_queue lc = []"
  shows "(\<exists>d. lc_timer lc = Some d \<and> 0 < d \<and> d \<le> 2147483647
         \<and> (d = op_contentionIntervalMs opts \<or> (\<exists>k \<in> {1..31}. d = retry_delay opts k)))
    \<or> (\<exists>n. lc_runtime lc = Some n \<and> st_state (lc_status lc) = Broker_Running
         \<and> (clean_reached opts lc \<longrightarrow> (\<exists>es g ow. lc_log lc = es @ [Started n g ow False True])))"
proof -
  have r: "options_ok opts" "lc_ok opts lc" "awake lc" using reached_settled [OF assms(1)] by (simp_all add: settled_def)
  have "0 < d \<and> d \<le> 2147483647" if "d \<in> delays opts" for d
    using that r(1) by (auto simp: delays_def options_ok_def validateDelay_def maxTimerDelayMs_def retry_delay_def)
  moreover have "\<exists>es g ow. lc_log lc = es @ [Started n g ow False True]"
    if "clean_reached opts lc" "lc_runtime lc = Some n" for n
    using clean_reached_healthy [OF that(1)] that(2) by (simp add: healthy_def)
  ultimately show ?thesis using r assms(2-4) by (auto simp: awake_def lc_ok_def delays_def)
qed

lemma sample_running_clean: "clean_reached default_options sample_running"
proof -
  have "clean_reached default_options sample_new"
    by (rule clean_reached.Initially)
      (simp add: new_lifecycle_def default_options_def validateDelay_def maxTimerDelayMs_def sample_new_def)
  then show ?thesis
    unfolding sample_running_def
    by (intro clean_reached.Operation clean_reached.Outside)
      (simp_all add: clean_def smooth_def start_lifecycle_def enqueue_def sample_new_def)
qed

lemma retries_or_holds_witness:
  "st_state (lc_status sample_running) = Broker_Running
   \<and> (\<exists>es g ow. lc_log sample_running = es @ [Started 0 g ow False True])"
  using started_broker_retries_or_holds_runtime [OF sample_running_reached] sample_running_facts(1,3-6) sample_running_clean
  by simp

lemma stopRuntime_log: "stopRuntime aw lc = (r, lc') \<Longrightarrow> \<exists>es. lc_log lc' = lc_log lc @ es \<and> list_all is_stopped es"
  by (auto simp: stopRuntime_def Let_def log_event_def split: option.splits if_splits)

lemma release_log: "lc_log (release_ownership aw lc) = lc_log lc"
  by (simp add: release_ownership_def Let_def fail_with_def)

lemma disposing_step:
  assumes "lifecycle_step opts lc lc'" "lc_disposeRequested lc" "lc_ok opts lc"
  shows "(\<exists>es. lc_log lc' = lc_log lc @ es \<and> list_all is_stopped es) \<and> lc_disposeRequested lc'
    \<and> (st_state (lc_status lc) = Broker_Disposed \<longrightarrow> lc_status lc' = lc_status lc)"
  using assms(1)
proof cases
  case (Outside e)
  with assms(2) show ?thesis by (simp add: external_frame)
next
  case (Operation aw)
  then obtain op rest where q: "lc_queue lc = op # rest" by (cases "lc_queue lc") auto
  show ?thesis
  proof (cases "is_dispose op")
    case False
    with q assms(2) Operation show ?thesis
      by (cases op) (auto simp: run_next_def startCore_def handleOwnershipLoss_def runScheduledContention_def is_dispose_def)
  next
    case True
    let ?lc = "lc\<lparr>lc_queue := rest\<rparr>"
    from True obtain f where f: "op = Dispose_Op f" by (auto simp: is_dispose_def)
    note p = pop_ok(1,4) [OF assms(3) q] 
    obtain r lc2 where s: "(if lc_runtime lc \<noteq> None
        then stopRuntime (aw_stop aw) (transition_to Broker_Stopping None ?lc)
        else (Inr (), transition_to Broker_Stopping None ?lc)) = (r, lc2)" by fastforce
    then have "\<exists>es. lc_log lc2 = lc_log lc @ es \<and> list_all is_stopped es"
      using stopRuntime_log [where aw = "aw_stop aw"] by (cases "lc_runtime lc = None") (force, force)
    moreover have "lc_log lc' = lc_log lc2"
      using Operation s f q by (simp add: run_next_def disposeCore_def Let_def release_log fail_with_def)
    moreover have "lc_disposeRequested lc'"
      using disposeCore_settled [OF p(1) p(2) [OF True], of f aw] Operation f q
        assms(2) s stopRuntime_ok(5) [OF transition_ok [OF p(1)], of Broker_Stopping "aw_stop aw" None]
      by (auto simp: run_next_def disposeCore_def Let_def release_ownership_def fail_with_def split: if_splits)
    moreover have "st_state (lc_status lc) \<noteq> Broker_Disposed"
      using assms(3) q True by (auto simp: lc_ok_def)
    ultimately show ?thesis by simp
  qed
qed

text \<open>
  C36. Disposal is final. From the call of \<open>dispose\<close> on, no step makes or starts a runtime: all it does
  at the runtimes is to stop one. A disposed broker holds no runtime, no timer and no subscription,
  and no step changes its status.
\<close>

theorem disposal_is_final:
  assumes "lifecycle_reached opts lc" and "lc_disposeRequested lc" and "lifecycle_step opts lc lc'"
  shows "lc_disposeRequested lc' \<and> lc_timer lc' = None
    \<and> (\<exists>es. lc_log lc' = lc_log lc @ es \<and> list_all is_stopped es)
    \<and> (st_state (lc_status lc) = Broker_Disposed \<longrightarrow>
        lc_runtime lc = None \<and> \<not> lc_subscribed lc \<and> lc_status lc' = lc_status lc)"
proof -
  have ok: "lc_ok opts lc" using reached_settled [OF assms(1)] by (simp add: settled_def)
  have "lc_ok opts lc'"
    using reached_settled [OF lifecycle_reached.Step [OF assms(1,3)]] by (simp add: settled_def)
  with disposing_step [OF assms(3,2) ok] ok show ?thesis by (cases "lc_timer lc'") (auto simp: lc_ok_def)
qed

text \<open>
  \<open>dispose\<close> ends in one of two ways. Its operation leaves the broker disposed exactly if the timer
  could be cancelled, the runtime, if there was one, could be stopped, the subscription could be
  removed and the ownership released; otherwise the status is an error and \<open>dispose\<close> can be called again.
\<close>

theorem dispose_succeeds_or_can_be_retried:
  assumes "lc_queue lc = Dispose_Op failure # rest"
  shows "(st_state (lc_status (run_next opts aw lc)) = Broker_Disposed \<longleftrightarrow>
      \<not> failure \<and> (lc_runtime lc = None \<or> snd (aw_stop aw)) \<and> (aw_unsubscribe aw \<or> \<not> lc_subscribed lc)
        \<and> snd (aw_release aw))
    \<and> (st_state (lc_status (run_next opts aw lc)) \<noteq> Broker_Disposed \<longrightarrow>
        st_state (lc_status (run_next opts aw lc)) = Broker_Error \<and> \<not> lc_disposing (run_next opts aw lc))"
  using assms
  by (auto simp: run_next_def disposeCore_def Let_def stopRuntime_def release_ownership_def fail_with_def log_event_def
      split: option.splits)


definition sample_disposing :: lifecycle where
  "sample_disposing = external (Ext_Dispose True) sample_running"

lemma sample_disposing_facts: "lc_queue sample_disposing = [Dispose_Op False]" "lc_disposeRequested sample_disposing"
  by (simp_all add: sample_disposing_def dispose_lifecycle_def enqueue_def sample_running_facts)

lemma disposal_final_witness:
  "\<exists>es. lc_log (run_next default_options smooth sample_disposing) = lc_log sample_disposing @ es \<and> list_all is_stopped es"
proof -
  have "lifecycle_reached default_options sample_disposing"
    unfolding sample_disposing_def by (rule reached_external [OF sample_running_reached])
  moreover have "lifecycle_step default_options sample_disposing (run_next default_options smooth sample_disposing)"
    by (rule lifecycle_step.Operation) (simp add: sample_disposing_facts)
  ultimately show ?thesis using disposal_is_final sample_disposing_facts(2) by blast
qed

lemma cleanup_kept:
  assumes "bindS (stopRuntime aw) (\<lambda>_. liftS r) lc = (r', lc')" "lc_runtime lc' = Some n"
  shows "lc_runtime lc = Some n \<and> lc_runtimeGeneration lc' = lc_runtimeGeneration lc \<and> lc_log lc' = lc_log lc"
  using assms
  by (auto simp: bindS_def liftS_def stopRuntime_def log_event_def Let_def split: if_splits option.splits)

lemma startRuntime_kept:
  assumes "startRuntime aw g lc = (Inl e, lc')" "lc_runtime lc = None" "lc_runtime lc' = Some n"
    and "\<not> snd (aw_start aw)"
  shows "lc_runtimeGeneration lc' = Some g \<and> (\<exists>es. lc_log lc' = lc_log lc @ es \<and> Created n g \<in> set es
    \<and> (\<forall>h ow d. Started n h ow d True \<notin> set es))"
proof -
  define lc1 where "lc1 = meanwhile (fst (aw_factory aw)) (transition_to Broker_Starting None lc)"
  define lc2 where "lc2 = make_runtime g lc1"
  let ?e = "Started (lc_runtimes lc1) g (lc_ownership lc2) (lc_disposeRequested lc2) (snd (aw_start aw))"
  define lc3 where "lc3 = meanwhile (fst (aw_start aw)) (log_event ?e lc2)"
  have "lc_runtime lc1 = None" using assms(2) by (simp add: lc1_def)
  then have "bindS (stopRuntime (aw_cleanup aw)) (\<lambda>_. liftS (Inr False)) lc2 = (Inl e, lc')
      \<or> bindS (stopRuntime (aw_cleanup aw)) (\<lambda>_. liftS (Inl Plain_Error :: (mesh_error, bool) result)) lc3 = (Inl e, lc')"
    using assms(1) assms(2,3) unfolding startRuntime_def Let_def lc1_def [symmetric] lc2_def [symmetric] lc3_def [symmetric]
    by (auto simp: assms(4) split: if_splits)
  then have kept: "(lc_runtime lc2 = Some n \<and> lc_runtimeGeneration lc' = lc_runtimeGeneration lc2 \<and> lc_log lc' = lc_log lc2)
      \<or> (lc_runtime lc3 = Some n \<and> lc_runtimeGeneration lc' = lc_runtimeGeneration lc3 \<and> lc_log lc' = lc_log lc3)"
    using cleanup_kept assms(3) by blast
  have lc2: "lc_runtime lc2 = Some (lc_runtimes lc1)" "lc_runtimeGeneration lc2 = Some g"
    "lc_log lc2 = lc_log lc @ [Created (lc_runtimes lc1) g]"
    by (simp_all add: lc2_def make_runtime_def log_event_def) (simp add: lc1_def)
  have lc3: "lc_runtime lc3 = Some (lc_runtimes lc1)" "lc_runtimeGeneration lc3 = Some g"
    "lc_log lc3 = lc_log lc2 @ [?e]"
    by (simp_all add: lc3_def) (simp_all add: lc2 log_event_def)
  from kept assms(4) show ?thesis by (elim disjE) (simp_all add: lc2 lc3)
qed

text \<open>A start that fails and cannot be cleaned up.\<close>

definition failing :: awaits where
  "failing = smooth\<lparr>aw_start := ([], False), aw_cleanup := ([], False)\<rparr>"

definition sample_starting :: lifecycle where
  "sample_starting = (external Ext_Start sample_new)\<lparr>lc_queue := [], lc_subscribed := True\<rparr>"

definition sample_kept :: lifecycle where
  "sample_kept = snd (startRuntime failing ''g'' sample_starting)"

definition sample_retrying :: lifecycle where
  "sample_retrying = meanwhile [Ext_Timer] (after_start default_options (Inl Plain_Error, sample_kept))"

lemmas kept_eval = failing_def sample_starting_def sample_kept_def sample_retrying_def lifecycle_eval

lemma sample_kept_facts:
  "startRuntime failing ''g'' sample_starting = (Inl Plain_Error, sample_kept)"
  "lc_runtime sample_starting = None" "\<not> snd (aw_start failing)" "lc_runtime sample_kept = Some 0"
  "lc_log sample_kept = [Created 0 ''g'', Started 0 ''g'' sample_owner False False]"
  by (simp_all add: kept_eval)

lemma sample_retrying_facts:
  "isCurrentOwner (Some ''g'') sample_retrying" "\<not> lc_disposeRequested sample_retrying"
  "lc_queue sample_retrying = [Contention_Op]" "lc_timer sample_retrying = None"
  "lc_log sample_retrying = lc_log sample_kept"
  by (simp_all add: kept_eval)

lemma sample_retrying_reached: "lifecycle_reached default_options sample_retrying"
proof -
  have "sample_retrying = external Ext_Timer (run_next default_options failing (external Ext_Start sample_new))"
    by (simp add: kept_eval)
  then show ?thesis by (rule ssubst) (intro reached_next reached_external sample_new_reached)
qed

text \<open>
  C37. A runtime that never started can be reported as running. Let an attempt to start a runtime
  end in an error where \<open>start\<close> failed or was never called and the clean-up failed too, so that the
  class keeps the runtime. If, whatever else
  happened outside in between, the contention of the retry then runs while the window is still the
  owner of that runtime's generation and not disposed of, it reports the runtime as running,
  although no \<open>start\<close> of it succeeded, and it arms no timer, so nothing tries again by itself.
\<close>

theorem failed_runtime_reported_running:
  assumes "lc_runtime lc = None" and "startRuntime aw g lc = (Inl e, lc1)" and "\<not> snd (aw_start aw)"
    and "lc_runtime lc1 = Some n"
    and "lc2 = meanwhile outside_events (after_start opts (Inl e, lc1))"
    and "lc_queue lc2 = Contention_Op # rest"
    and "isCurrentOwner (Some g) lc2" and "\<not> lc_disposeRequested lc2"
  shows "st_state (lc_status (run_next opts aw' lc2)) = Broker_Running
    \<and> lc_runtime (run_next opts aw' lc2) = Some n
    \<and> (\<exists>es. lc_log (run_next opts aw' lc2) = lc_log lc @ es \<and> Created n g \<in> set es
         \<and> (\<forall>h ow d. Started n h ow d True \<notin> set es))
    \<and> lc_timer (run_next opts aw' lc2) = lc_timer lc2 \<and> lc_queue (run_next opts aw' lc2) = rest"
proof -
  note kept = startRuntime_kept [OF assms(2,1,4,3)]
  have lc2: "lc_runtime lc2 = Some n" "lc_runtimeGeneration lc2 = Some g" "lc_log lc2 = lc_log lc1"
    using kept assms(4)
    by (simp_all add: assms(5) after_start_def scheduleRetry_def schedule_def fail_with_def Let_def)
  have "run_next opts aw' lc2
      = transition_to Broker_Running None (lc2\<lparr>lc_queue := rest, lc_retryAttempt := 0\<rparr>)"
    using assms(6-8) lc2
    by (simp add: run_next_def runScheduledContention_def Let_def isCurrentOwner_def)
  with lc2 kept show ?thesis by simp
qed

lemma failed_runtime_witness:
  "\<exists>lc. lifecycle_reached default_options lc \<and> st_state (lc_status lc) = Broker_Running
     \<and> lc_runtime lc = Some 0 \<and> (\<forall>h ow d. Started 0 h ow d True \<notin> set (lc_log lc))
     \<and> lc_queue lc = [] \<and> lc_timer lc = None"
proof -
  have "lc_log sample_starting = []" by (simp add: kept_eval)
  moreover have "lifecycle_reached default_options (run_next default_options smooth sample_retrying)"
    by (rule reached_next [OF sample_retrying_reached])
  ultimately show ?thesis
    using failed_runtime_reported_running [OF sample_kept_facts(2,1,3,4) sample_retrying_def
        sample_retrying_facts(3,1,2), of smooth] sample_retrying_facts(4) by auto
qed

end
