(* ===== verification/Task_Routes.thy ===== *)
theory Task_Routes
  imports Task_Requests Mesh_State Node_Protocol
begin

text \<open>
  The authoritative catalogue of task routes (\<open>src/broker/TaskRouteCatalog.ts\<close>): which task id
  is bound to which request, target and authenticated source, in memory and in the state store.
  A call reads the stored catalogue, decides, writes it back and updates the copy in memory; the
  promise queue serialises the calls, so a history is a list of calls. The state store's answer to
  the one update a call makes is part of the call: done, refused, or stored and then refused,
  which is what the fenced store answers when its check after the write fails, because the
  generation was lost or only because the renewal of the owner file failed once; nothing is
  assumed of the answers that follow. The clock
  is a number of milliseconds given to each call; the digest and \<open>localeCompare\<close> are components
  of the configuration.
\<close>

section \<open>Routes\<close>

definition TASK_ROUTE_CATALOG_LIMIT :: nat where "TASK_ROUTE_CATALOG_LIMIT = 1000"

datatype route_state = Route_Status task_status | Ambiguous

datatype route_kind = Local_Route | Remote_Route

record route_record =
  tk_taskId :: string
  tk_delegationRequestId :: string
  tk_continueFromTaskId :: "string option"
  tk_requestHash :: string
  tk_target :: task_target
  tk_routeKind :: route_kind
  tk_peerId :: "string option"
  tk_sourceNodeId :: "string option"
  tk_sourcePeerId :: "string option"
  tk_sourceWorkspaceIdentity :: "string option"
  tk_createdAt :: string
  tk_state :: route_state
  tk_terminalAt :: "string option"

fun isTerminal :: "route_state \<Rightarrow> bool" where
  "isTerminal (Route_Status st) = (st \<in> set TERMINAL_TASK_STATUSES)"
| "isTerminal Ambiguous = False"

definition lower_route :: "route_record \<Rightarrow> route_record" where
  "lower_route r =
     r\<lparr>tk_taskId := js_lower (tk_taskId r),
       tk_delegationRequestId := js_lower (tk_delegationRequestId r),
       tk_continueFromTaskId := map_option js_lower (tk_continueFromTaskId r),
       tk_target := lower_task_target (tk_target r),
       tk_peerId := map_option js_lower (tk_peerId r),
       tk_sourceNodeId := map_option js_lower (tk_sourceNodeId r),
       tk_sourcePeerId := map_option js_lower (tk_sourcePeerId r)\<rparr>"

definition taskRouteRecordSchema :: "formats \<Rightarrow> route_record \<Rightarrow> route_record option" where
  "taskRouteRecordSchema fmt r =
     (if fmt_uuid fmt (tk_taskId r) \<and> fmt_uuid fmt (tk_delegationRequestId r)
         \<and> opt_all (fmt_uuid fmt) (tk_continueFromTaskId r)
         \<and> hash_format (tk_requestHash r) \<and> taskTargetSchema fmt (tk_target r)
         \<and> opt_all (fmt_uuid fmt) (tk_peerId r) \<and> opt_all (fmt_uuid fmt) (tk_sourceNodeId r)
         \<and> opt_all (fmt_uuid fmt) (tk_sourcePeerId r)
         \<and> opt_all workspaceIdentitySchema (tk_sourceWorkspaceIdentity r)
         \<and> fmt_datetime fmt (tk_createdAt r) \<and> opt_all (fmt_datetime fmt) (tk_terminalAt r)
         \<and> \<not> (tk_routeKind r = Remote_Route
              \<and> (tk_peerId r = None \<or> tk_sourceNodeId r = None \<or> tk_sourcePeerId r \<noteq> None))
         \<and> \<not> (tk_routeKind r = Local_Route
              \<and> (tk_peerId r \<noteq> None \<or> (tk_sourceNodeId r = None) = (tk_sourcePeerId r = None)))
         \<and> isTerminal (tk_state r) = (tk_terminalAt r \<noteq> None)
      then Some (lower_route r) else None)"

definition delegation_key :: "route_record \<Rightarrow> string" where
  "delegation_key r =
     (case tk_sourceWorkspaceIdentity r of None \<Rightarrow> ''legacy'' | Some w \<Rightarrow> w)
     @ [CHR '':''] @ tk_delegationRequestId r"

definition taskRouteCatalogSchema :: "formats \<Rightarrow> route_record list \<Rightarrow> route_record list option" where
  "taskRouteCatalogSchema fmt rs =
     (if length rs \<le> TASK_ROUTE_CATALOG_LIMIT
      then (case parse_all (taskRouteRecordSchema fmt) rs of
              None \<Rightarrow> None
            | Some routes \<Rightarrow>
                if distinct (map tk_taskId routes) \<and> distinct (map delegation_key routes)
                then Some routes else None)
      else None)"

section \<open>The catalogue\<close>

text \<open>The stored value, when there is one: a catalogue's routes, or anything else.\<close>

datatype routes_value = Foreign_Routes | Routes_Value "route_record list"

record attempt_group =
  ag_route :: route_record
  ag_attempts :: "nat set"
  ag_releasable :: bool
  ag_protected :: bool

record route_catalog =
  tc_stored :: "routes_value option"
  tc_routes :: "(string, route_record) jsmap"
  tc_groups :: "(string, attempt_group) jsmap"
  tc_nextAttemptId :: nat

record reservation =
  rv_route :: route_record
  rv_attemptId :: "nat option"

record route_source =
  so_routeKind :: route_kind
  so_peerId :: "string option"
  so_sourceNodeId :: "string option"
  so_sourcePeerId :: "string option"

record route_config =
  tq_formats :: formats
  tq_digest :: "string \<Rightarrow> string"
  tq_localeCompare :: "string \<Rightarrow> string \<Rightarrow> int"

type_synonym 'a route_op = "(route_catalog, 'a) stateful"

definition readCatalog :: "formats \<Rightarrow> route_catalog \<Rightarrow> (mesh_error, route_record list) result" where
  "readCatalog fmt tc =
     (case tc_stored tc of
        None \<Rightarrow> Inr []
      | Some Foreign_Routes \<Rightarrow> Inl Type_Error
      | Some (Routes_Value rs) \<Rightarrow>
          (case taskRouteCatalogSchema fmt rs of None \<Rightarrow> Inl Type_Error | Some routes \<Rightarrow> Inr routes))"

definition writeCatalog :: "formats \<Rightarrow> update_answer \<Rightarrow> route_record list \<Rightarrow> unit route_op" where
  "writeCatalog fmt answer routes tc =
     (case taskRouteCatalogSchema fmt routes of
        None \<Rightarrow> (Inl Zod_Error, tc)
      | Some catalog \<Rightarrow>
          (case answer of
             Update_Done \<Rightarrow> (Inr (), tc\<lparr>tc_stored := Some (Routes_Value catalog)\<rparr>)
           | Update_Refused \<Rightarrow> (Inl Plain_Error, tc)
           | Update_Then_Refused \<Rightarrow>
               (Inl Plain_Error, tc\<lparr>tc_stored := Some (Routes_Value catalog)\<rparr>)))"

text \<open>The constructor.\<close>

definition new_route_catalog ::
  "formats \<Rightarrow> routes_value option \<Rightarrow> (mesh_error, route_catalog) result" where
  "new_route_catalog fmt stored =
     (let tc = \<lparr>tc_stored = stored, tc_routes = [], tc_groups = [], tc_nextAttemptId = 1\<rparr> in
      bindR (readCatalog fmt tc) (\<lambda>routes.
        Inr (tc\<lparr>tc_routes := fold (\<lambda>r. js_set (tk_taskId r) r) routes []\<rparr>)))"

section \<open>Helpers\<close>

definition sameTarget :: "task_target \<Rightarrow> task_target \<Rightarrow> bool" where
  "sameTarget l r \<longleftrightarrow>
     tt_deviceId l = tt_deviceId r \<and> tt_nodeId l = tt_nodeId r
     \<and> tt_nodeInstanceId l = tt_nodeInstanceId r \<and> tt_workspaceId l = tt_workspaceId r"

definition sameRouteRecord :: "route_record \<Rightarrow> route_record \<Rightarrow> bool" where
  "sameRouteRecord l r \<longleftrightarrow>
     tk_taskId l = tk_taskId r \<and> tk_delegationRequestId l = tk_delegationRequestId r
     \<and> tk_requestHash l = tk_requestHash r \<and> tk_routeKind l = tk_routeKind r
     \<and> tk_peerId l = tk_peerId r \<and> tk_sourceNodeId l = tk_sourceNodeId r
     \<and> tk_sourcePeerId l = tk_sourcePeerId r
     \<and> tk_sourceWorkspaceIdentity l = tk_sourceWorkspaceIdentity r
     \<and> tk_createdAt l = tk_createdAt r \<and> tk_state l = tk_state r
     \<and> tk_terminalAt l = tk_terminalAt r \<and> sameTarget (tk_target l) (tk_target r)"

definition localRoute ::
  "formats \<Rightarrow> string option \<Rightarrow> string option \<Rightarrow> (mesh_error, route_source) result" where
  "localRoute fmt nodeId peerId =
     (if \<not> opt_all (fmt_uuid fmt) nodeId \<or> \<not> opt_all (fmt_uuid fmt) peerId then Inl Zod_Error
      else if (nodeId = None) = (peerId = None) then Inl Type_Error
      else Inr \<lparr>so_routeKind = Local_Route, so_peerId = None,
                so_sourceNodeId = map_option js_lower nodeId,
                so_sourcePeerId = map_option js_lower peerId\<rparr>)"

definition remoteRoute ::
  "formats \<Rightarrow> string \<Rightarrow> string \<Rightarrow> (mesh_error, route_source) result" where
  "remoteRoute fmt peerId sourceNodeId =
     (case (uuidSchema fmt peerId, uuidSchema fmt sourceNodeId) of
        (Some peer, Some node) \<Rightarrow>
          Inr \<lparr>so_routeKind = Remote_Route, so_peerId = Some peer, so_sourceNodeId = Some node,
               so_sourcePeerId = None\<rparr>
      | _ \<Rightarrow> Inl Zod_Error)"

fun route_kind_name :: "route_kind \<Rightarrow> string" where
  "route_kind_name Local_Route = ''local''"
| "route_kind_name Remote_Route = ''remote''"

definition route_fields :: "routed_start \<Rightarrow> route_source \<Rightarrow> string list" where
  "route_fields p route =
     [''copilot-agent-mesh/task-route/v1'', route_kind_name (so_routeKind route),
      or_empty (so_peerId route), or_empty (so_sourceNodeId route),
      or_empty (so_sourcePeerId route), or_empty (rs_sourceWorkspaceIdentity p),
      rs_delegationRequestId p, rs_taskId p, tt_deviceId (rs_target p), tt_nodeId (rs_target p),
      tt_nodeInstanceId (rs_target p), tt_workspaceId (rs_target p), or_empty (rs_sourceNodeId p),
      (case rs_timeoutMinutes p of None \<Rightarrow> [] | Some n \<Rightarrow> show_nat n), rs_title p, rs_prompt p,
      show_nat (length (rs_acceptanceCriteria p))]
     @ rs_acceptanceCriteria p @ [rs_workerDeadline p]
     @ (case rs_continueFromTaskId p of None \<Rightarrow> [] | Some c \<Rightarrow> [''continueFromTaskId'', c])"

definition canonicalRouteRequestHash :: "route_config \<Rightarrow> routed_start \<Rightarrow> route_source \<Rightarrow> string" where
  "canonicalRouteRequestHash cfg p route = tq_digest cfg (encode_fields (route_fields p route))"

definition terminal_compare :: "route_config \<Rightarrow> route_record \<Rightarrow> route_record \<Rightarrow> int" where
  "terminal_compare cfg l r =
     (let a = tq_localeCompare cfg (or_empty (tk_terminalAt l)) (or_empty (tk_terminalAt r));
          b = tq_localeCompare cfg (tk_createdAt l) (tk_createdAt r)
      in if a \<noteq> 0 then a else if b \<noteq> 0 then b
         else tq_localeCompare cfg (tk_taskId l) (tk_taskId r))"

definition makeCapacity ::
  "route_config \<Rightarrow> route_record list \<Rightarrow> (mesh_error, route_record list) result" where
  "makeCapacity cfg routes =
     (if length routes < TASK_ROUTE_CATALOG_LIMIT then Inr routes
      else case js_sort (terminal_compare cfg)
                  (filter (\<lambda>r. tk_terminalAt r \<noteq> None \<and> isTerminal (tk_state r)) routes) of
             [] \<Rightarrow> Inl (mesh_fail RATE_LIMITED)
           | oldest # _ \<Rightarrow> Inr (filter (\<lambda>r. tk_taskId r \<noteq> tk_taskId oldest) routes))"

section \<open>Operations\<close>

definition find_by_request :: "routed_start \<Rightarrow> route_record list \<Rightarrow> route_record option" where
  "find_by_request p =
     find (\<lambda>r. tk_taskId r = rs_taskId p
               \<or> tk_delegationRequestId r = rs_delegationRequestId p
                  \<and> tk_sourceWorkspaceIdentity r = rs_sourceWorkspaceIdentity p)"

text \<open>The condition under which a route found for a request is bound to a different one.\<close>

definition bound_elsewhere :: "route_record \<Rightarrow> routed_start \<Rightarrow> route_source \<Rightarrow> string \<Rightarrow> bool" where
  "bound_elsewhere existing p route requestHash \<longleftrightarrow>
     tk_taskId existing \<noteq> rs_taskId p
     \<or> tk_delegationRequestId existing \<noteq> rs_delegationRequestId p
     \<or> tk_requestHash existing \<noteq> requestHash
     \<or> tk_routeKind existing \<noteq> so_routeKind route
     \<or> tk_peerId existing \<noteq> so_peerId route
     \<or> tk_sourceNodeId existing \<noteq> so_sourceNodeId route
     \<or> tk_sourcePeerId existing \<noteq> so_sourcePeerId route
     \<or> tk_sourceWorkspaceIdentity existing \<noteq> rs_sourceWorkspaceIdentity p
     \<or> \<not> sameTarget (tk_target existing) (rs_target p)"

definition assertContinuationRoute ::
  "route_catalog \<Rightarrow> routed_start \<Rightarrow> route_source \<Rightarrow> (mesh_error, unit) result" where
  "assertContinuationRoute tc p source =
     (case rs_continueFromTaskId p of
        None \<Rightarrow> Inr ()
      | Some previousId \<Rightarrow>
          (case js_get (tc_routes tc) previousId of
             None \<Rightarrow> Inl (mesh_fail TASK_NOT_FOUND)
           | Some previous \<Rightarrow>
               if tk_routeKind previous \<noteq> so_routeKind source
                  \<or> tk_peerId previous \<noteq> so_peerId source
                  \<or> tk_sourceNodeId previous \<noteq> so_sourceNodeId source
                  \<or> tk_sourcePeerId previous \<noteq> so_sourcePeerId source
                  \<or> tk_sourceWorkspaceIdentity previous \<noteq> rs_sourceWorkspaceIdentity p
               then Inl (mesh_fail TASK_NOT_FOUND)
               else if \<not> sameTarget (tk_target previous) (rs_target p)
               then Inl (mesh_fail TASK_RECOVERY_UNAVAILABLE) else Inr ()))"

definition assertCompatible ::
  "route_config \<Rightarrow> route_catalog \<Rightarrow> routed_start \<Rightarrow> route_source \<Rightarrow> (mesh_error, unit) result" where
  "assertCompatible cfg tc input route =
     (case routedTaskStartParamsSchema (tq_formats cfg) input of
        None \<Rightarrow> Inl Zod_Error
      | Some p \<Rightarrow>
          (case find_by_request p (js_values (tc_routes tc)) of
             Some existing \<Rightarrow>
               if bound_elsewhere existing p route (canonicalRouteRequestHash cfg p route)
               then Inl (mesh_fail IDEMPOTENCY_CONFLICT) else Inr ()
           | None \<Rightarrow> assertContinuationRoute tc p route))"

definition assertLocalCompatible ::
  "route_config \<Rightarrow> route_catalog \<Rightarrow> routed_start \<Rightarrow> string option \<Rightarrow> string option
     \<Rightarrow> (mesh_error, unit) result" where
  "assertLocalCompatible cfg tc input nodeId peerId =
     bindR (localRoute (tq_formats cfg) nodeId peerId) (assertCompatible cfg tc input)"

definition assertRemoteCompatible ::
  "route_config \<Rightarrow> route_catalog \<Rightarrow> routed_start \<Rightarrow> string \<Rightarrow> string \<Rightarrow> (mesh_error, unit) result" where
  "assertRemoteCompatible cfg tc input peerId sourceNodeId =
     bindR (remoteRoute (tq_formats cfg) peerId sourceNodeId) (assertCompatible cfg tc input)"

definition reservationResult :: "route_record \<Rightarrow> bool \<Rightarrow> bool \<Rightarrow> reservation route_op" where
  "reservationResult route created asAttempt tc =
     (if \<not> asAttempt then (Inr \<lparr>rv_route = route, rv_attemptId = None\<rparr>, tc)
      else
        let attemptId = tc_nextAttemptId tc;
            fresh = \<lparr>ag_route = route, ag_attempts = {}, ag_releasable = created,
                     ag_protected = \<not> created\<rparr>;
            grp = (case js_get (tc_groups tc) (tk_taskId route) of
                       None \<Rightarrow> fresh
                     | Some g \<Rightarrow> if sameRouteRecord (ag_route g) route then g else fresh)
        in (Inr \<lparr>rv_route = route, rv_attemptId = Some attemptId\<rparr>,
            tc\<lparr>tc_nextAttemptId := attemptId + 1,
               tc_groups := js_set (tk_taskId route)
                 (grp\<lparr>ag_attempts := insert attemptId (ag_attempts grp)\<rparr>) (tc_groups tc)\<rparr>))"

definition new_route ::
  "routed_start \<Rightarrow> route_source \<Rightarrow> string \<Rightarrow> int \<Rightarrow> route_record" where
  "new_route p route requestHash now =
     \<lparr>tk_taskId = rs_taskId p, tk_delegationRequestId = rs_delegationRequestId p,
      tk_continueFromTaskId = rs_continueFromTaskId p, tk_requestHash = requestHash,
      tk_target = rs_target p, tk_routeKind = so_routeKind route, tk_peerId = so_peerId route,
      tk_sourceNodeId = so_sourceNodeId route, tk_sourcePeerId = so_sourcePeerId route,
      tk_sourceWorkspaceIdentity = rs_sourceWorkspaceIdentity p,
      tk_createdAt = to_iso_string now, tk_state = Ambiguous, tk_terminalAt = None\<rparr>"

definition forget_evicted ::
  "route_record list \<Rightarrow> route_record list \<Rightarrow> (string, route_record) jsmap \<Rightarrow> (string, route_record) jsmap" where
  "forget_evicted before retained routes =
     fold (\<lambda>r m. if tk_taskId r \<in> tk_taskId ` set retained then m else js_delete (tk_taskId r) m)
       before routes"

definition reserveCore ::
  "route_config \<Rightarrow> int \<Rightarrow> update_answer \<Rightarrow> routed_start \<Rightarrow> route_source \<Rightarrow> bool \<Rightarrow> reservation route_op" where
  "reserveCore cfg now answer input route asAttempt tc =
     (case routedTaskStartParamsSchema (tq_formats cfg) input of
        None \<Rightarrow> (Inl Zod_Error, tc)
      | Some p \<Rightarrow>
          (case readCatalog (tq_formats cfg) tc of
             Inl e \<Rightarrow> (Inl e, tc)
           | Inr routes \<Rightarrow>
               let requestHash = canonicalRouteRequestHash cfg p route in
               (case find_by_request p routes of
                  Some existing \<Rightarrow>
                    if bound_elsewhere existing p route requestHash
                    then (Inl (mesh_fail IDEMPOTENCY_CONFLICT), tc)
                    else reservationResult existing False asAttempt
                           (tc\<lparr>tc_routes := js_set (tk_taskId existing) existing (tc_routes tc)\<rparr>)
                | None \<Rightarrow>
                    (case assertContinuationRoute tc p route of
                       Inl e \<Rightarrow> (Inl e, tc)
                     | Inr _ \<Rightarrow>
                         (case makeCapacity cfg routes of
                            Inl e \<Rightarrow> (Inl e, tc)
                          | Inr retained \<Rightarrow>
                              (case taskRouteRecordSchema (tq_formats cfg)
                                      (new_route p route requestHash now) of
                                 None \<Rightarrow> (Inl Zod_Error, tc)
                               | Some candidate \<Rightarrow>
                                   bindS (writeCatalog (tq_formats cfg) answer (retained @ [candidate])) (\<lambda>_ tc1.
                                     reservationResult candidate True asAttempt
                                       (tc1\<lparr>tc_routes := js_set (tk_taskId candidate) candidate
                                          (forget_evicted routes retained (tc_routes tc1))\<rparr>)) tc))))))"

definition reserve_local ::
  "route_config \<Rightarrow> int \<Rightarrow> update_answer \<Rightarrow> routed_start \<Rightarrow> string option \<Rightarrow> string option \<Rightarrow> bool
     \<Rightarrow> reservation route_op" where
  "reserve_local cfg now answer input nodeId peerId asAttempt =
     bindS (liftS (localRoute (tq_formats cfg) nodeId peerId))
       (\<lambda>route. reserveCore cfg now answer input route asAttempt)"

definition reserve_remote ::
  "route_config \<Rightarrow> int \<Rightarrow> update_answer \<Rightarrow> routed_start \<Rightarrow> string \<Rightarrow> string \<Rightarrow> bool
     \<Rightarrow> reservation route_op" where
  "reserve_remote cfg now answer input peerId sourceNodeId asAttempt =
     bindS (liftS (remoteRoute (tq_formats cfg) peerId sourceNodeId))
       (\<lambda>route. reserveCore cfg now answer input route asAttempt)"

definition requireAttemptGroup ::
  "reservation \<Rightarrow> route_catalog \<Rightarrow> (mesh_error, attempt_group \<times> nat) result" where
  "requireAttemptGroup rv tc =
     (case (js_get (tc_groups tc) (tk_taskId (rv_route rv)), rv_attemptId rv) of
        (Some grp, Some attemptId) \<Rightarrow>
          if attemptId \<notin> ag_attempts grp \<or> \<not> sameRouteRecord (ag_route grp) (rv_route rv)
          then Inl Type_Error else Inr (grp, attemptId)
      | _ \<Rightarrow> Inl Type_Error)"

definition retainAmbiguous :: "reservation \<Rightarrow> unit route_op" where
  "retainAmbiguous rv tc =
     (case requireAttemptGroup rv tc of
        Inl e \<Rightarrow> (Inl e, tc)
      | Inr (grp, attemptId) \<Rightarrow>
          let grp' = grp\<lparr>ag_protected := True, ag_attempts := ag_attempts grp - {attemptId}\<rparr>;
              id = tk_taskId (ag_route grp)
          in (Inr (), tc\<lparr>tc_groups :=
                (if ag_attempts grp' = {} then js_delete id (tc_groups tc)
                 else js_set id grp' (tc_groups tc))\<rparr>))"

definition releaseAmbiguous ::
  "formats \<Rightarrow> update_answer \<Rightarrow> reservation \<Rightarrow> bool \<Rightarrow> bool \<Rightarrow> bool route_op" where
  "releaseAmbiguous fmt answer rv taskPersisted dispatchAttempted tc =
     (if taskPersisted \<or> dispatchAttempted then (Inl Type_Error, tc)
      else case requireAttemptGroup rv tc of
        Inl e \<Rightarrow> (Inl e, tc)
      | Inr (grp, attemptId) \<Rightarrow>
          let grp' = grp\<lparr>ag_attempts := ag_attempts grp - {attemptId}\<rparr>;
              id = tk_taskId (ag_route grp)
          in
          if ag_attempts grp' \<noteq> {}
          then (Inr False, tc\<lparr>tc_groups := js_set id grp' (tc_groups tc)\<rparr>)
          else
            let tc1 = tc\<lparr>tc_groups := js_delete id (tc_groups tc)\<rparr> in
            if ag_protected grp' \<or> \<not> ag_releasable grp' then (Inr False, tc1)
            else case readCatalog fmt tc1 of
              Inl e \<Rightarrow> (Inl e, tc1)
            | Inr routes \<Rightarrow>
                (case find (\<lambda>r. tk_taskId r = id) routes of
                   None \<Rightarrow> (Inr False, tc1)
                 | Some current \<Rightarrow>
                     if tk_state current \<noteq> Ambiguous \<or> \<not> sameRouteRecord current (ag_route grp')
                     then (Inr False, tc1)
                     else bindS (writeCatalog fmt answer
                                   (filter (\<lambda>r. tk_taskId r \<noteq> tk_taskId current) routes)) (\<lambda>_ tc2.
                            (Inr True, tc2\<lparr>tc_routes := js_delete (tk_taskId current) (tc_routes tc2)\<rparr>)) tc1))"

definition get_route ::
  "formats \<Rightarrow> route_catalog \<Rightarrow> string \<Rightarrow> (mesh_error, route_record option) result" where
  "get_route fmt tc taskId =
     (case uuidSchema fmt taskId of
        None \<Rightarrow> Inl Zod_Error
      | Some parsed \<Rightarrow> Inr (js_get (tc_routes tc) parsed))"

definition list_routes :: "route_catalog \<Rightarrow> route_record list" where
  "list_routes tc = js_values (tc_routes tc)"

definition requireForNode ::
  "formats \<Rightarrow> route_catalog \<Rightarrow> string \<Rightarrow> string \<Rightarrow> (mesh_error, route_record) result" where
  "requireForNode fmt tc taskId sourceNodeId =
     bindR (get_route fmt tc taskId) (\<lambda>route.
       case uuidSchema fmt sourceNodeId of
         None \<Rightarrow> Inl Zod_Error
       | Some source \<Rightarrow>
           (case route of
              None \<Rightarrow> Inl (mesh_fail TASK_NOT_FOUND)
            | Some r \<Rightarrow>
                if tk_sourceNodeId r \<noteq> Some source then Inl (mesh_fail TASK_NOT_FOUND) else Inr r))"

definition requireInbound ::
  "formats \<Rightarrow> route_catalog \<Rightarrow> string \<Rightarrow> string \<Rightarrow> (mesh_error, route_record) result" where
  "requireInbound fmt tc taskId sourcePeerId =
     bindR (get_route fmt tc taskId) (\<lambda>route.
       case uuidSchema fmt sourcePeerId of
         None \<Rightarrow> Inl Zod_Error
       | Some source \<Rightarrow>
           (case route of
              None \<Rightarrow> Inl (mesh_fail TASK_NOT_FOUND)
            | Some r \<Rightarrow>
                if tk_routeKind r \<noteq> Local_Route \<or> tk_sourcePeerId r \<noteq> Some source
                then Inl (mesh_fail TASK_NOT_FOUND) else Inr r))"

text \<open>The part the two marking operations share: the new state is parsed, written and kept.\<close>

definition mark_route ::
  "formats \<Rightarrow> update_answer \<Rightarrow> route_record \<Rightarrow> task_status \<Rightarrow> string option \<Rightarrow> route_record route_op" where
  "mark_route fmt answer route st terminalAt tc =
     (if tk_state route = Route_Status st \<and> tk_terminalAt route = terminalAt then (Inr route, tc)
      else case taskRouteRecordSchema fmt
                  (route\<lparr>tk_state := Route_Status st, tk_terminalAt := terminalAt\<rparr>) of
        None \<Rightarrow> (Inl Zod_Error, tc)
      | Some updated \<Rightarrow>
          (case readCatalog fmt tc of
             Inl e \<Rightarrow> (Inl e, tc)
           | Inr routes \<Rightarrow>
               bindS (writeCatalog fmt answer
                        (map (\<lambda>c. if tk_taskId c = tk_taskId updated then updated else c) routes)) (\<lambda>_ tc1.
                 (Inr updated, tc1\<lparr>tc_routes := js_set (tk_taskId updated) updated (tc_routes tc1)\<rparr>)) tc))"

text \<open>The fields of a task snapshot the catalogue looks at.\<close>

record route_snapshot =
  xs_taskId :: string
  xs_delegationRequestId :: string
  xs_deviceId :: string
  xs_workspaceId :: string
  xs_state :: task_status
  xs_updatedAt :: string

definition markSnapshot :: "formats \<Rightarrow> update_answer \<Rightarrow> route_snapshot \<Rightarrow> route_record route_op" where
  "markSnapshot fmt answer snapshot tc =
     (case js_get (tc_routes tc) (xs_taskId snapshot) of
        None \<Rightarrow> (Inl (mesh_fail PROTOCOL_INCOMPATIBLE), tc)
      | Some route \<Rightarrow>
          if tk_delegationRequestId route \<noteq> xs_delegationRequestId snapshot
             \<or> tt_deviceId (tk_target route) \<noteq> xs_deviceId snapshot
             \<or> tt_workspaceId (tk_target route) \<noteq> xs_workspaceId snapshot
          then (Inl (mesh_fail PROTOCOL_INCOMPATIBLE), tc)
          else mark_route fmt answer route (xs_state snapshot)
                 (if is_terminal (xs_state snapshot) then Some (xs_updatedAt snapshot) else None) tc)"

definition markState ::
  "formats \<Rightarrow> update_answer \<Rightarrow> string \<Rightarrow> task_status \<Rightarrow> string \<Rightarrow> unit route_op" where
  "markState fmt answer taskId st updatedAt tc =
     (case uuidSchema fmt taskId of
        None \<Rightarrow> (Inl Zod_Error, tc)
      | Some parsed \<Rightarrow>
          if \<not> fmt_datetime fmt updatedAt then (Inl Zod_Error, tc)
          else case js_get (tc_routes tc) parsed of
            None \<Rightarrow> (Inl (mesh_fail TASK_NOT_FOUND), tc)
          | Some route \<Rightarrow>
              bindS (mark_route fmt answer route st
                       (if is_terminal st then Some updatedAt else None)) (\<lambda>_. liftS (Inr ())) tc)"

section \<open>Histories\<close>

datatype route_call =
    Reserve_Local routed_start "string option" "string option" bool
  | Reserve_Remote routed_start string string bool
  | Retain_Ambiguous reservation
  | Release_Ambiguous reservation bool bool
  | Mark_Snapshot route_snapshot
  | Mark_State string task_status string
  | Restart_Catalog

type_synonym route_event = "int \<times> update_answer \<times> route_call"

text \<open>
  A restart builds a new catalogue over what is stored; when the constructor throws there is no
  catalogue until a later restart, and the stored value stays as it is.
\<close>

fun route_step :: "route_config \<Rightarrow> route_event \<Rightarrow> route_catalog \<Rightarrow> route_catalog" where
  "route_step cfg (now, answer, Reserve_Local input nodeId peerId asAttempt) tc =
     snd (reserve_local cfg now answer input nodeId peerId asAttempt tc)"
| "route_step cfg (now, answer, Reserve_Remote input peerId sourceNodeId asAttempt) tc =
     snd (reserve_remote cfg now answer input peerId sourceNodeId asAttempt tc)"
| "route_step cfg (now, answer, Retain_Ambiguous rv) tc = snd (retainAmbiguous rv tc)"
| "route_step cfg (now, answer, Release_Ambiguous rv persisted attempted) tc =
     snd (releaseAmbiguous (tq_formats cfg) answer rv persisted attempted tc)"
| "route_step cfg (now, answer, Mark_Snapshot snapshot) tc =
     snd (markSnapshot (tq_formats cfg) answer snapshot tc)"
| "route_step cfg (now, answer, Mark_State taskId st updatedAt) tc =
     snd (markState (tq_formats cfg) answer taskId st updatedAt tc)"
| "route_step cfg (now, answer, Restart_Catalog) tc =
     (case new_route_catalog (tq_formats cfg) (tc_stored tc) of Inl _ \<Rightarrow> tc | Inr tc' \<Rightarrow> tc')"

section \<open>Parsed values are fixed\<close>

lemma parse_all_fixed:
  "parse_all p xs = Some ys \<Longrightarrow> (\<And>x y. p x = Some y \<Longrightarrow> p y = Some y) \<Longrightarrow> list_all (\<lambda>y. p y = Some y) ys"
  by (induction xs arbitrary: ys) (auto split: option.splits)

lemma parse_all_id: "list_all (\<lambda>x. p x = Some x) xs \<Longrightarrow> parse_all p xs = Some xs"
  by (induction xs) simp_all

lemma length_parse_all: "parse_all p xs = Some ys \<Longrightarrow> length ys = length xs"
  by (induction xs arbitrary: ys) (auto split: option.splits)

definition route_ok :: "formats \<Rightarrow> route_record \<Rightarrow> bool" where
  "route_ok fmt r \<longleftrightarrow> taskRouteRecordSchema fmt r = Some r"

definition route_catalog_ok :: "formats \<Rightarrow> route_record list \<Rightarrow> bool" where
  "route_catalog_ok fmt rs \<longleftrightarrow>
     length rs \<le> TASK_ROUTE_CATALOG_LIMIT \<and> list_all (route_ok fmt) rs
     \<and> distinct (map tk_taskId rs) \<and> distinct (map delegation_key rs)"

lemma lower_route_idem [simp]: "lower_route (lower_route r) = lower_route r"
  by (simp add: lower_route_def)

lemma lower_route_sel [simp]:
  "tk_taskId (lower_route r) = js_lower (tk_taskId r)"
  "tk_delegationRequestId (lower_route r) = js_lower (tk_delegationRequestId r)"
  "tk_continueFromTaskId (lower_route r) = map_option js_lower (tk_continueFromTaskId r)"
  "tk_requestHash (lower_route r) = tk_requestHash r"
  "tk_target (lower_route r) = lower_task_target (tk_target r)"
  "tk_routeKind (lower_route r) = tk_routeKind r"
  "tk_peerId (lower_route r) = map_option js_lower (tk_peerId r)"
  "tk_sourceNodeId (lower_route r) = map_option js_lower (tk_sourceNodeId r)"
  "tk_sourcePeerId (lower_route r) = map_option js_lower (tk_sourcePeerId r)"
  "tk_sourceWorkspaceIdentity (lower_route r) = tk_sourceWorkspaceIdentity r"
  "tk_createdAt (lower_route r) = tk_createdAt r" "tk_state (lower_route r) = tk_state r"
  "tk_terminalAt (lower_route r) = tk_terminalAt r"
  by (simp_all add: lower_route_def)

lemma route_schema_ok:
  assumes fmt: "uuids_regular fmt" and r: "taskRouteRecordSchema fmt r = Some r'"
  shows "route_ok fmt r'"
proof -
  have "r' = lower_route r" using r by (simp add: taskRouteRecordSchema_def split: if_split_asm)
  moreover have "taskRouteRecordSchema fmt (lower_route r) = Some (lower_route r)"
    unfolding taskRouteRecordSchema_def
    by (rule trans [OF if_P]) (insert r, simp_all add: taskRouteRecordSchema_def uuid_lower [OF fmt]
        opt_uuid_lower [OF fmt] target_schema_lower [OF fmt] split: if_split_asm)
  ultimately show ?thesis by (simp add: route_ok_def)
qed

lemma catalog_schema_ok:
  assumes "uuids_regular fmt" "taskRouteCatalogSchema fmt rs = Some rs'"
  shows "route_catalog_ok fmt rs'"
  using assms parse_all_fixed [of "taskRouteRecordSchema fmt" rs] route_schema_ok [OF assms(1)]
  by (auto simp: taskRouteCatalogSchema_def route_catalog_ok_def route_ok_def [abs_def] length_parse_all
      split: if_splits option.splits)

lemma catalog_schema_id:
  "list_all (route_ok fmt) rs \<Longrightarrow> taskRouteCatalogSchema fmt rs = (if route_catalog_ok fmt rs then Some rs else None)"
  by (simp add: taskRouteCatalogSchema_def route_catalog_ok_def parse_all_id route_ok_def [abs_def])

lemma readCatalog_ok: "uuids_regular fmt \<Longrightarrow> readCatalog fmt tc = Inr rs \<Longrightarrow> route_catalog_ok fmt rs"
  by (auto simp: readCatalog_def route_catalog_ok_def [of fmt "[]"] dest: catalog_schema_ok
      split: option.splits routes_value.splits)

lemma readCatalog_stored:
  "route_catalog_ok fmt rs \<Longrightarrow> readCatalog fmt (tc\<lparr>tc_stored := Some (Routes_Value rs)\<rparr>) = Inr rs"
  by (simp add: readCatalog_def catalog_schema_id route_catalog_ok_def)

lemma readCatalog_cong [simp]:
  "readCatalog fmt (tc\<lparr>tc_routes := m\<rparr>) = readCatalog fmt tc"
  "readCatalog fmt (tc\<lparr>tc_groups := g\<rparr>) = readCatalog fmt tc"
  "readCatalog fmt (tc\<lparr>tc_nextAttemptId := n\<rparr>) = readCatalog fmt tc"
  by (simp_all add: readCatalog_def)

lemma write_catalog_cases:
  assumes "list_all (route_ok fmt) rs" "writeCatalog fmt answer rs tc = (res, tc')"
  obtains e where "res = Inl e" "tc' = tc"
  | e where "res = Inl e" "route_catalog_ok fmt rs" "answer = Update_Then_Refused"
      "tc' = tc\<lparr>tc_stored := Some (Routes_Value rs)\<rparr>"
  | "res = Inr ()" "route_catalog_ok fmt rs" "answer = Update_Done"
      "tc' = tc\<lparr>tc_stored := Some (Routes_Value rs)\<rparr>"
  using assms by (auto simp: writeCatalog_def catalog_schema_id split: if_splits update_answer.splits)

section \<open>What a call may do\<close>

definition routes_of :: "formats \<Rightarrow> route_catalog \<Rightarrow> route_record list" where
  "routes_of fmt tc = (case readCatalog fmt tc of Inl _ \<Rightarrow> [] | Inr rs \<Rightarrow> rs)"

definition route_of :: "route_record list \<Rightarrow> string \<Rightarrow> route_record option" where
  "route_of rs t = find (\<lambda>r. tk_taskId r = t) rs"

definition stored_route :: "formats \<Rightarrow> route_catalog \<Rightarrow> string \<Rightarrow> route_record option" where
  "stored_route fmt tc t = route_of (routes_of fmt tc) t"

text \<open>An attempt on the route may still undo it.\<close>

definition releasable :: "route_catalog \<Rightarrow> string \<Rightarrow> bool" where
  "releasable tc t \<longleftrightarrow>
     (case js_get (tc_groups tc) t of
        None \<Rightarrow> False | Some g \<Rightarrow> ag_releasable g \<and> \<not> ag_protected g)"

text \<open>The route without the part that follows the task.\<close>

definition binding :: "route_record \<Rightarrow> route_record" where
  "binding r = r\<lparr>tk_state := Ambiguous, tk_terminalAt := None\<rparr>"

text \<open>
  The catalogue can be read, groups and routes in memory are filed under their task ids, and
  unless a write was stored and then refused since the start, memory and store hold the same
  routes. After such a write they may differ.
\<close>

definition routes_inv :: "formats \<Rightarrow> bool \<Rightarrow> route_catalog \<Rightarrow> bool" where
  "routes_inv fmt lost tc \<longleftrightarrow>
     (\<exists>rs. readCatalog fmt tc = Inr rs)
     \<and> (\<forall>t g. js_get (tc_groups tc) t = Some g \<longrightarrow> tk_taskId (ag_route g) = t)
     \<and> (\<forall>t r. js_get (tc_routes tc) t = Some r \<longrightarrow> route_ok fmt r \<and> tk_taskId r = t)
     \<and> (\<not> lost \<longrightarrow> js_get (tc_routes tc) = stored_route fmt tc)"

text \<open>Memory, when it knows the task, knows it by that binding.\<close>

definition known_as :: "route_catalog \<Rightarrow> string \<Rightarrow> route_record \<Rightarrow> bool" where
  "known_as tc t r \<longleftrightarrow> (\<forall>m. js_get (tc_routes tc) t = Some m \<longrightarrow> binding m = binding r)"

definition route_kept :: "formats \<Rightarrow> route_catalog \<Rightarrow> route_catalog \<Rightarrow> string \<Rightarrow> route_record \<Rightarrow> bool" where
  "route_kept fmt tc tc' t r \<longleftrightarrow> known_as tc t r \<longrightarrow>
     ((\<exists>r'. stored_route fmt tc' t = Some r' \<and> binding r' = binding r \<and> known_as tc' t r'
             \<and> (tk_state r' = Ambiguous \<longrightarrow> tk_state r = Ambiguous))
      \<or> isTerminal (tk_state r) \<or> tk_state r = Ambiguous \<and> releasable tc t)
     \<and> (releasable tc' t \<longrightarrow> releasable tc t)"

definition routes_step :: "formats \<Rightarrow> bool \<Rightarrow> route_catalog \<Rightarrow> route_catalog \<Rightarrow> bool" where
  "routes_step fmt lost tc tc' \<longleftrightarrow>
     routes_inv fmt lost tc' \<and> (\<forall>t r. stored_route fmt tc t = Some r \<longrightarrow> route_kept fmt tc tc' t r)"

lemma route_of_simps [simp]:
  "route_of [] t = None"
  "route_of (r # rs) t = (if tk_taskId r = t then Some r else route_of rs t)"
  by (simp_all add: route_of_def)

lemma route_of_id: "route_of rs t = Some r \<Longrightarrow> tk_taskId r = t \<and> r \<in> set rs"
  by (auto simp: route_of_def dest: find_Some_mem)

lemma route_of_None: "route_of rs t = None \<longleftrightarrow> t \<notin> tk_taskId ` set rs"
  by (auto simp: route_of_def find_None_iff_all)

lemma route_of_append:
  "route_of (rs @ ss) t = (case route_of rs t of None \<Rightarrow> route_of ss t | Some r \<Rightarrow> Some r)"
  by (induction rs) simp_all

lemma route_of_filter:
  "route_of (filter (\<lambda>r. tk_taskId r \<noteq> u) rs) t = (if t = u then None else route_of rs t)"
  by (induction rs) auto

lemma route_of_map:
  "route_of (map (\<lambda>c. if tk_taskId c = tk_taskId u then u else c) rs) t
   = (if t = tk_taskId u \<and> route_of rs t \<noteq> None then Some u else route_of rs t)"
  by (induction rs) auto

lemma stored_route_cong [simp]:
  "stored_route fmt (tc\<lparr>tc_routes := m\<rparr>) = stored_route fmt tc"
  "stored_route fmt (tc\<lparr>tc_groups := g\<rparr>) = stored_route fmt tc"
  "stored_route fmt (tc\<lparr>tc_nextAttemptId := n\<rparr>) = stored_route fmt tc"
  by (simp_all add: stored_route_def routes_of_def fun_eq_iff)

lemma stored_route_read: "readCatalog fmt tc = Inr rs \<Longrightarrow> stored_route fmt tc = route_of rs"
  by (simp add: stored_route_def routes_of_def fun_eq_iff)

lemma stored_route_stored:
  "route_catalog_ok fmt rs \<Longrightarrow> stored_route fmt (tc\<lparr>tc_stored := Some (Routes_Value rs)\<rparr>) = route_of rs"
  by (rule stored_route_read) (rule readCatalog_stored)

lemma releasable_cong [simp]:
  "releasable (tc\<lparr>tc_routes := m\<rparr>) = releasable tc"
  "releasable (tc\<lparr>tc_stored := v\<rparr>) = releasable tc"
  "releasable (tc\<lparr>tc_nextAttemptId := n\<rparr>) = releasable tc"
  by (simp_all add: releasable_def fun_eq_iff)

lemma known_as_cong [simp]:
  "known_as (tc\<lparr>tc_stored := v\<rparr>) = known_as tc"
  "known_as (tc\<lparr>tc_groups := g\<rparr>) = known_as tc"
  "known_as (tc\<lparr>tc_nextAttemptId := n\<rparr>) = known_as tc"
  by (simp_all add: known_as_def fun_eq_iff)

lemma known_as_routes:
  "tc_routes tc' = tc_routes tc \<Longrightarrow> known_as tc' = known_as tc"
  by (simp add: known_as_def fun_eq_iff)

lemma route_kept_same:
  "stored_route fmt tc' t = Some r \<Longrightarrow> (known_as tc t r \<Longrightarrow> known_as tc' t r) \<Longrightarrow>
   (releasable tc' t \<Longrightarrow> releasable tc t) \<Longrightarrow> route_kept fmt tc tc' t r"
  by (auto simp: route_kept_def)

section \<open>Every call keeps the routes\<close>

lemma routes_inv_routes:
  "routes_inv fmt lost tc \<Longrightarrow> (\<not> lost \<Longrightarrow> js_get m = stored_route fmt tc) \<Longrightarrow>
   (\<And>t r. js_get m t = Some r \<Longrightarrow> route_ok fmt r \<and> tk_taskId r = t) \<Longrightarrow>
   routes_inv fmt lost (tc\<lparr>tc_routes := m\<rparr>)"
  by (simp add: routes_inv_def)

lemma routes_inv_memory:
  "routes_inv fmt lost tc \<Longrightarrow> js_get (tc_routes tc) t = Some r \<Longrightarrow> route_ok fmt r \<and> tk_taskId r = t"
  by (simp add: routes_inv_def)

lemma routes_inv_agree:
  "routes_inv fmt lost tc \<Longrightarrow> \<not> lost \<Longrightarrow> readCatalog fmt tc = Inr rs \<Longrightarrow> js_get (tc_routes tc) = route_of rs"
  unfolding routes_inv_def by (metis stored_route_read)

lemma routes_inv_lost: "routes_inv fmt lost tc \<Longrightarrow> (lost \<Longrightarrow> lost') \<Longrightarrow> routes_inv fmt lost' tc"
  by (auto simp: routes_inv_def)

lemma routes_inv_stored:
  "routes_inv fmt lost tc \<Longrightarrow> route_catalog_ok fmt rs \<Longrightarrow> (\<not> lost' \<Longrightarrow> js_get (tc_routes tc) = route_of rs) \<Longrightarrow>
   routes_inv fmt lost' (tc\<lparr>tc_stored := Some (Routes_Value rs)\<rparr>)"
  by (simp add: routes_inv_def readCatalog_stored stored_route_stored)

lemma routes_inv_write:
  "routes_inv fmt lost tc \<Longrightarrow> route_catalog_ok fmt rs \<Longrightarrow>
   (\<And>t r. js_get m t = Some r \<Longrightarrow> route_ok fmt r \<and> tk_taskId r = t) \<Longrightarrow>
   (\<not> lost' \<Longrightarrow> js_get m = route_of rs) \<Longrightarrow>
   routes_inv fmt lost' (tc\<lparr>tc_stored := Some (Routes_Value rs), tc_routes := m\<rparr>)"
  using readCatalog_stored [of fmt rs tc] stored_route_stored [of fmt rs tc]
  by (simp add: routes_inv_def)

lemma routes_step_refl: "routes_inv fmt lost tc \<Longrightarrow> routes_step fmt lost tc tc"
  by (simp add: routes_step_def route_kept_same)

lemma routes_step_lost: "routes_inv fmt lost tc \<Longrightarrow> (lost \<Longrightarrow> lost') \<Longrightarrow> routes_step fmt lost' tc tc"
  by (blast intro: routes_step_refl routes_inv_lost)

definition attempt_group_for :: "route_record \<Rightarrow> bool \<Rightarrow> route_catalog \<Rightarrow> attempt_group" where
  "attempt_group_for r created tc =
     (let fresh = \<lparr>ag_route = r, ag_attempts = {}, ag_releasable = created, ag_protected = \<not> created\<rparr> in
      case js_get (tc_groups tc) (tk_taskId r) of
        None \<Rightarrow> fresh | Some g \<Rightarrow> if sameRouteRecord (ag_route g) r then g else fresh)"

lemma reservationResult_eq:
  "reservationResult r created asAttempt tc =
     (if \<not> asAttempt then (Inr \<lparr>rv_route = r, rv_attemptId = None\<rparr>, tc)
      else (Inr \<lparr>rv_route = r, rv_attemptId = Some (tc_nextAttemptId tc)\<rparr>,
            tc\<lparr>tc_nextAttemptId := tc_nextAttemptId tc + 1,
               tc_groups := js_set (tk_taskId r)
                 (attempt_group_for r created tc
                    \<lparr>ag_attempts := insert (tc_nextAttemptId tc) (ag_attempts (attempt_group_for r created tc))\<rparr>)
                 (tc_groups tc)\<rparr>))"
  by (simp add: reservationResult_def attempt_group_for_def Let_def)

lemma attempt_group_props:
  "tk_taskId (ag_route (attempt_group_for r created tc)) = tk_taskId r"
  "ag_releasable (attempt_group_for r created tc) \<Longrightarrow> \<not> ag_protected (attempt_group_for r created tc) \<Longrightarrow>
   created \<or> releasable tc (tk_taskId r)"
  by (auto simp: attempt_group_for_def sameRouteRecord_def releasable_def Let_def split: option.splits if_splits)

lemma reservation_step:
  assumes inv: "routes_inv fmt lost tc" and eq: "reservationResult r created asAttempt tc = (res, tc')"
  shows "routes_inv fmt lost tc'" "stored_route fmt tc' = stored_route fmt tc"
    "releasable tc' t \<Longrightarrow> releasable tc t \<or> created \<and> t = tk_taskId r"
    "\<exists>rv. res = Inr rv \<and> rv_route rv = r" "tc_routes tc' = tc_routes tc" "tc_stored tc' = tc_stored tc"
  using eq
proof -
  note eqs = eq [unfolded reservationResult_eq, symmetric]
  show "stored_route fmt tc' = stored_route fmt tc" "\<exists>rv. res = Inr rv \<and> rv_route rv = r"
    "tc_routes tc' = tc_routes tc" "tc_stored tc' = tc_stored tc"
    using eqs by (simp_all split: if_split_asm)
  show "releasable tc' t \<Longrightarrow> releasable tc t \<or> created \<and> t = tk_taskId r"
    using eqs attempt_group_props(2) [of r created tc]
    by (cases "asAttempt \<and> t = tk_taskId r")
      (auto simp: releasable_def [of tc'] releasable_def [of tc t] js_map split: if_split_asm)
  show "routes_inv fmt lost tc'"
    using eqs inv attempt_group_props(1) [of r created tc]
    by (simp add: routes_inv_def js_map split: if_split_asm)
qed

lemma makeCapacity_cases:
  assumes "makeCapacity cfg rs = Inr retained"
  obtains "retained = rs"
  | old where "old \<in> set rs" "isTerminal (tk_state old)"
      "retained = filter (\<lambda>r. tk_taskId r \<noteq> tk_taskId old) rs"
proof (cases "length rs < TASK_ROUTE_CATALOG_LIMIT")
  case True
  with assms that(1) show ?thesis by (simp add: makeCapacity_def)
next
  case False
  let ?P = "\<lambda>r. tk_terminalAt r \<noteq> None \<and> isTerminal (tk_state r)"
  obtain old rest where s: "js_sort (terminal_compare cfg) (filter ?P rs) = old # rest"
    using assms False by (auto simp: makeCapacity_def split: list.splits)
  then have "old \<in> set (js_sort (terminal_compare cfg) (filter ?P rs))" by simp
  then have "old \<in> set rs" "isTerminal (tk_state old)" by (simp_all only: set_js_sort) simp_all
  moreover have "retained = filter (\<lambda>r. tk_taskId r \<noteq> tk_taskId old) rs"
    using assms False s by (simp add: makeCapacity_def)
  ultimately show ?thesis using that(2) by blast
qed

lemma forget_evicted_get:
  "js_get (forget_evicted before retained m) t
   = (if t \<in> tk_taskId ` set before \<and> t \<notin> tk_taskId ` set retained then None else js_get m t)"
  unfolding forget_evicted_def by (induction before arbitrary: m) (auto simp: js_map)

lemma route_of_unique:
  "distinct (map tk_taskId rs) \<Longrightarrow> r \<in> set rs \<Longrightarrow> route_of rs (tk_taskId r) = Some r"
  by (induction rs) (auto simp: image_iff)

lemma new_route_binding:
  "taskRouteRecordSchema fmt (new_route p route h now) = Some c \<Longrightarrow>
   c = lower_route (new_route p route h now) \<and> tk_state c = Ambiguous"
  by (auto simp: taskRouteRecordSchema_def new_route_def split: if_splits)

lemma find_by_request_None:
  "find_by_request p rs = None \<Longrightarrow> rs_taskId p \<notin> tk_taskId ` set rs"
  by (auto simp: find_by_request_def find_None_iff_all)


lemma retained_keeps:
  assumes "route_catalog_ok fmt rs" "makeCapacity cfg rs = Inr retained" "route_of rs t = Some r"
  shows "route_of (retained @ cs) t = Some r \<or> isTerminal (tk_state r)"
  using assms(2)
proof (cases rule: makeCapacity_cases)
  case 1
  with assms(3) show ?thesis by (simp add: route_of_append)
next
  case (2 old)
  have "route_of rs (tk_taskId old) = Some old"
    using 2(1) assms(1) by (simp add: route_catalog_ok_def route_of_unique)
  with 2 assms(3) show ?thesis
    by (cases "t = tk_taskId old") (simp_all add: route_of_append route_of_filter)
qed

lemma retained_ok:
  assumes "route_catalog_ok fmt rs" "makeCapacity cfg rs = Inr retained"
  shows "list_all (route_ok fmt) retained" "set retained \<subseteq> set rs"
  using assms(2) assms(1) by (cases rule: makeCapacity_cases; force simp: route_catalog_ok_def list_all_iff)+

lemma forget_evicted_agrees:
  assumes ok: "route_catalog_ok fmt rs" and cap: "makeCapacity cfg rs = Inr retained"
    and agree: "js_get m = route_of rs" and new: "tk_taskId c \<notin> tk_taskId ` set rs"
  shows "js_get (js_set (tk_taskId c) c (forget_evicted rs retained m)) = route_of (retained @ [c])"
proof
  fix t
  have sub: "set retained \<subseteq> set rs" by (rule retained_ok(2) [OF ok cap])
  have "route_of retained t = (if t \<in> tk_taskId ` set rs \<and> t \<notin> tk_taskId ` set retained then None else route_of rs t)"
  proof (cases "t \<in> tk_taskId ` set retained")
    case True
    with cap show ?thesis
      by (cases rule: makeCapacity_cases) (auto simp: route_of_filter)
  next
    case False
    then have "route_of retained t = None" by (simp only: route_of_None) simp
    with False sub show ?thesis using route_of_None [of rs t] by auto
  qed
  moreover have "route_of retained (tk_taskId c) = None" using sub new by (auto simp: route_of_None)
  ultimately show "js_get (js_set (tk_taskId c) c (forget_evicted rs retained m)) t = route_of (retained @ [c]) t"
    by (auto simp: js_map forget_evicted_get agree route_of_append split: option.split)
qed

lemma parsed_ids:
  "routedTaskStartParamsSchema fmt input = Some p \<Longrightarrow>
   js_lower (rs_taskId p) = rs_taskId p \<and> js_lower (rs_delegationRequestId p) = rs_delegationRequestId p
   \<and> lower_task_target (rs_target p) = rs_target p
   \<and> map_option js_lower (rs_continueFromTaskId p) = rs_continueFromTaskId p"
  by (auto simp: routedTaskStartParamsSchema_def option.map_comp comp_def split: if_splits)

lemma found_reservation_step:
  assumes inv: "routes_inv fmt lost tc" and rs: "readCatalog fmt tc = Inr rs"
    and found: "find_by_request p rs = Some r" and ok: "route_catalog_ok fmt rs"
    and eq: "reservationResult r False asAttempt (tc\<lparr>tc_routes := js_set (tk_taskId r) r (tc_routes tc)\<rparr>) = (res, tc')"
  shows "routes_step fmt lost tc tc'"
proof -
  have "r \<in> set rs" using found by (auto simp: find_by_request_def dest: find_Some_mem)
  then have r: "route_of rs (tk_taskId r) = Some r" "route_ok fmt r"
    using ok by (simp_all add: route_catalog_ok_def route_of_unique list_all_iff)
  have inv1: "routes_inv fmt lost (tc\<lparr>tc_routes := js_set (tk_taskId r) r (tc_routes tc)\<rparr>)"
    using inv
  proof (rule routes_inv_routes)
    show "js_get (js_set (tk_taskId r) r (tc_routes tc)) = stored_route fmt tc" if "\<not> lost"
      by (simp add: js_map stored_route_read [OF rs] routes_inv_agree [OF inv that rs] fun_upd_idem [of "route_of rs", OF r(1)])
    show "route_ok fmt x \<and> tk_taskId x = t"
      if "js_get (js_set (tk_taskId r) r (tc_routes tc)) t = Some x" for t x
      using that r(2) routes_inv_memory [OF inv] by (simp add: js_map split: if_splits)
  qed
  have "known_as tc' t x" if "route_of rs t = Some x" "known_as tc t x" for t x
    using that r(1) reservation_step(5) [OF inv1 eq]
    by (cases "t = tk_taskId r") (simp_all add: known_as_def js_map)
  then show ?thesis
    using reservation_step(1,2,3) [OF inv1 eq]
    by (auto simp: routes_step_def stored_route_read [OF rs] intro!: route_kept_same)
qed

lemma new_reservation_step:
  assumes fmt: "uuids_regular fmt" and inv: "routes_inv fmt lost tc"
    and rs: "readCatalog fmt tc = Inr rs" and cap: "makeCapacity cfg rs = Inr retained"
    and c: "route_ok fmt c" "tk_taskId c \<notin> tk_taskId ` set rs"
    and eq: "bindS (writeCatalog fmt answer (retained @ [c])) (\<lambda>_ tc1.
        reservationResult c True asAttempt
          (tc1\<lparr>tc_routes := js_set (tk_taskId c) c (forget_evicted rs retained (tc_routes tc1))\<rparr>)) tc = (res, tc')"
  shows "routes_step fmt (lost \<or> answer = Update_Then_Refused) tc tc'"
proof -
  let ?tc1 = "tc\<lparr>tc_stored := Some (Routes_Value (retained @ [c]))\<rparr>"
  let ?m = "js_set (tk_taskId c) c (forget_evicted rs retained (tc_routes tc))"
  have ok: "route_catalog_ok fmt rs" by (rule readCatalog_ok [OF fmt rs])
  have routes: "list_all (route_ok fmt) (retained @ [c])"
    using retained_ok(1) [OF ok cap] c(1) by simp
  have kept: "route_of (retained @ [c]) t = Some r \<or> isTerminal (tk_state r)"
    if "stored_route fmt tc t = Some r" for t r
    using retained_keeps [OF ok cap] that by (simp add: stored_route_read [OF rs])
  obtain r1 tc1 where w: "writeCatalog fmt answer (retained @ [c]) tc = (r1, tc1)" by fastforce
  from routes w show ?thesis
  proof (cases rule: write_catalog_cases)
    case (1 e)
    with eq w have "tc' = tc" by (simp add: bindS_def)
    with inv show ?thesis by (simp add: routes_step_lost)
  next
    case (2 e)
    with eq w have tc': "tc' = ?tc1" by (simp add: bindS_def)
    have "routes_inv fmt True ?tc1" using inv 2(2) by (rule routes_inv_stored) simp
    then show ?thesis using 2 kept
      by (auto simp: tc' routes_step_def route_kept_def stored_route_stored)
  next
    case 3
    let ?tc2 = "?tc1\<lparr>tc_routes := ?m\<rparr>"
    have eq2: "reservationResult c True asAttempt ?tc2 = (res, tc')"
      using eq w 3 by (simp add: bindS_def)
    have m: "js_get ?m = route_of (retained @ [c])" if "\<not> lost"
      using routes_inv_agree [OF inv that rs] by (intro forget_evicted_agrees [OF ok cap _ c(2)])
    have mem: "js_get ?m t = (if t = tk_taskId c then Some c else js_get (tc_routes tc) t) \<or> js_get ?m t = None" for t
      by (simp add: js_map forget_evicted_get)
    have inv2: "routes_inv fmt lost ?tc2"
      using inv 3(2)
    proof (rule routes_inv_write [OF _ _ _ m])
      show "route_ok fmt r \<and> tk_taskId r = t" if "js_get ?m t = Some r" for t r
        using mem [of t] that c(1) routes_inv_memory [OF inv] by (auto split: if_splits)
    qed
    note st = reservation_step [OF inv2 eq2]
    have stored: "stored_route fmt tc' = route_of (retained @ [c])"
      using st(2) by (simp add: stored_route_stored [OF 3(2)])
    have "route_kept fmt tc tc' t r" if r: "stored_route fmt tc t = Some r" for t r
    proof -
      have t: "t \<noteq> tk_taskId c" using r c(2) route_of_None [of rs t] by (metis stored_route_read [OF rs] option.distinct(1))
      then have "known_as tc t r \<Longrightarrow> known_as tc' t r"
        using mem [of t] st(5) by (auto simp: known_as_def)
      then show ?thesis using kept [OF r] st(3) [of t] t by (auto simp: route_kept_def stored)
    qed
    then show ?thesis using st(1) 3 by (simp add: routes_step_def)
  qed
qed

lemma reserveCore_step:
  assumes fmt: "uuids_regular (tq_formats cfg)" and inv: "routes_inv (tq_formats cfg) lost tc"
  shows "routes_step (tq_formats cfg) (lost \<or> answer = Update_Then_Refused) tc
    (snd (reserveCore cfg now answer input route asAttempt tc))"
proof -
  let ?fmt = "tq_formats cfg"
  obtain rs where rs: "readCatalog ?fmt tc = Inr rs" using inv by (auto simp: routes_inv_def)
  note same = routes_step_lost [OF inv, of "lost \<or> answer = Update_Then_Refused"]
  show ?thesis
  proof (cases "routedTaskStartParamsSchema ?fmt input")
    case None
    with same show ?thesis by (simp add: reserveCore_def)
  next
    case (Some p)
    let ?h = "canonicalRouteRequestHash cfg p route"
    show ?thesis
    proof (cases "find_by_request p rs")
      case (Some r)
      show ?thesis
      proof (cases "bound_elsewhere r p route ?h")
        case True
        with same Some rs \<open>routedTaskStartParamsSchema ?fmt input = _\<close> show ?thesis
          by (simp add: reserveCore_def)
      next
        case False
        let ?tc1 = "tc\<lparr>tc_routes := js_set (tk_taskId r) r (tc_routes tc)\<rparr>"
        obtain res tc' where eq: "reservationResult r False asAttempt ?tc1 = (res, tc')" by fastforce
        have "routes_step ?fmt (lost \<or> answer = Update_Then_Refused) tc tc'"
          using routes_inv_lost [OF inv] rs Some readCatalog_ok [OF fmt rs] eq
          by (rule found_reservation_step) simp
        with False Some rs eq \<open>routedTaskStartParamsSchema ?fmt input = _\<close> show ?thesis
          by (simp add: reserveCore_def)
      qed
    next
      case None
      show ?thesis
      proof (cases "assertContinuationRoute tc p route")
        case (Inl e)
        with same None rs Some show ?thesis by (simp add: reserveCore_def)
      next
        case (Inr u)
        show ?thesis
        proof (cases "makeCapacity cfg rs")
          case (Inl e)
          with same None rs Some Inr show ?thesis by (simp add: reserveCore_def)
        next
          case cap: (Inr retained)
          show ?thesis
          proof (cases "taskRouteRecordSchema ?fmt (new_route p route ?h now)")
            case c: None
            with same None rs Some Inr cap show ?thesis by (simp add: reserveCore_def)
          next
            case c: (Some c)
            let ?m = "bindS (writeCatalog ?fmt answer (retained @ [c])) (\<lambda>_ tc1.
              reservationResult c True asAttempt
                (tc1\<lparr>tc_routes := js_set (tk_taskId c) c (forget_evicted rs retained (tc_routes tc1))\<rparr>)) tc"
            obtain res tc' where eq: "?m = (res, tc')" by fastforce
            have "c = lower_route (new_route p route ?h now)" using new_route_binding [OF c] by simp
            then have "tk_taskId c = rs_taskId p" using parsed_ids [OF Some] by (simp add: new_route_def)
            then have "tk_taskId c \<notin> tk_taskId ` set rs" using find_by_request_None [OF None] by simp
            with new_reservation_step [OF fmt inv rs cap route_schema_ok [OF fmt c] _ eq]
            have "routes_step ?fmt (lost \<or> answer = Update_Then_Refused) tc tc'" .
            then show ?thesis using eq None rs Some Inr cap c by (simp add: reserveCore_def)
          qed
        qed
      qed
    qed
  qed
qed

lemma routes_step_groups:
  assumes "routes_inv fmt lost tc" "\<And>t g. js_get gs t = Some g \<Longrightarrow> tk_taskId (ag_route g) = t"
    "\<And>t. releasable (tc\<lparr>tc_groups := gs\<rparr>) t \<Longrightarrow> releasable tc t"
  shows "routes_step fmt lost tc (tc\<lparr>tc_groups := gs\<rparr>)"
  using assms by (auto simp: routes_step_def routes_inv_def intro!: route_kept_same)

lemma requireAttemptGroup_Inr:
  assumes "routes_inv fmt lost tc" "requireAttemptGroup rv tc = Inr (g, a)"
  shows "js_get (tc_groups tc) (tk_taskId (rv_route rv)) = Some g"
    "tk_taskId (ag_route g) = tk_taskId (rv_route rv)" "rv_attemptId rv = Some a" "a \<in> ag_attempts g"
  using assms by (auto simp: requireAttemptGroup_def routes_inv_def split: option.splits if_splits)

lemma retainAmbiguous_step:
  assumes inv: "routes_inv fmt lost tc"
  shows "routes_step fmt lost tc (snd (retainAmbiguous rv tc))"
    "fst (retainAmbiguous rv tc) = Inr () \<Longrightarrow> \<not> releasable (snd (retainAmbiguous rv tc)) (tk_taskId (rv_route rv))"
proof -
  have "routes_step fmt lost tc (snd (retainAmbiguous rv tc))
    \<and> (fst (retainAmbiguous rv tc) = Inr () \<longrightarrow> \<not> releasable (snd (retainAmbiguous rv tc)) (tk_taskId (rv_route rv)))"
  proof (cases "requireAttemptGroup rv tc")
    case (Inl e)
    then show ?thesis by (simp add: retainAmbiguous_def routes_step_refl [OF inv])
  next
    case (Inr ga)
    then obtain g a where ga: "requireAttemptGroup rv tc = Inr (g, a)" by (cases ga) auto
    note g = requireAttemptGroup_Inr [OF inv ga]
    have names: "js_get (tc_groups tc) t = Some g' \<Longrightarrow> tk_taskId (ag_route g') = t" for t g'
      using inv by (simp add: routes_inv_def)
    have "snd (retainAmbiguous rv tc) = tc\<lparr>tc_groups :=
        (if ag_attempts g - {a} = {} then js_delete (tk_taskId (rv_route rv)) (tc_groups tc)
         else js_set (tk_taskId (rv_route rv))
           (g\<lparr>ag_protected := True, ag_attempts := ag_attempts g - {a}\<rparr>) (tc_groups tc))\<rparr>" (is "_ = ?tc'")
      using ga g(2) by (simp add: retainAmbiguous_def Let_def)
    moreover have "routes_step fmt lost tc ?tc'"
      using inv by (rule routes_step_groups) (auto simp: js_map g(2) releasable_def dest: names split: if_splits)
    moreover have "\<not> releasable ?tc' (tk_taskId (rv_route rv))"
      by (simp add: releasable_def js_map)
    ultimately show ?thesis by simp
  qed
  then show "routes_step fmt lost tc (snd (retainAmbiguous rv tc))"
    "fst (retainAmbiguous rv tc) = Inr () \<Longrightarrow> \<not> releasable (snd (retainAmbiguous rv tc)) (tk_taskId (rv_route rv))"
    by simp_all
qed

lemma binding_eq_id: "binding r' = binding r \<Longrightarrow> tk_taskId r' = tk_taskId r"
  by (drule arg_cong [of _ _ tk_taskId]) (simp add: binding_def)

lemma removal_step:
  assumes fmt: "uuids_regular fmt" and inv: "routes_inv fmt lost tc"
    and rs: "readCatalog fmt tc = Inr rs" and u: "route_of rs u = Some r0" "tk_state r0 = Ambiguous" "releasable tc u"
    and gs: "\<And>t g. js_get gs t = Some g \<Longrightarrow> tk_taskId (ag_route g) = t"
    and rel: "\<And>t. releasable (tc\<lparr>tc_groups := gs\<rparr>) t \<Longrightarrow> releasable tc t"
    and eq: "bindS (writeCatalog fmt answer (filter (\<lambda>r. tk_taskId r \<noteq> u) rs)) (\<lambda>_ tc2.
        (Inr True, tc2\<lparr>tc_routes := js_delete u (tc_routes tc2)\<rparr>)) (tc\<lparr>tc_groups := gs\<rparr>) = (res, tc')"
  shows "routes_step fmt (lost \<or> answer = Update_Then_Refused) tc tc'"
proof -
  let ?tc = "tc\<lparr>tc_groups := gs\<rparr>" and ?rs = "filter (\<lambda>r. tk_taskId r \<noteq> u) rs"
  let ?tc1 = "?tc\<lparr>tc_stored := Some (Routes_Value ?rs)\<rparr>"
  have step0: "routes_step fmt lost tc ?tc" using inv gs rel by (rule routes_step_groups)
  have inv1: "routes_inv fmt lost ?tc" using step0 by (simp add: routes_step_def)
  have routes: "list_all (route_ok fmt) ?rs"
    using readCatalog_ok [OF fmt rs] by (auto simp: route_catalog_ok_def list_all_iff)
  have kept: "route_kept fmt tc (?tc1\<lparr>tc_routes := m\<rparr>) t r"
    if r: "stored_route fmt tc t = Some r" and ok: "route_catalog_ok fmt ?rs"
      and m: "\<And>t. t \<noteq> u \<Longrightarrow> js_get m t = js_get (tc_routes tc) t" for t r m
  proof (cases "t = u")
    case True
    with r u rs have "tk_state r = Ambiguous" by (simp add: stored_route_read [OF rs])
    with True u(3) show ?thesis by (simp add: route_kept_def)
  next
    case False
    then have "route_of ?rs t = Some r" using r by (simp add: stored_route_read [OF rs] route_of_filter)
    then show ?thesis using rel [of t] m [OF False]
      by (intro route_kept_same) (auto simp: stored_route_stored [OF ok] known_as_def)
  qed
  obtain r1 tc1 where w: "writeCatalog fmt answer ?rs ?tc = (r1, tc1)" by fastforce
  from routes w show ?thesis
  proof (cases rule: write_catalog_cases)
    case (1 e)
    with eq w have "tc' = ?tc" by (simp add: bindS_def)
    with step0 inv1 show ?thesis by (auto simp: routes_step_def intro: routes_inv_lost)
  next
    case (2 e)
    with eq w have tc': "tc' = ?tc1" by (simp add: bindS_def)
    have "routes_inv fmt True ?tc1" using inv1 2(2) by (rule routes_inv_stored) simp
    then show ?thesis using 2 kept [OF _ 2(2), of _ _ "tc_routes tc"] by (simp add: tc' routes_step_def)
  next
    case 3
    have tc': "tc' = ?tc1\<lparr>tc_routes := js_delete u (tc_routes tc)\<rparr>" using eq w 3 by (simp add: bindS_def)
    have "js_get (js_delete u (tc_routes tc)) = route_of ?rs" if "\<not> lost"
      by (auto simp: routes_inv_agree [OF inv that rs] js_map route_of_filter fun_eq_iff)
    with inv1 3(2) have "routes_inv fmt lost tc'"
      unfolding tc' by (intro routes_inv_write)
        (use routes_inv_memory [OF inv] in \<open>auto simp: js_map split: if_splits\<close>)
    then show ?thesis using 3 kept [OF _ 3(2), of _ _ "js_delete u (tc_routes tc)"]
      by (simp add: tc' routes_step_def js_map)
  qed
qed

lemma releaseAmbiguous_refused:
  "persisted \<or> attempted \<or> (\<exists>e. requireAttemptGroup rv tc = Inl e) \<Longrightarrow>
   snd (releaseAmbiguous fmt answer rv persisted attempted tc) = tc"
  unfolding releaseAmbiguous_def by (elim disjE exE) simp_all

lemma releaseAmbiguous_free:
  assumes g: "requireAttemptGroup rv tc = Inr (g, a)" "ag_attempts g - {a} = {}" "\<not> ag_protected g"
      "ag_releasable g"
    and rs: "readCatalog fmt tc = Inr rs" and u: "tk_taskId (ag_route g) = u"
  shows "releaseAmbiguous fmt answer rv False False tc =
    (let tc1 = tc\<lparr>tc_groups := js_delete u (tc_groups tc)\<rparr> in
     case route_of rs u of
       None \<Rightarrow> (Inr False, tc1)
     | Some current \<Rightarrow>
         if tk_state current \<noteq> Ambiguous \<or> \<not> sameRouteRecord current (ag_route g)
         then (Inr False, tc1)
         else bindS (writeCatalog fmt answer (filter (\<lambda>r. tk_taskId r \<noteq> u) rs)) (\<lambda>_ tc2.
                (Inr True, tc2\<lparr>tc_routes := js_delete u (tc_routes tc2)\<rparr>)) tc1)"
proof (cases "route_of rs u")
  case None
  then have "find (\<lambda>r. tk_taskId r = u) rs = None" by (simp add: route_of_def)
  then show ?thesis using g rs None by (simp add: releaseAmbiguous_def Let_def u)
next
  case (Some r)
  then have "find (\<lambda>r. tk_taskId r = u) rs = Some r" "tk_taskId r = u"
    using route_of_id [OF Some] by (simp_all add: route_of_def)
  then show ?thesis using g rs Some by (simp add: releaseAmbiguous_def Let_def u)
qed

lemma releaseAmbiguous_step:
  assumes fmt: "uuids_regular fmt" and inv: "routes_inv fmt lost tc"
  shows "routes_step fmt (lost \<or> answer = Update_Then_Refused) tc
    (snd (releaseAmbiguous fmt answer rv persisted attempted tc))"
proof (cases "persisted \<or> attempted \<or> (\<exists>e. requireAttemptGroup rv tc = Inl e)")
  case True
  then show ?thesis by (simp only: releaseAmbiguous_refused) (rule routes_step_lost [OF inv], simp)
next
  case False
  then obtain g a where ga: "requireAttemptGroup rv tc = Inr (g, a)"
    by (cases "requireAttemptGroup rv tc") auto
  let ?u = "tk_taskId (rv_route rv)" and ?lost = "lost \<or> answer = Update_Then_Refused"
  note g = requireAttemptGroup_Inr [OF inv ga]
  have names: "js_get (tc_groups tc) t = Some g' \<Longrightarrow> tk_taskId (ag_route g') = t" for t g'
    using inv by (simp add: routes_inv_def)
  let ?set = "js_set ?u (g\<lparr>ag_attempts := ag_attempts g - {a}\<rparr>) (tc_groups tc)"
  let ?del = "js_delete ?u (tc_groups tc)"
  have set_step: "routes_step fmt lost tc (tc\<lparr>tc_groups := ?set\<rparr>)"
    using inv by (rule routes_step_groups)
      (auto simp: js_map g(1,2) releasable_def dest: names split: if_splits)
  have del_names: "js_get ?del t = Some g' \<Longrightarrow> tk_taskId (ag_route g') = t" for t g'
    by (auto simp: js_map dest: names split: if_splits)
  have del_rel: "releasable (tc\<lparr>tc_groups := ?del\<rparr>) t \<Longrightarrow> releasable tc t" for t
    by (auto simp: js_map releasable_def split: if_splits)
  have del_step: "routes_step fmt lost tc (tc\<lparr>tc_groups := ?del\<rparr>)"
    using inv del_names del_rel by (rule routes_step_groups)
  have weak: "routes_step fmt lost tc tc' \<Longrightarrow> routes_step fmt ?lost tc tc'" for tc'
    by (auto simp: routes_step_def intro: routes_inv_lost)
  obtain rs where rs: "readCatalog fmt tc = Inr rs" using inv by (auto simp: routes_inv_def)
  let ?out = "releaseAmbiguous fmt answer rv persisted attempted tc"
  show ?thesis
  proof (cases "ag_attempts g - {a} \<noteq> {} \<or> ag_protected g \<or> \<not> ag_releasable g")
    case True
    then have "snd ?out = tc\<lparr>tc_groups := ?set\<rparr> \<or> snd ?out = tc\<lparr>tc_groups := ?del\<rparr>"
      using False ga g(2) by (simp add: releaseAmbiguous_def Let_def)
    with weak [OF set_step] weak [OF del_step] show ?thesis by metis
  next
    case free: False
    then have rel: "releasable tc ?u" by (simp add: releasable_def g(1))
    have out: "?out = (let tc1 = tc\<lparr>tc_groups := ?del\<rparr> in
       case route_of rs ?u of
         None \<Rightarrow> (Inr False, tc1)
       | Some current \<Rightarrow>
           if tk_state current \<noteq> Ambiguous \<or> \<not> sameRouteRecord current (ag_route g)
           then (Inr False, tc1)
           else bindS (writeCatalog fmt answer (filter (\<lambda>r. tk_taskId r \<noteq> ?u) rs)) (\<lambda>_ tc2.
                  (Inr True, tc2\<lparr>tc_routes := js_delete ?u (tc_routes tc2)\<rparr>)) tc1)"
      using releaseAmbiguous_free [OF ga _ _ _ rs g(2), of answer] free False by simp
    show ?thesis
    proof (cases "\<exists>r0. route_of rs ?u = Some r0 \<and> tk_state r0 = Ambiguous \<and> sameRouteRecord r0 (ag_route g)")
      case True
      then obtain r0 where r0: "route_of rs ?u = Some r0" "tk_state r0 = Ambiguous"
        "sameRouteRecord r0 (ag_route g)" by blast
      obtain res tc' where eq: "bindS (writeCatalog fmt answer (filter (\<lambda>r. tk_taskId r \<noteq> ?u) rs)) (\<lambda>_ tc2.
          (Inr True, tc2\<lparr>tc_routes := js_delete ?u (tc_routes tc2)\<rparr>)) (tc\<lparr>tc_groups := ?del\<rparr>) = (res, tc')"
        by fastforce
      from removal_step [OF fmt inv rs r0(1,2) rel del_names del_rel eq]
      show ?thesis using r0 eq by (simp add: out Let_def)
    next
      case False
      then have "snd ?out = tc\<lparr>tc_groups := ?del\<rparr>"
        by (auto simp: out Let_def split: option.split)
      with weak [OF del_step] show ?thesis by simp
    qed
  qed
qed

lemma mark_route_step:
  assumes fmt: "uuids_regular fmt" and inv: "routes_inv fmt lost tc"
    and route: "js_get (tc_routes tc) t = Some route"
  shows "routes_step fmt (lost \<or> answer = Update_Then_Refused) tc
    (snd (mark_route fmt answer route st terminalAt tc))"
proof -
  let ?lost = "lost \<or> answer = Update_Then_Refused"
  obtain rs where rs: "readCatalog fmt tc = Inr rs" using inv by (auto simp: routes_inv_def)
  note same = routes_step_lost [OF inv, of ?lost]
  show ?thesis
  proof (cases "tk_state route = Route_Status st \<and> tk_terminalAt route = terminalAt
      \<or> taskRouteRecordSchema fmt (route\<lparr>tk_state := Route_Status st, tk_terminalAt := terminalAt\<rparr>) = None")
    case True
    with same show ?thesis by (auto simp: mark_route_def)
  next
    case False
    then obtain v where v: "taskRouteRecordSchema fmt (route\<lparr>tk_state := Route_Status st, tk_terminalAt := terminalAt\<rparr>) = Some v"
      by blast
    let ?rs = "map (\<lambda>c. if tk_taskId c = tk_taskId v then v else c) rs"
    let ?tc1 = "tc\<lparr>tc_stored := Some (Routes_Value ?rs)\<rparr>"
    have ok: "route_catalog_ok fmt rs" by (rule readCatalog_ok [OF fmt rs])
    have routes: "list_all (route_ok fmt) ?rs"
      using ok route_schema_ok [OF fmt v] by (auto simp: route_catalog_ok_def list_all_iff)
    have mem: "route_ok fmt route" "tk_taskId route = t"
      using routes_inv_memory [OF inv route] by simp_all
    then have fixed: "lower_route route = route"
      by (simp add: route_ok_def taskRouteRecordSchema_def split: if_splits)
    have "v = lower_route (route\<lparr>tk_state := Route_Status st, tk_terminalAt := terminalAt\<rparr>)"
      using v by (simp add: taskRouteRecordSchema_def split: if_split_asm)
    also have "\<dots> = (lower_route route)\<lparr>tk_state := Route_Status st, tk_terminalAt := terminalAt\<rparr>"
      by (simp add: lower_route_def)
    finally have bound: "tk_taskId v = t" "binding v = binding route"
      using mem(2) by (simp_all add: fixed binding_def)
    have v_state: "tk_state v = Route_Status st"
      using v by (auto simp: taskRouteRecordSchema_def split: if_splits)
    have kept: "route_kept fmt tc (?tc1\<lparr>tc_routes := m\<rparr>) u r"
      if r: "stored_route fmt tc u = Some r" and cat: "route_catalog_ok fmt ?rs"
        and m: "js_get m = js_get (tc_routes tc) \<or> js_get m = (js_get (tc_routes tc))(t \<mapsto> v)" for u r m
    proof (cases "u = t")
      case True
      have "known_as tc t r \<Longrightarrow> binding v = binding r" using route bound(2) by (simp add: known_as_def)
      moreover have "known_as (?tc1\<lparr>tc_routes := m\<rparr>) t v"
        using m route bound(2) by (auto simp: known_as_def)
      moreover have "stored_route fmt (?tc1\<lparr>tc_routes := m\<rparr>) t = Some v"
      proof -
        have "stored_route fmt (?tc1\<lparr>tc_routes := m\<rparr>) t = route_of ?rs t"
          using stored_route_stored [OF cat] by simp
        also have "\<dots> = Some v"
          by (subst route_of_map) (use r True bound(1) in \<open>simp add: stored_route_read [OF rs]\<close>)
        finally show ?thesis .
      qed
      ultimately show ?thesis using v_state True by (simp add: route_kept_def)
    next
      case False
      moreover have "stored_route fmt (?tc1\<lparr>tc_routes := m\<rparr>) u = route_of ?rs u"
        using stored_route_stored [OF cat] by simp
      moreover have "route_of ?rs u = route_of rs u"
        by (subst route_of_map) (use False bound(1) in simp)
      moreover have "js_get m u = js_get (tc_routes tc) u" using m False by auto
      ultimately show ?thesis using r
        by (intro route_kept_same) (simp_all add: stored_route_read [OF rs] known_as_def)
    qed
    obtain r1 tc1 where w: "writeCatalog fmt answer ?rs tc = (r1, tc1)" by fastforce
    have out: "snd (mark_route fmt answer route st terminalAt tc)
        = (case r1 of Inl _ \<Rightarrow> tc1 | Inr _ \<Rightarrow> tc1\<lparr>tc_routes := js_set (tk_taskId v) v (tc_routes tc1)\<rparr>)"
      using False v rs w by (cases r1) (auto simp: mark_route_def bindS_def)
    from routes w show ?thesis
    proof (cases rule: write_catalog_cases)
      case (1 e)
      with same out show ?thesis by simp
    next
      case (2 e)
      have "routes_inv fmt True ?tc1" using inv 2(2) by (rule routes_inv_stored) simp
      then show ?thesis using 2 out kept [OF _ 2(2), of _ _ "tc_routes tc"] by (simp add: routes_step_def)
    next
      case 3
      have "js_get (js_set t v (tc_routes tc)) = route_of ?rs" if "\<not> lost"
      proof
        fix u
        have "route_of ?rs u = (if u = t \<and> route_of rs u \<noteq> None then Some v else route_of rs u)"
          by (subst route_of_map) (simp add: bound(1))
        then show "js_get (js_set t v (tc_routes tc)) u = route_of ?rs u"
          using route by (simp add: js_map routes_inv_agree [OF inv that rs])
      qed
      with inv 3(2) have "routes_inv fmt lost (?tc1\<lparr>tc_routes := js_set t v (tc_routes tc)\<rparr>)"
        by (intro routes_inv_write)
          (use routes_inv_memory [OF inv] route_schema_ok [OF fmt v] bound(1) in \<open>auto simp: js_map split: if_splits\<close>)
      moreover have "route_kept fmt tc (?tc1\<lparr>tc_routes := js_set t v (tc_routes tc)\<rparr>) u r"
        if "stored_route fmt tc u = Some r" for u r
        using that 3(2) by (rule kept) (simp add: js_map fun_eq_iff)
      ultimately have "routes_step fmt lost tc (?tc1\<lparr>tc_routes := js_set t v (tc_routes tc)\<rparr>)"
        by (simp only: routes_step_def) blast
      moreover have "snd (mark_route fmt answer route st terminalAt tc)
          = ?tc1\<lparr>tc_routes := js_set t v (tc_routes tc)\<rparr>"
        using out 3 by (simp only: sum.case bound(1)) simp
      ultimately show ?thesis using 3(3) by simp
    qed
  qed
qed

lemma fold_set_get:
  "distinct (map tk_taskId rs) \<Longrightarrow>
   js_get (fold (\<lambda>r. js_set (tk_taskId r) r) rs m) t
   = (case route_of rs t of None \<Rightarrow> js_get m t | Some r \<Rightarrow> Some r)"
proof (induction rs arbitrary: m)
  case (Cons r rs)
  have "route_of rs (tk_taskId r) = None" using Cons.prems by (simp add: route_of_None)
  then show ?case using Cons by (auto simp: js_map split: option.split)
qed simp

lemma restart_step:
  assumes fmt: "uuids_regular fmt" and inv: "routes_inv fmt lost tc"
  obtains tc' where "new_route_catalog fmt (tc_stored tc) = Inr tc'" "routes_step fmt False tc tc'"
proof -
  obtain rs where rs: "readCatalog fmt tc = Inr rs" using inv by (auto simp: routes_inv_def)
  define tc' where "tc' = \<lparr>tc_stored = tc_stored tc,
    tc_routes = fold (\<lambda>r. js_set (tk_taskId r) r) rs [], tc_groups = [], tc_nextAttemptId = 1\<rparr>"
  have read: "readCatalog fmt tc' = Inr rs" using rs by (simp add: readCatalog_def tc'_def)
  have new: "new_route_catalog fmt (tc_stored tc) = Inr tc'"
    using rs by (simp add: new_route_catalog_def Let_def readCatalog_def tc'_def)
  have "distinct (map tk_taskId rs)" using readCatalog_ok [OF fmt rs] by (simp add: route_catalog_ok_def)
  then have memory: "js_get (tc_routes tc') = route_of rs"
    by (auto simp: tc'_def fold_set_get fun_eq_iff split: option.split)
  have "route_ok fmt r \<and> tk_taskId r = t" if "route_of rs t = Some r" for t r
    using route_of_id [OF that] readCatalog_ok [OF fmt rs] by (simp add: route_catalog_ok_def list_all_iff)
  with memory have "routes_inv fmt False tc'"
    by (simp add: routes_inv_def read stored_route_read [OF read]) (simp add: tc'_def)
  moreover have "\<not> releasable tc' t" for t by (simp add: releasable_def tc'_def)
  ultimately have "routes_step fmt False tc tc'"
    using memory
    by (auto simp: routes_step_def known_as_def stored_route_read [OF rs] stored_route_read [OF read]
        intro!: route_kept_same)
  with new show ?thesis by (rule that)
qed

section \<open>Histories keep the routes\<close>

text \<open>
  Whether a write was stored and then refused since the catalogue was last built from the store.
\<close>

fun lost_after :: "route_event \<Rightarrow> bool \<Rightarrow> bool" where
  "lost_after (now, answer, Restart_Catalog) lost = False"
| "lost_after (now, answer, call) lost = (lost \<or> answer = Update_Then_Refused)"

lemma route_step_ok:
  assumes fmt: "uuids_regular (tq_formats cfg)" and inv: "routes_inv (tq_formats cfg) lost tc"
  shows "routes_step (tq_formats cfg) (lost_after (now, answer, call) lost) tc (route_step cfg (now, answer, call) tc)"
proof (cases "call = Restart_Catalog")
  case True
  from restart_step [OF fmt inv] obtain tc' where
    "new_route_catalog (tq_formats cfg) (tc_stored tc) = Inr tc'" "routes_step (tq_formats cfg) False tc tc'" .
  with True show ?thesis by simp
next
  case False
  note same = routes_step_lost [OF inv, of "lost \<or> answer = Update_Then_Refused"]
  have mark: "routes_step (tq_formats cfg) (lost \<or> answer = Update_Then_Refused) tc
      (snd (bindS (mark_route (tq_formats cfg) answer r st at) (\<lambda>_. liftS (Inr ())) tc))"
    if "js_get (tc_routes tc) t = Some r" for t r st at
  proof -
    have "snd (bindS m (\<lambda>_. liftS (Inr ())) tc) = snd (m tc)" for m :: "route_record route_op"
      by (simp add: bindS_def liftS_def split: prod.split sum.split)
    then show ?thesis using mark_route_step [OF fmt inv that] by simp
  qed
  show ?thesis
  proof (cases call)
    case (Reserve_Local input nodeId peerId asAttempt)
    then show ?thesis using same reserveCore_step [OF fmt inv]
      by (cases "localRoute (tq_formats cfg) nodeId peerId") (simp_all add: reserve_local_def liftS_def)
  next
    case (Reserve_Remote input peerId sourceNodeId asAttempt)
    then show ?thesis using same reserveCore_step [OF fmt inv]
      by (cases "remoteRoute (tq_formats cfg) peerId sourceNodeId") (simp_all add: reserve_remote_def liftS_def)
  next
    case (Retain_Ambiguous rv)
    have "routes_step (tq_formats cfg) lost tc (snd (retainAmbiguous rv tc))" by (rule retainAmbiguous_step(1) [OF inv])
    then show ?thesis using Retain_Ambiguous by (auto simp: routes_step_def intro: routes_inv_lost)
  next
    case (Release_Ambiguous rv persisted attempted)
    then show ?thesis using releaseAmbiguous_step [OF fmt inv] by simp
  next
    case (Mark_Snapshot snapshot)
    then show ?thesis using same mark_route_step [OF fmt inv]
      by (simp add: markSnapshot_def split: option.split)
  next
    case (Mark_State taskId st updatedAt)
    then show ?thesis using same mark by (simp add: markState_def split: option.split)
  next
    case Restart_Catalog
    with False show ?thesis by simp
  qed
qed

lemma run_ok:
  assumes "uuids_regular (tq_formats cfg)" "routes_inv (tq_formats cfg) lost tc"
  shows "routes_inv (tq_formats cfg) (fold lost_after es lost) (fold (route_step cfg) es tc)"
  using assms
proof (induction es arbitrary: lost tc)
  case (Cons e es)
  obtain now answer call where e: "e = (now, answer, call)" by (cases e)
  from route_step_ok [OF Cons.prems, of now answer call]
  have "routes_inv (tq_formats cfg) (lost_after e lost) (route_step cfg e tc)"
    by (simp add: e routes_step_def)
  with Cons.IH [OF Cons.prems(1)] show ?case by simp
qed simp

lemma new_catalog_ok:
  assumes "uuids_regular fmt" "new_route_catalog fmt stored = Inr tc"
  shows "routes_inv fmt False tc"
proof -
  obtain rs where rs: "readCatalog fmt \<lparr>tc_stored = stored, tc_routes = [], tc_groups = [], tc_nextAttemptId = 1\<rparr> = Inr rs"
    using assms(2) by (auto simp: new_route_catalog_def Let_def bindR_Inr_conv)
  let ?tc = "\<lparr>tc_stored = stored, tc_routes = [], tc_groups = [], tc_nextAttemptId = 1\<rparr>"
  have tc: "tc = ?tc\<lparr>tc_routes := fold (\<lambda>r. js_set (tk_taskId r) r) rs []\<rparr>"
    using assms(2) rs by (simp add: new_route_catalog_def Let_def)
  then have read: "readCatalog fmt tc = Inr rs" using rs by (simp add: readCatalog_def)
  have "distinct (map tk_taskId rs)" using readCatalog_ok [OF assms(1) rs] by (simp add: route_catalog_ok_def)
  then have "js_get (tc_routes tc) = route_of rs"
    by (auto simp: tc fold_set_get fun_eq_iff split: option.split)
  moreover have "route_ok fmt r \<and> tk_taskId r = t" if "route_of rs t = Some r" for t r
    using route_of_id [OF that] readCatalog_ok [OF assms(1) rs] by (simp add: route_catalog_ok_def list_all_iff)
  ultimately show ?thesis by (simp add: routes_inv_def read stored_route_read [OF read]) (simp add: tc)
qed

text \<open>A route no call may take away: it follows its task already, or no attempt can undo it.\<close>

definition pinned :: "formats \<Rightarrow> route_catalog \<Rightarrow> string \<Rightarrow> route_record \<Rightarrow> bool" where
  "pinned fmt tc t b \<longleftrightarrow>
     (\<exists>r. stored_route fmt tc t = Some r \<and> binding r = b \<and> known_as tc t r
          \<and> (tk_state r \<noteq> Ambiguous \<or> \<not> releasable tc t))"

lemma pinned_step:
  assumes "routes_step fmt lost tc tc'" "pinned fmt tc t b"
    "\<And>r. stored_route fmt tc t = Some r \<Longrightarrow> \<not> isTerminal (tk_state r)"
  shows "pinned fmt tc' t b"
  using assms unfolding pinned_def routes_step_def route_kept_def by fastforce

lemma pinned_run:
  assumes "uuids_regular (tq_formats cfg)" "routes_inv (tq_formats cfg) lost tc"
    "pinned (tq_formats cfg) tc t b"
    "\<And>n r. n < length es \<Longrightarrow> stored_route (tq_formats cfg) (fold (route_step cfg) (take n es) tc) t = Some r \<Longrightarrow>
       \<not> isTerminal (tk_state r)"
  shows "pinned (tq_formats cfg) (fold (route_step cfg) es tc) t b"
  using assms(2-)
proof (induction es arbitrary: lost tc)
  case (Cons e es)
  obtain now answer call where e: "e = (now, answer, call)" by (cases e)
  have step: "routes_step (tq_formats cfg) (lost_after e lost) tc (route_step cfg e tc)"
    using route_step_ok [OF assms(1) Cons.prems(1), of now answer call] by (simp add: e)
  have "pinned (tq_formats cfg) (route_step cfg e tc) t b"
    using step Cons.prems(2) by (rule pinned_step) (use Cons.prems(3) [of 0] in simp)
  moreover have "routes_inv (tq_formats cfg) (lost_after e lost) (route_step cfg e tc)"
    using step by (simp add: routes_step_def)
  ultimately have "pinned (tq_formats cfg) (fold (route_step cfg) es (route_step cfg e tc)) t b"
    using Cons.IH Cons.prems(3) [of "Suc _"] by simp
  then show ?case by simp
qed simp

lemma retain_pins:
  assumes inv: "routes_inv fmt lost tc" and ok: "fst (retainAmbiguous rv tc) = Inr ()"
    and r: "stored_route fmt tc (tk_taskId (rv_route rv)) = Some r"
    and m: "known_as tc (tk_taskId (rv_route rv)) r"
  shows "pinned fmt (snd (retainAmbiguous rv tc)) (tk_taskId (rv_route rv)) (binding r)"
proof -
  have "stored_route fmt (snd (retainAmbiguous rv tc)) = stored_route fmt tc"
    by (simp add: retainAmbiguous_def Let_def split: sum.split prod.split)
  moreover have "known_as (snd (retainAmbiguous rv tc)) = known_as tc"
    by (simp add: retainAmbiguous_def Let_def split: sum.split prod.split)
  ultimately show ?thesis using retainAmbiguous_step(2) [OF inv ok] r m by (auto simp: pinned_def)
qed


section \<open>The hash determines the request and its source\<close>

text \<open>A source as the public operations build it.\<close>

definition authenticated_source :: "formats \<Rightarrow> route_source \<Rightarrow> bool" where
  "authenticated_source fmt route \<longleftrightarrow>
     (\<exists>nodeId peerId. localRoute fmt nodeId peerId = Inr route)
     \<or> (\<exists>peerId sourceNodeId. remoteRoute fmt peerId sourceNodeId = Inr route)"

lemma source_normal:
  assumes "uuids_regular fmt" "authenticated_source fmt route"
  shows "so_peerId route \<noteq> Some []" "so_sourceNodeId route \<noteq> Some []" "so_sourcePeerId route \<noteq> Some []"
    "map_option js_lower (so_peerId route) = so_peerId route"
    "map_option js_lower (so_sourceNodeId route) = so_sourceNodeId route"
    "map_option js_lower (so_sourcePeerId route) = so_sourcePeerId route"
  using assms(2) uuid_not_Nil [OF assms(1)]
  by (auto simp: authenticated_source_def localRoute_def remoteRoute_def uuidSchema_Some opt_all_def
      split: if_splits option.splits)

lemma route_kind_name_inject [simp]: "route_kind_name a = route_kind_name b \<longleftrightarrow> a = b"
  by (cases a; cases b) simp_all

lemma route_fields_inject:
  assumes p: "sources_ok p" "sources_ok q"
    and route: "so_peerId a \<noteq> Some []" "so_sourceNodeId a \<noteq> Some []" "so_sourcePeerId a \<noteq> Some []"
      "so_peerId b \<noteq> Some []" "so_sourceNodeId b \<noteq> Some []" "so_sourcePeerId b \<noteq> Some []"
    and eq: "route_fields p a = route_fields q b"
  shows "p = q \<and> a = b"
proof -
  let ?tail = "\<lambda>p. case rs_continueFromTaskId p of None \<Rightarrow> [] | Some c \<Rightarrow> [''continueFromTaskId'', c]"
  note f = eq [unfolded route_fields_def, simplified]
  have src: "so_peerId a = so_peerId b" "so_sourceNodeId a = so_sourceNodeId b"
    "so_sourcePeerId a = so_sourcePeerId b"
    using f or_empty_inject [OF route(1,4)] or_empty_inject [OF route(2,5)] or_empty_inject [OF route(3,6)] by simp_all
  have "so_routeKind a = so_routeKind b" using f by simp
  with src have ab: "a = b" by simp
  have len: "length (rs_acceptanceCriteria p) = length (rs_acceptanceCriteria q)" using f by simp
  have rest: "rs_acceptanceCriteria p @ rs_workerDeadline p # ?tail p
      = rs_acceptanceCriteria q @ rs_workerDeadline q # ?tail q"
    using f by simp
  with len have crit: "rs_acceptanceCriteria p = rs_acceptanceCriteria q"
      "rs_workerDeadline p = rs_workerDeadline q" "?tail p = ?tail q"
    by simp_all
  have "rs_continueFromTaskId p = rs_continueFromTaskId q"
    using crit(3) by (auto split: option.splits)
  moreover have "rs_target p = rs_target q"
    using f by (cases "rs_target p"; cases "rs_target q") simp
  moreover have "rs_timeoutMinutes p = rs_timeoutMinutes q" using f timeout_inject by simp
  moreover have "rs_sourceNodeId p = rs_sourceNodeId q"
    "rs_sourceWorkspaceIdentity p = rs_sourceWorkspaceIdentity q"
    using f p or_empty_inject unfolding sources_ok_def by blast+
  ultimately show ?thesis using f crit ab by simp
qed

text \<open>A successful reservation returns a route bound to the request.\<close>

lemma reserved_route_bound:
  assumes "uuids_regular (tq_formats cfg)" "routedTaskStartParamsSchema (tq_formats cfg) input = Some p"
    "authenticated_source (tq_formats cfg) route"
    "fst (reserveCore cfg now answer input route asAttempt tc) = Inr rv"
  shows "\<not> bound_elsewhere (rv_route rv) p route (canonicalRouteRequestHash cfg p route)"
proof -
  let ?fmt = "tq_formats cfg" and ?h = "canonicalRouteRequestHash cfg p route"
  obtain rs where rs: "readCatalog ?fmt tc = Inr rs"
    using assms(2,4) by (cases "readCatalog ?fmt tc") (simp_all add: reserveCore_def)
  have rv_route: "rv_route rv = r" if "fst (reservationResult r created asAttempt tc1) = Inr rv" for r created tc1
    using that by (auto simp: reservationResult_eq split: if_splits)
  show ?thesis
  proof (cases "find_by_request p rs")
    case (Some r)
    then show ?thesis using assms(2,4) rs
      by (cases "bound_elsewhere r p route ?h") (auto simp: reserveCore_def dest: rv_route)
  next
    case None
    obtain u where u: "assertContinuationRoute tc p route = Inr u"
      using assms(2,4) rs None by (cases "assertContinuationRoute tc p route") (simp_all add: reserveCore_def)
    obtain retained where cap: "makeCapacity cfg rs = Inr retained"
      using assms(2,4) rs None u by (cases "makeCapacity cfg rs") (simp_all add: reserveCore_def)
    obtain c where c: "taskRouteRecordSchema ?fmt (new_route p route ?h now) = Some c"
      using assms(2,4) rs None u cap
      by (cases "taskRouteRecordSchema ?fmt (new_route p route ?h now)") (simp_all add: reserveCore_def)
    have "rv_route rv = c"
      using assms(2,4) rs None u cap c
      by (auto simp: reserveCore_def bindS_def split: prod.splits sum.splits dest: rv_route)
    moreover have "c = lower_route (new_route p route ?h now)" using new_route_binding [OF c] by simp
    moreover have "lower_route (new_route p route ?h now) = new_route p route ?h now"
      using parsed_ids [OF assms(2)] source_normal(4-6) [OF assms(1,3)] by (simp add: lower_route_def new_route_def)
    ultimately show ?thesis by (simp add: bound_elsewhere_def new_route_def sameTarget_def)
  qed
qed

lemma bound_elsewhere_binding:
  assumes "binding r = binding r'"
  shows "bound_elsewhere r = bound_elsewhere r'"
proof -
  have "bound_elsewhere x = bound_elsewhere (binding x)" for x
    by (simp add: bound_elsewhere_def binding_def fun_eq_iff)
  then show ?thesis using assms by metis
qed

lemma find_bound:
  assumes ok: "route_catalog_ok fmt rs" and r: "r \<in> set rs"
    and b: "tk_taskId r = rs_taskId p" "tk_delegationRequestId r = rs_delegationRequestId p"
      "tk_sourceWorkspaceIdentity r = rs_sourceWorkspaceIdentity p"
  shows "find_by_request p rs = Some r"
proof -
  obtain x where x: "find_by_request p rs = Some x"
    using r b(1) by (cases "find_by_request p rs") (auto simp: find_by_request_def find_None_iff_all)
  then have "x \<in> set rs" "tk_taskId x = tk_taskId r \<or> delegation_key x = delegation_key r"
    by (auto simp: find_by_request_def b delegation_key_def dest!: find_Some_mem)
  then have "x = r" using ok r by (auto simp: route_catalog_ok_def distinct_map dest: inj_onD)
  with x show ?thesis by simp
qed

section \<open>Properties\<close>

text \<open>
  C38. The catalogue stays well formed. Starting from a stored catalogue the constructor accepts,
  after any history of reservations, withdrawals, state changes and restarts, whatever the state
  store answers to each write, the stored catalogue can be read, holds at most a thousand routes,
  each of which satisfies the record schema and is in its normal form, with unique task ids and
  unique delegation ids per source; every route in memory satisfies the schema and is filed under
  its task id; and if since the last restart no write was stored and then refused, the routes in
  memory are exactly the stored ones. After a write that was stored and then refused they may
  differ until the next restart.
\<close>
theorem route_catalog_well_formed:
  assumes "uuids_regular (tq_formats cfg)" "new_route_catalog (tq_formats cfg) stored = Inr tc0"
  shows "\<exists>rs. readCatalog (tq_formats cfg) (fold (route_step cfg) es tc0) = Inr rs
    \<and> length rs \<le> 1000 \<and> (\<forall>r \<in> set rs. taskRouteRecordSchema (tq_formats cfg) r = Some r)
    \<and> distinct (map tk_taskId rs) \<and> distinct (map delegation_key rs)
    \<and> (\<forall>t r. js_get (tc_routes (fold (route_step cfg) es tc0)) t = Some r \<longrightarrow>
         tk_taskId r = t \<and> taskRouteRecordSchema (tq_formats cfg) r = Some r)
    \<and> (\<not> fold lost_after es False \<longrightarrow>
         (\<forall>t. js_get (tc_routes (fold (route_step cfg) es tc0)) t = find (\<lambda>r. tk_taskId r = t) rs))"
proof -
  let ?tc = "fold (route_step cfg) es tc0"
  have inv: "routes_inv (tq_formats cfg) (fold lost_after es False) ?tc"
    by (rule run_ok [OF assms(1) new_catalog_ok [OF assms(1,2)]])
  then obtain rs where rs: "readCatalog (tq_formats cfg) ?tc = Inr rs" by (auto simp: routes_inv_def)
  have "length rs \<le> 1000" "\<forall>r \<in> set rs. taskRouteRecordSchema (tq_formats cfg) r = Some r"
    "distinct (map tk_taskId rs)" "distinct (map delegation_key rs)"
    using readCatalog_ok [OF assms(1) rs]
    by (simp_all add: route_catalog_ok_def TASK_ROUTE_CATALOG_LIMIT_def list_all_iff route_ok_def)
  moreover have "tk_taskId r = t \<and> taskRouteRecordSchema (tq_formats cfg) r = Some r"
    if "js_get (tc_routes ?tc) t = Some r" for t r
    using routes_inv_memory [OF inv that] by (simp add: route_ok_def)
  moreover have "js_get (tc_routes ?tc) t = find (\<lambda>r. tk_taskId r = t) rs" if "\<not> fold lost_after es False" for t
    by (simp add: routes_inv_agree [OF inv that rs] route_of_def)
  ultimately show ?thesis using rs by blast
qed

text \<open>
  C5. A dispatch that may have happened is never forgotten. After any history, let an attempt on a
  stored route be retained as ambiguous, while memory, when it knows the task, knows it by the
  stored route's binding (as it does unless a write was stored and then refused since the last
  restart). Then no later history, with other attempts released as never dispatched, other routes
  reserved, restarts, and writes refused before or after they were stored, takes the route out of
  the stored catalogue or rebinds its task id to another request, target or source, as long as
  the stored route is not terminal when a call of that history begins.
\<close>
theorem retained_route_never_forgotten:
  assumes "uuids_regular (tq_formats cfg)" "new_route_catalog (tq_formats cfg) stored = Inr tc0"
    and "fst (retainAmbiguous rv (fold (route_step cfg) es0 tc0)) = Inr ()"
    and "find (\<lambda>r. tk_taskId r = t) (routes_of (tq_formats cfg) (fold (route_step cfg) es0 tc0)) = Some r"
    and "tk_taskId (rv_route rv) = t"
    and "\<And>m. js_get (tc_routes (fold (route_step cfg) es0 tc0)) t = Some m \<Longrightarrow> binding m = binding r"
    and "\<And>n r'. n < length es \<Longrightarrow>
      find (\<lambda>r. tk_taskId r = t) (routes_of (tq_formats cfg)
        (fold (route_step cfg) (es0 @ (now, answer, Retain_Ambiguous rv) # take n es) tc0)) = Some r' \<Longrightarrow>
      \<not> isTerminal (tk_state r')"
  shows "\<exists>r'. find (\<lambda>r. tk_taskId r = t) (routes_of (tq_formats cfg)
        (fold (route_step cfg) (es0 @ (now, answer, Retain_Ambiguous rv) # es) tc0)) = Some r'
      \<and> binding r' = binding r"
proof -
  let ?fmt = "tq_formats cfg" and ?tc = "fold (route_step cfg) es0 tc0"
  let ?e = "(now, answer, Retain_Ambiguous rv)"
  have inv: "routes_inv ?fmt (fold lost_after es0 False) ?tc"
    by (rule run_ok [OF assms(1) new_catalog_ok [OF assms(1,2)]])
  have step: "routes_step ?fmt (lost_after ?e (fold lost_after es0 False)) ?tc (route_step cfg ?e ?tc)"
    by (rule route_step_ok [OF assms(1) inv])
  have "pinned ?fmt (route_step cfg ?e ?tc) t (binding r)"
    using retain_pins [OF inv assms(3)] assms(4-6) by (simp add: stored_route_def route_of_def known_as_def)
  then have "pinned ?fmt (fold (route_step cfg) es (route_step cfg ?e ?tc)) t (binding r)"
    using step assms(7)
    by (intro pinned_run [OF assms(1)]) (auto simp: routes_step_def stored_route_def route_of_def)
  then show ?thesis by (simp add: pinned_def stored_route_def route_of_def) blast
qed

text \<open>
  C39. A task id names one request. Once a reservation for a request from a source has returned a
  route, then for as long as that route is stored, however its task went on: the same request
  from the same source is answered with the stored route again, and any other request or source
  that uses its task id, or its delegation id within the same workspace, is refused as an
  idempotency conflict. The digest is assumed not to collide on the two encoded requests.
\<close>
theorem task_id_names_one_request:
  assumes "uuids_regular (tq_formats cfg)"
    and "routedTaskStartParamsSchema (tq_formats cfg) input = Some p"
    and "authenticated_source (tq_formats cfg) route"
    and "fst (reserveCore cfg now answer input route asAttempt tc) = Inr rv"
    and "find (\<lambda>r. tk_taskId r = rs_taskId p) (routes_of (tq_formats cfg) tc') = Some r"
    and "binding r = binding (rv_route rv)"
    and "routedTaskStartParamsSchema (tq_formats cfg) input' = Some p'"
    and "authenticated_source (tq_formats cfg) route'"
    and "rs_taskId p' = rs_taskId p
      \<or> rs_delegationRequestId p' = rs_delegationRequestId p
         \<and> rs_sourceWorkspaceIdentity p' = rs_sourceWorkspaceIdentity p"
    and "no_collision (tq_digest cfg) (route_fields p' route') (route_fields p route)"
  shows "fst (reserveCore cfg now' answer' input' route' asAttempt' tc') =
    (if p' = p \<and> route' = route
     then Inr \<lparr>rv_route = r, rv_attemptId = (if asAttempt' then Some (tc_nextAttemptId tc') else None)\<rparr>
     else Inl (mesh_fail IDEMPOTENCY_CONFLICT))"
proof -
  let ?fmt = "tq_formats cfg"
  obtain rs where rs: "readCatalog ?fmt tc' = Inr rs"
    using assms(5) by (cases "readCatalog ?fmt tc'") (simp_all add: routes_of_def)
  have ok: "route_catalog_ok ?fmt rs" by (rule readCatalog_ok [OF assms(1) rs])
  have r: "r \<in> set rs" using assms(5) find_Some_mem by (fastforce simp: routes_of_def rs)
  have b: "\<not> bound_elsewhere r p route (canonicalRouteRequestHash cfg p route)"
    using reserved_route_bound [OF assms(1-4)] bound_elsewhere_binding [OF assms(6)] by simp
  show ?thesis
  proof (cases "p' = p \<and> route' = route")
    case True
    have "find_by_request p rs = Some r" using ok r by (rule find_bound) (use b in \<open>auto simp: bound_elsewhere_def\<close>)
    with True b rs assms(7) show ?thesis by (simp add: reserveCore_def reservationResult_eq)
  next
    case False
    have clash: "r \<in> set rs \<and> (tk_taskId r = rs_taskId p' \<or> tk_delegationRequestId r = rs_delegationRequestId p'
        \<and> tk_sourceWorkspaceIdentity r = rs_sourceWorkspaceIdentity p')"
      using r b assms(9) by (auto simp: bound_elsewhere_def)
    then obtain x where x: "find_by_request p' rs = Some x"
      by (cases "find_by_request p' rs") (auto simp: find_by_request_def find_None_iff_all)
    have "bound_elsewhere x p' route' (canonicalRouteRequestHash cfg p' route')"
    proof (rule ccontr)
      assume n: "\<not> bound_elsewhere x p' route' (canonicalRouteRequestHash cfg p' route')"
      have "x \<in> set rs" using x by (auto simp: find_by_request_def dest: find_Some_mem)
      moreover have "tk_taskId x = tk_taskId r \<or> delegation_key x = delegation_key r"
        using n clash by (auto simp: bound_elsewhere_def delegation_key_def)
      ultimately have "x = r" using ok r by (auto simp: route_catalog_ok_def distinct_map dest: inj_onD)
      with n b have "tq_digest cfg (encode_fields (route_fields p' route')) = tq_digest cfg (encode_fields (route_fields p route))"
        by (auto simp: bound_elsewhere_def canonicalRouteRequestHash_def)
      with assms(10) have "route_fields p' route' = route_fields p route" by (simp add: no_collision_def)
      from route_fields_inject [OF _ _ _ _ _ _ _ _ this]
      show False using False routed_schema_sources [OF assms(1,2)] routed_schema_sources [OF assms(1,7)]
          source_normal(1-3) [OF assms(1,3)] source_normal(1-3) [OF assms(1,8)] by blast
    qed
    with False x rs assms(7) show ?thesis by (auto simp: reserveCore_def)
  qed
qed

section \<open>An example\<close>

definition parity_digest :: "string \<Rightarrow> string" where
  "parity_digest s = replicate 64 (if even (length s) then CHR ''0'' else CHR ''1'')"

definition sample_routes :: route_config where
  "sample_routes = \<lparr>tq_formats = sample_formats, tq_digest = parity_digest,
     tq_localeCompare = (\<lambda>a b. if a = b then 0 else if ord_class.lexordp a b then - 1 else 1)\<rparr>"

definition sample_source :: route_source where
  "sample_source = \<lparr>so_routeKind = Local_Route, so_peerId = None,
     so_sourceNodeId = Some (sample_id (CHR ''e'')), so_sourcePeerId = None\<rparr>"

definition sample_route :: route_record where
  "sample_route = new_route (or_params sample_routed) sample_source
     (canonicalRouteRequestHash sample_routes (or_params sample_routed) sample_source) 0"

definition empty_catalog :: route_catalog where
  "empty_catalog = \<lparr>tc_stored = None, tc_routes = [], tc_groups = [], tc_nextAttemptId = 1\<rparr>"

definition reserved_catalog :: route_catalog where
  "reserved_catalog = \<lparr>tc_stored = Some (Routes_Value [sample_route]),
     tc_routes = [(tk_taskId sample_route, sample_route)],
     tc_groups = [(tk_taskId sample_route, \<lparr>ag_route = sample_route, ag_attempts = {1},
        ag_releasable = True, ag_protected = False\<rparr>)], tc_nextAttemptId = 2\<rparr>"

lemma sample_local: "localRoute sample_formats (Some (sample_id (CHR ''e''))) None = Inr sample_source"
  by (simp add: localRoute_def sample_source_def opt_all_def)

lemma sample_parsed: "routedTaskStartParamsSchema sample_formats (or_params sample_routed) = Some (or_params sample_routed)"
  using sample_routed_normal by (simp add: normalizeRouted_Inr)

lemma sample_route_ok: "taskRouteRecordSchema sample_formats sample_route = Some sample_route"
proof -
  have "hash_format (parity_digest s)" for s
    by (simp add: hash_format_def parity_digest_def list_all_iff is_hex_char_def is_digit_def)
  then show ?thesis using epoch_datetime
    by (simp add: taskRouteRecordSchema_def sample_route_def new_route_def canonicalRouteRequestHash_def
        sample_routes_def sample_source_def sample_routed_def opt_all_def taskTargetSchema_def
        lower_route_def lower_task_target_def)
qed

lemma new_empty: "new_route_catalog sample_formats None = Inr empty_catalog"
  by (simp add: new_route_catalog_def Let_def readCatalog_def empty_catalog_def)

lemma sample_reserve:
  "reserveCore sample_routes 0 Update_Done (or_params sample_routed) sample_source True empty_catalog
   = (Inr \<lparr>rv_route = sample_route, rv_attemptId = Some 1\<rparr>, reserved_catalog)"
proof -
  have "rs_continueFromTaskId (or_params sample_routed) = None" by (simp add: sample_routed_def)
  then show ?thesis
    using sample_route_ok
    by (simp add: reserveCore_def sample_routes_def sample_parsed readCatalog_def empty_catalog_def
        find_by_request_def assertContinuationRoute_def makeCapacity_def TASK_ROUTE_CATALOG_LIMIT_def
        sample_route_def bindS_def writeCatalog_def taskRouteCatalogSchema_def forget_evicted_def
        reservationResult_def reserved_catalog_def)
qed


definition sample_reservation :: reservation where
  "sample_reservation = \<lparr>rv_route = sample_route, rv_attemptId = Some 1\<rparr>"

definition sample_reserve_call :: route_event where
  "sample_reserve_call =
     (0, Update_Done, Reserve_Local (or_params sample_routed) (Some (sample_id (CHR ''e''))) None True)"

lemma sample_formats_of [simp]: "tq_formats sample_routes = sample_formats"
  by (simp add: sample_routes_def)

lemma sample_reserve_step: "route_step sample_routes sample_reserve_call empty_catalog = reserved_catalog"
  by (simp add: sample_reserve_call_def reserve_local_def sample_local sample_reserve)

lemma sample_read: "readCatalog sample_formats reserved_catalog = Inr [sample_route]"
  using sample_route_ok
  by (simp add: readCatalog_def reserved_catalog_def taskRouteCatalogSchema_def TASK_ROUTE_CATALOG_LIMIT_def)

lemma sample_state: "tk_state sample_route = Ambiguous"
  by (simp add: sample_route_def new_route_def)

lemma sample_retain:
  "retainAmbiguous sample_reservation reserved_catalog = (Inr (), reserved_catalog\<lparr>tc_groups := []\<rparr>)"
  by (simp add: retainAmbiguous_def requireAttemptGroup_def sample_reservation_def reserved_catalog_def
      sameRouteRecord_def sameTarget_def)

lemma well_formed_witness:
  "readCatalog sample_formats (fold (route_step sample_routes) [sample_reserve_call] empty_catalog) = Inr [sample_route]
   \<and> js_get (tc_routes (fold (route_step sample_routes) [sample_reserve_call] empty_catalog)) (sample_id (CHR ''a''))
     = Some sample_route"
proof -
  have "new_route_catalog (tq_formats sample_routes) None = Inr empty_catalog" by (simp add: new_empty)
  then have "\<exists>rs. readCatalog (tq_formats sample_routes)
        (fold (route_step sample_routes) [sample_reserve_call] empty_catalog) = Inr rs
      \<and> (\<not> fold lost_after [sample_reserve_call] False \<longrightarrow>
         (\<forall>t. js_get (tc_routes (fold (route_step sample_routes) [sample_reserve_call] empty_catalog)) t
            = find (\<lambda>r. tk_taskId r = t) rs))"
    using route_catalog_well_formed [of sample_routes None empty_catalog "[sample_reserve_call]"]
      sample_uuids_regular by (simp only: sample_formats_of) blast
  moreover have "tk_taskId sample_route = sample_id (CHR ''a'')"
    by (simp add: sample_route_def new_route_def sample_routed_def)
  ultimately show ?thesis
    by (simp add: sample_reserve_step sample_read) (simp add: sample_reserve_call_def)
qed

lemma never_forgotten_witness:
  "\<exists>r'. find (\<lambda>r. tk_taskId r = tk_taskId sample_route) (routes_of sample_formats
        (fold (route_step sample_routes)
          [sample_reserve_call, (0, Update_Done, Retain_Ambiguous sample_reservation),
           (0, Update_Done, Restart_Catalog)] empty_catalog)) = Some r'
    \<and> binding r' = binding sample_route"
proof -
  let ?retain = "(0, Update_Done, Retain_Ambiguous sample_reservation)"
  have "\<exists>r'. find (\<lambda>r. tk_taskId r = tk_taskId sample_route) (routes_of (tq_formats sample_routes)
        (fold (route_step sample_routes) ([sample_reserve_call] @ ?retain # [(0, Update_Done, Restart_Catalog)]) empty_catalog)) = Some r'
      \<and> binding r' = binding sample_route"
  proof (rule retained_route_never_forgotten [where stored = None])
    show "uuids_regular (tq_formats sample_routes)" using sample_uuids_regular by simp
    show "new_route_catalog (tq_formats sample_routes) None = Inr empty_catalog" by (simp add: new_empty)
    show "fst (retainAmbiguous sample_reservation (fold (route_step sample_routes) [sample_reserve_call] empty_catalog)) = Inr ()"
      by (simp add: sample_reserve_step sample_retain)
    show "find (\<lambda>r. tk_taskId r = tk_taskId sample_route)
        (routes_of (tq_formats sample_routes) (fold (route_step sample_routes) [sample_reserve_call] empty_catalog))
      = Some sample_route"
      by (simp add: sample_reserve_step routes_of_def sample_read)
    show "tk_taskId (rv_route sample_reservation) = tk_taskId sample_route"
      by (simp add: sample_reservation_def)
    show "binding m = binding sample_route"
      if "js_get (tc_routes (fold (route_step sample_routes) [sample_reserve_call] empty_catalog))
        (tk_taskId sample_route) = Some m" for m
      using that by (simp add: sample_reserve_step) (simp add: reserved_catalog_def)
    show "\<not> isTerminal (tk_state r')"
      if "n < length [(0 :: int, Update_Done, Restart_Catalog)]"
        "find (\<lambda>r. tk_taskId r = tk_taskId sample_route) (routes_of (tq_formats sample_routes)
          (fold (route_step sample_routes)
            ([sample_reserve_call] @ ?retain # take n [(0, Update_Done, Restart_Catalog)]) empty_catalog)) = Some r'"
      for n r'
      using that by (simp add: sample_reserve_step sample_retain routes_of_def sample_read)
        (auto simp: sample_state)
  qed
  then show ?thesis by simp
qed

lemma one_request_witness:
  "fst (reserveCore sample_routes 5 Update_Done (or_params sample_routed\<lparr>rs_title := ''fixx''\<rparr>) sample_source False
     reserved_catalog) = Inl (mesh_fail IDEMPOTENCY_CONFLICT)"
proof -
  let ?p = "or_params sample_routed" and ?p' = "or_params sample_routed\<lparr>rs_title := ''fixx''\<rparr>"
  have len: "length (encode_fields (route_fields ?p' sample_source)) = Suc (length (encode_fields (route_fields ?p sample_source)))"
    by (simp add: encode_fields_def route_fields_def lengthPrefix_def sample_routed_def show_nat_eval)
  have "no_collision (tq_digest sample_routes) (route_fields ?p' sample_source) (route_fields ?p sample_source)"
    by (simp add: no_collision_def sample_routes_def parity_digest_def len)
  moreover have "routedTaskStartParamsSchema sample_formats ?p' = Some ?p'"
    using sample_parsed by (simp add: routedTaskStartParamsSchema_def sample_routed_def utf8String_def split: if_splits)
  moreover have "authenticated_source sample_formats sample_source"
    using sample_local by (auto simp: authenticated_source_def)
  moreover have "find (\<lambda>r. tk_taskId r = rs_taskId ?p) (routes_of sample_formats reserved_catalog) = Some sample_route"
    by (simp add: routes_of_def sample_read) (simp add: sample_route_def new_route_def)
  moreover have "fst (reserveCore sample_routes 0 Update_Done ?p sample_source True empty_catalog) = Inr sample_reservation"
    by (simp add: sample_reserve sample_reservation_def)
  moreover have "?p' \<noteq> ?p" by (simp add: sample_routed_def)
  ultimately show ?thesis
    using task_id_names_one_request [of sample_routes ?p ?p sample_source 0 Update_Done True empty_catalog
        sample_reservation reserved_catalog sample_route ?p' ?p' sample_source 5 Update_Done False]
      sample_uuids_regular sample_parsed
    by (simp add: sample_reservation_def)
qed

end
