(* ===== verification/Peer_Policy.thy ===== *)
theory Peer_Policy
  imports Task_Store Node_Protocol
begin

text \<open>
  The persisted peer policies of a device (\<open>src/broker/PeerPolicyStore.ts\<close>): for each workspace
  its window name, whether it accepts incoming tasks and its allowlist, in one fenced JSON
  document, with the migration of documents from before the names had to be unique. The Unicode
  operations of JavaScript strings and the check of a window name
  (\<open>validateWindowName\<close>, \<open>src/broker/WindowName.ts\<close>) are components of the configuration;
  what is used of them is stated where it is used. The loop that looks for a free window name has
  no bound in the source, so it and what calls it return an option.
\<close>

section \<open>Documents\<close>

definition PEER_POLICY_PATH :: string where "PEER_POLICY_PATH = ''peers/policy.json''"
definition MAX_PEER_POLICY_ENTRIES :: nat where "MAX_PEER_POLICY_ENTRIES = 256"
definition MAX_PEER_ALLOWLIST_TARGETS :: nat where "MAX_PEER_ALLOWLIST_TARGETS = 32"

record policy_entry =
  pe_windowName :: string
  pe_windowNameFold :: string
  pe_acceptsIncoming :: bool
  pe_allowlist :: "string list"
  pe_updatedAt :: string

record policy_value =
  pv_windowName :: string
  pv_acceptsIncoming :: bool
  pv_allowlist :: "string list"

type_synonym policy_document = "(string, policy_entry) jsmap"

datatype policy_json = Foreign_Policy | Policy_Json policy_document

record policy_config =
  pk_formats :: formats
  pk_generation :: string
  pk_nfkc :: "string \<Rightarrow> string"
  pk_upper :: "string \<Rightarrow> string"
  pk_lower :: "string \<Rightarrow> string"
  pk_validName :: "string \<Rightarrow> bool"
  pk_localeCompare :: "string \<Rightarrow> string \<Rightarrow> int"

definition foldWindowName :: "policy_config \<Rightarrow> string \<Rightarrow> string" where
  "foldWindowName cfg s = pk_lower cfg (pk_upper cfg (pk_nfkc cfg s))"

definition legacyFoldWindowName :: "policy_config \<Rightarrow> string \<Rightarrow> string" where
  "legacyFoldWindowName cfg s = pk_lower cfg (pk_nfkc cfg s)"

definition peerPolicyEntrySchema :: "formats \<Rightarrow> policy_entry \<Rightarrow> bool" where
  "peerPolicyEntrySchema fmt e \<longleftrightarrow>
     utf8String 256 1 (pe_windowName e) \<and> utf8String 256 1 (pe_windowNameFold e)
     \<and> list_all workspaceIdentitySchema (pe_allowlist e)
     \<and> length (pe_allowlist e) \<le> MAX_PEER_ALLOWLIST_TARGETS
     \<and> length (remdups (pe_allowlist e)) = length (pe_allowlist e)
     \<and> fmt_datetime fmt (pe_updatedAt e)"

definition peerPolicyDocumentStructureSchema :: "formats \<Rightarrow> policy_document \<Rightarrow> bool" where
  "peerPolicyDocumentStructureSchema fmt entries \<longleftrightarrow>
     list_all (\<lambda>(identity, e). workspaceIdentitySchema identity \<and> peerPolicyEntrySchema fmt e) entries
     \<and> length entries \<le> MAX_PEER_POLICY_ENTRIES"

definition peerPolicyCompatibilitySchema :: "policy_config \<Rightarrow> policy_document \<Rightarrow> bool" where
  "peerPolicyCompatibilitySchema cfg entries \<longleftrightarrow>
     peerPolicyDocumentStructureSchema (pk_formats cfg) entries
     \<and> list_all (\<lambda>(identity, e). pe_windowNameFold e = legacyFoldWindowName cfg (pe_windowName e)) entries"

text \<open>The loop of the refinement: no issue is added for any entry.\<close>

fun names_ok :: "policy_config \<Rightarrow> (string, string) jsmap \<Rightarrow> policy_document \<Rightarrow> bool" where
  "names_ok cfg owners [] = True"
| "names_ok cfg owners ((identity, e) # es) =
     (let windowNameFold = foldWindowName cfg (pe_windowName e) in
      pk_validName cfg (pe_windowName e) \<and> pe_windowNameFold e = windowNameFold
      \<and> (case js_get owners windowNameFold of
           Some owner \<Rightarrow> owner = identity \<and> names_ok cfg (js_set windowNameFold identity owners) es
         | None \<Rightarrow> names_ok cfg (js_set windowNameFold identity owners) es))"

definition peerPolicyDocumentSchema :: "policy_config \<Rightarrow> policy_document \<Rightarrow> bool" where
  "peerPolicyDocumentSchema cfg entries \<longleftrightarrow>
     peerPolicyDocumentStructureSchema (pk_formats cfg) entries \<and> names_ok cfg [] entries"

section \<open>Migration\<close>

definition candidate_suffix :: "nat \<Rightarrow> nat \<Rightarrow> string" where
  "candidate_suffix index attempt =
     (if attempt = 0 then show_nat (index + 1)
      else show_nat (index + 1) @ [CHR ''-''] @ show_nat (attempt + 1))"

definition candidate_name :: "string \<Rightarrow> nat \<Rightarrow> nat \<Rightarrow> string" where
  "candidate_name workspaceIdentity index attempt =
     ''Window '' @ take 8 (drop (length ''sha256:'') workspaceIdentity) @ [CHR ''-'']
     @ candidate_suffix index attempt"

partial_function (option) search_name ::
  "policy_config \<Rightarrow> string \<Rightarrow> nat \<Rightarrow> string list \<Rightarrow> nat \<Rightarrow> string option" where
  "search_name cfg workspaceIdentity index used attempt =
     (let candidate = candidate_name workspaceIdentity index attempt in
      if foldWindowName cfg candidate \<notin> set used then Some candidate
      else search_name cfg workspaceIdentity index used (attempt + 1))"

definition compatibilityWindowName ::
  "policy_config \<Rightarrow> string \<Rightarrow> nat \<Rightarrow> string list \<Rightarrow> string option" where
  "compatibilityWindowName cfg workspaceIdentity index used =
     search_name cfg workspaceIdentity index used 0"

text \<open>The first loop: an entry keeps a valid name whose fold no earlier entry has.\<close>

fun keep_names ::
  "policy_config \<Rightarrow> policy_document \<Rightarrow> (string, string) jsmap \<times> string list
     \<Rightarrow> (string, string) jsmap \<times> string list" where
  "keep_names cfg [] acc = acc"
| "keep_names cfg ((identity, e) # es) (names, used) =
     keep_names cfg es
       (if pk_validName cfg (pe_windowName e)
        then let windowNameFold = foldWindowName cfg (pe_windowName e) in
          if windowNameFold \<notin> set used
          then (js_set identity (pe_windowName e) names, windowNameFold # used)
          else (names, used)
        else (names, used))"

text \<open>The second loop: every other entry gets a generated name.\<close>

fun generate_names ::
  "policy_config \<Rightarrow> nat \<Rightarrow> policy_document \<Rightarrow> (string, string) jsmap \<times> string list
     \<Rightarrow> ((string, string) jsmap \<times> string list) option" where
  "generate_names cfg index [] acc = Some acc"
| "generate_names cfg index ((identity, e) # es) (names, used) =
     (if js_get names identity \<noteq> None then generate_names cfg (index + 1) es (names, used)
      else case compatibilityWindowName cfg identity index used of
        None \<Rightarrow> None
      | Some name \<Rightarrow>
          generate_names cfg (index + 1) es
            (js_set identity name names, foldWindowName cfg name # used))"

definition renamed_entries ::
  "policy_config \<Rightarrow> (string, string) jsmap \<Rightarrow> policy_document \<Rightarrow> policy_document" where
  "renamed_entries cfg names entries =
     fold (\<lambda>(identity, e). js_set identity
         (let windowName = or_empty (js_get names identity) in
          e\<lparr>pe_windowName := windowName, pe_windowNameFold := foldWindowName cfg windowName\<rparr>))
       entries []"

definition migrateCompatibleDocument ::
  "policy_config \<Rightarrow> policy_document \<Rightarrow> (mesh_error, policy_document) result option" where
  "migrateCompatibleDocument cfg document =
     (let entries = js_sort (\<lambda>l r. pk_localeCompare cfg (fst l) (fst r)) document in
      case generate_names cfg 0 entries (keep_names cfg entries ([], [])) of
        None \<Rightarrow> None
      | Some (names, used) \<Rightarrow>
          let migrated = renamed_entries cfg names entries in
          Some (if peerPolicyDocumentSchema cfg migrated then Inr migrated else Inl Zod_Error))"

section \<open>The store\<close>

record policy_store =
  ps_document :: "policy_document option"
  ps_disk :: "policy_json disk"

record policy_env =
  px_readable :: bool
  px_before :: ownership_env
  px_write :: write_env
  px_during :: ownership_env

definition assertFence :: "policy_config \<Rightarrow> ownership_env \<Rightarrow> (mesh_error, unit) result" where
  "assertFence cfg env =
     (if \<not> ow_isOwner env \<or> ow_generation env \<noteq> Some (pk_generation cfg) then Inl worker_draining
      else case ow_assertOwner env of
        Inl _ \<Rightarrow> Inl worker_draining
      | Inr _ \<Rightarrow>
          if ow_generationAfter env \<noteq> Some (pk_generation cfg) then Inl worker_draining else Inr ())"

text \<open>The end of the migration and of an update: fence, write, fence, publish.\<close>

definition publish_document ::
  "policy_config \<Rightarrow> policy_env \<Rightarrow> policy_document \<Rightarrow> (policy_store, unit) stateful" where
  "publish_document cfg env document ps =
     (case assertFence cfg (px_before env) of
        Inl e \<Rightarrow> (Inl e, ps)
      | Inr _ \<Rightarrow>
          (case writeJson (px_write env) (Inr ()) PEER_POLICY_PATH (Policy_Json document) (ps_disk ps) of
             (Inl e, disk) \<Rightarrow> (Inl e, ps\<lparr>ps_disk := disk\<rparr>)
           | (Inr _, disk) \<Rightarrow>
               (case assertFence cfg (px_during env) of
                  Inl e \<Rightarrow> (Inl e, ps\<lparr>ps_disk := disk\<rparr>)
                | Inr _ \<Rightarrow> (Inr (), ps\<lparr>ps_disk := disk, ps_document := Some document\<rparr>))))"

definition initialize ::
  "policy_config \<Rightarrow> policy_env \<Rightarrow> policy_store \<Rightarrow> ((mesh_error, unit) result \<times> policy_store) option" where
  "initialize cfg env ps =
     (if ps_document ps \<noteq> None then Some (Inr (), ps)
      else case readJson (px_readable env) PEER_POLICY_PATH (ps_disk ps) of
        Inl e \<Rightarrow> Some (Inl e, ps)
      | Inr None \<Rightarrow> Some (Inr (), ps\<lparr>ps_document := Some []\<rparr>)
      | Inr (Some Foreign_Policy) \<Rightarrow> Some (Inl (Storage_Corruption PEER_POLICY_PATH), ps)
      | Inr (Some (Policy_Json stored)) \<Rightarrow>
          if peerPolicyDocumentSchema cfg stored
          then Some (Inr (), ps\<lparr>ps_document := Some stored\<rparr>)
          else if \<not> peerPolicyCompatibilitySchema cfg stored
          then Some (Inl (Storage_Corruption PEER_POLICY_PATH), ps)
          else case migrateCompatibleDocument cfg stored of
            None \<Rightarrow> None
          | Some (Inl e) \<Rightarrow> Some (Inl e, ps)
          | Some (Inr migrated) \<Rightarrow> Some (publish_document cfg env migrated ps))"

definition requireDocument :: "policy_store \<Rightarrow> (mesh_error, policy_document) result" where
  "requireDocument ps = (case ps_document ps of None \<Rightarrow> Inl Plain_Error | Some d \<Rightarrow> Inr d)"

definition get_policy ::
  "policy_store \<Rightarrow> string \<Rightarrow> (mesh_error, policy_entry option) result" where
  "get_policy ps workspaceIdentity =
     (if \<not> workspaceIdentitySchema workspaceIdentity then Inl Zod_Error
      else bindR (requireDocument ps) (\<lambda>document. Inr (js_get document workspaceIdentity)))"

definition snapshot_policies :: "policy_store \<Rightarrow> (mesh_error, policy_document) result" where
  "snapshot_policies ps = requireDocument ps"

text \<open>The check against the names other workspaces show without having stored them.\<close>

fun check_effective_names ::
  "policy_config \<Rightarrow> string \<Rightarrow> string \<Rightarrow> (string \<times> string) list \<Rightarrow> (mesh_error, unit) result" where
  "check_effective_names cfg identity windowNameFold [] = Inr ()"
| "check_effective_names cfg identity windowNameFold ((candidateIdentity, windowName) # cs) =
     (if \<not> workspaceIdentitySchema candidateIdentity then Inl Zod_Error
      else if \<not> pk_validName cfg windowName then Inl (mesh_fail WINDOW_NAME_INVALID)
      else if candidateIdentity \<noteq> identity \<and> foldWindowName cfg windowName = windowNameFold
      then Inl (mesh_fail WINDOW_NAME_CONFLICT)
      else check_effective_names cfg identity windowNameFold cs)"

definition mutate_policy ::
  "policy_config \<Rightarrow> policy_env \<Rightarrow> int \<Rightarrow> string
     \<Rightarrow> (policy_entry option \<Rightarrow> (mesh_error, policy_value) result) \<Rightarrow> (string \<times> string) list
     \<Rightarrow> (policy_store, policy_entry) stateful" where
  "mutate_policy cfg env now identity update effectiveNames ps =
     (case requireDocument ps of
        Inl e \<Rightarrow> (Inl e, ps)
      | Inr current \<Rightarrow>
          if js_get current identity = None \<and> MAX_PEER_POLICY_ENTRIES \<le> length current
          then (Inl (mesh_fail POLICY_FORBIDDEN), ps)
          else case update (js_get current identity) of
            Inl e \<Rightarrow> (Inl e, ps)
          | Inr policy \<Rightarrow>
              if \<not> pk_validName cfg (pv_windowName policy) then (Inl (mesh_fail WINDOW_NAME_INVALID), ps)
              else let windowNameFold = foldWindowName cfg (pv_windowName policy) in
                if find (\<lambda>(candidateIdentity, candidate). candidateIdentity \<noteq> identity
                           \<and> pe_windowNameFold candidate = windowNameFold) current \<noteq> None
                then (Inl (mesh_fail WINDOW_NAME_CONFLICT), ps)
                else case check_effective_names cfg identity windowNameFold effectiveNames of
                  Inl e \<Rightarrow> (Inl e, ps)
                | Inr _ \<Rightarrow>
                    let entry = \<lparr>pe_windowName = pv_windowName policy, pe_windowNameFold = windowNameFold,
                          pe_acceptsIncoming = pv_acceptsIncoming policy,
                          pe_allowlist = pv_allowlist policy, pe_updatedAt = to_iso_string now\<rparr>;
                        next = js_set identity entry current
                    in if \<not> peerPolicyEntrySchema (pk_formats cfg) entry then (Inl Zod_Error, ps)
                       else if \<not> peerPolicyDocumentSchema cfg next then (Inl Zod_Error, ps)
                       else bindS (publish_document cfg env next) (\<lambda>_. liftS (Inr entry)) ps)"

definition update_policy ::
  "policy_config \<Rightarrow> policy_env \<Rightarrow> int \<Rightarrow> string
     \<Rightarrow> (policy_entry option \<Rightarrow> (mesh_error, policy_value) result) \<Rightarrow> (string \<times> string) list
     \<Rightarrow> (policy_store, policy_entry) stateful" where
  "update_policy cfg env now workspaceIdentity update effectiveNames ps =
     (if \<not> workspaceIdentitySchema workspaceIdentity then (Inl Zod_Error, ps)
      else mutate_policy cfg env now workspaceIdentity update effectiveNames ps)"

definition set_policy ::
  "policy_config \<Rightarrow> policy_env \<Rightarrow> int \<Rightarrow> string \<Rightarrow> policy_value \<Rightarrow> (policy_store, policy_entry) stateful" where
  "set_policy cfg env now workspaceIdentity policy =
     update_policy cfg env now workspaceIdentity (\<lambda>_. Inr policy) []"

section \<open>The search for a free name\<close>

text \<open>
  What is used of the Unicode operations: NFKC leaves ASCII text alone, and the two case
  conversions of the locale \<open>en-US\<close> act on it letter by letter.
\<close>

definition js_upper_char :: "char \<Rightarrow> char" where
  "js_upper_char c =
     (let n = (of_char c :: nat) in if 97 \<le> n \<and> n \<le> 122 then char_of (n - 32) else c)"

definition ascii :: "string \<Rightarrow> bool" where
  "ascii s \<longleftrightarrow> list_all (\<lambda>c. (of_char c :: nat) < 128) s"

definition ascii_unicode :: "policy_config \<Rightarrow> bool" where
  "ascii_unicode cfg \<longleftrightarrow>
     (\<forall>s. ascii s \<longrightarrow> pk_nfkc cfg s = s \<and> pk_upper cfg s = map js_upper_char s \<and> pk_lower cfg s = js_lower s)"

lemma js_upper_char_ascii: "(of_char c :: nat) < 128 \<Longrightarrow> (of_char (js_upper_char c) :: nat) < 128"
  by (auto simp: js_upper_char_def Let_def of_char_of)

lemma lower_upper_char: "js_lower_char (js_upper_char c) = js_lower_char c"
  by (auto simp: js_lower_char_def js_upper_char_def Let_def of_char_of)

lemma fold_ascii:
  assumes "ascii_unicode cfg" "ascii s"
  shows "foldWindowName cfg s = js_lower s"
proof -
  have "ascii (map js_upper_char s)"
    using assms(2) js_upper_char_ascii by (auto simp: ascii_def list_all_iff)
  with assms show ?thesis
    by (simp add: foldWindowName_def ascii_unicode_def js_lower_def lower_upper_char)
qed

lemma digit_ascii: "is_digit c \<Longrightarrow> (of_char c :: nat) < 128 \<and> js_lower_char c = c"
  by (auto simp: is_digit_def js_lower_char_def Let_def)

lemma show_nat_ascii: "ascii (show_nat n)" "js_lower (show_nat n) = show_nat n"
  using show_nat_digits [of n] digit_ascii by (auto simp: ascii_def list_all_iff js_lower_def intro: map_idI)

lemma candidate_ascii: "workspaceIdentitySchema identity \<Longrightarrow> ascii (candidate_name identity index attempt)"
proof -
  assume "workspaceIdentitySchema identity"
  then have "\<forall>c \<in> set (drop 7 identity). (of_char c :: nat) < 128"
    by (auto simp: workspaceIdentitySchema_def list_all_iff is_base64url_char_def is_digit_def Let_def)
  then have "\<forall>c \<in> set (take 8 (drop 7 identity)). (of_char c :: nat) < 128"
    by (meson in_set_takeD)
  moreover have "length ''sha256:'' = 7" by simp
  ultimately show ?thesis using show_nat_ascii(1)
    unfolding candidate_name_def by (auto simp del: list.size simp: ascii_def list_all_iff candidate_suffix_def)
qed

lemma js_lower_append: "js_lower (a @ b) = js_lower a @ js_lower b"
  by (simp add: js_lower_def)

lemma candidate_suffix_lower: "js_lower (candidate_suffix index a) = candidate_suffix index a"
  by (simp add: candidate_suffix_def js_lower_append show_nat_ascii)
    (simp add: js_lower_def js_lower_char_def Let_def show_nat_ascii(2) [unfolded js_lower_def])

lemma candidate_suffix_inject: "candidate_suffix index a = candidate_suffix index b \<Longrightarrow> a = b"
  by (auto simp: candidate_suffix_def split: if_splits)

lemma candidate_distinct:
  assumes "js_lower (candidate_name identity index a) = js_lower (candidate_name identity index b)"
  shows "a = b"
proof -
  let ?p = "''Window '' @ take 8 (drop (length ''sha256:'') identity) @ [CHR ''-'']"
  have "candidate_name identity index c = ?p @ candidate_suffix index c" for c
    by (simp add: candidate_name_def)
  with assms have "js_lower (?p @ candidate_suffix index a) = js_lower (?p @ candidate_suffix index b)" by simp
  then have "candidate_suffix index a = candidate_suffix index b"
    by (simp only: js_lower_append same_append_eq candidate_suffix_lower)
  then show ?thesis by (rule candidate_suffix_inject)
qed

lemma search_name_finds:
  assumes "foldWindowName cfg (candidate_name identity index (k + d)) \<notin> set used"
  shows "\<exists>a. k \<le> a \<and> a \<le> k + d \<and> search_name cfg identity index used k = Some (candidate_name identity index a)
    \<and> foldWindowName cfg (candidate_name identity index a) \<notin> set used"
  using assms
proof (induction d arbitrary: k)
  case 0
  then show ?case by (intro exI [of _ k]; subst search_name.simps) (simp add: Let_def)
next
  case (Suc d)
  show ?case
  proof (cases "foldWindowName cfg (candidate_name identity index k) \<notin> set used")
    case True
    then show ?thesis by (intro exI [of _ k]; subst search_name.simps) (simp add: Let_def)
  next
    case False
    then have "search_name cfg identity index used k = search_name cfg identity index used (Suc k)"
      by (subst search_name.simps) (simp add: Let_def)
    with Suc.IH [of "Suc k"] Suc.prems show ?thesis by (auto intro: Suc_leD)
  qed
qed

lemma compatibilityWindowName_returns:
  assumes cfg: "ascii_unicode cfg" and identity: "workspaceIdentitySchema identity"
  shows "\<exists>attempt \<le> length used.
    compatibilityWindowName cfg identity index used = Some (candidate_name identity index attempt)
    \<and> foldWindowName cfg (candidate_name identity index attempt) \<notin> set used"
proof -
  let ?f = "\<lambda>a. foldWindowName cfg (candidate_name identity index a)"
  have "inj_on ?f {..length used}"
    using candidate_distinct by (auto intro!: inj_onI simp: fold_ascii [OF cfg candidate_ascii [OF identity]])
  then have "card (?f ` {..length used}) = Suc (length used)" by (simp add: card_image)
  moreover have "card (set used) < Suc (length used)" using card_length [of used] by simp
  ultimately have "\<not> ?f ` {..length used} \<subseteq> set used"
    using card_mono [of "set used" "?f ` {..length used}"] by auto
  then obtain a where "a \<le> length used" "?f a \<notin> set used" by auto
  with search_name_finds [of cfg identity index 0 a used] show ?thesis
    unfolding compatibilityWindowName_def by (metis add_0 order_trans)
qed

lemma generate_names_returns:
  assumes "ascii_unicode cfg" "list_all (\<lambda>(identity, e). workspaceIdentitySchema identity) es"
  shows "\<exists>acc'. generate_names cfg index es acc = Some acc'"
  using assms(2)
proof (induction es arbitrary: index acc)
  case (Cons x es)
  obtain identity e names used where [simp]: "x = (identity, e)" "acc = (names, used)"
    by (cases x; cases acc) auto
  have "workspaceIdentitySchema identity" using Cons.prems by simp
  from compatibilityWindowName_returns [OF assms(1) this, of used index] obtain name where
    "compatibilityWindowName cfg identity index used = Some name" by blast
  then show ?case using Cons by simp
qed simp

lemma migrate_returns:
  assumes "ascii_unicode cfg" "peerPolicyDocumentStructureSchema (pk_formats cfg) document"
  shows "\<exists>r. migrateCompatibleDocument cfg document = Some r"
proof -
  let ?entries = "js_sort (\<lambda>l r. pk_localeCompare cfg (fst l) (fst r)) document"
  have "list_all (\<lambda>(identity, e). workspaceIdentitySchema identity) ?entries"
    using assms(2) by (auto simp: peerPolicyDocumentStructureSchema_def list_all_iff)
  from generate_names_returns [OF assms(1) this, of 0 "keep_names cfg ?entries ([], [])"]
  show ?thesis by (auto simp: migrateCompatibleDocument_def Let_def split: option.split)
qed


section \<open>What publishing does\<close>

abbreviation policy_file :: "policy_store \<Rightarrow> policy_json content option" where
  "policy_file ps \<equiv> js_get (dk_files (ps_disk ps)) PEER_POLICY_PATH"

lemma policy_path: "resolve_path PEER_POLICY_PATH = Inr PEER_POLICY_PATH"
  by (simp add: PEER_POLICY_PATH_def resolve_path_def normalize_path_def Let_def)

lemma publish_cases:
  assumes "publish_document cfg env document ps = (res, ps')"
  obtains "res = Inr ()" "ps_document ps' = Some document" "policy_file ps' = Some (Json (Policy_Json document))"
      "assertFence cfg (px_before env) = Inr ()" "assertFence cfg (px_during env) = Inr ()"
  | e where "res = Inl e" "ps_document ps' = ps_document ps"
      "policy_file ps' \<in> {policy_file ps, Some (Json (Policy_Json document))}"
proof -
  obtain r1 disk where w: "writeJson (px_write env) (Inr ()) PEER_POLICY_PATH (Policy_Json document) (ps_disk ps) = (r1, disk)"
    by fastforce
  note f = writeJson_frame(2,3) [OF w policy_path]
  show ?thesis
  proof (cases "assertFence cfg (px_before env)")
    case (Inl e)
    have "res = Inl e" "ps' = ps" using assms Inl by (simp_all add: publish_document_def)
    then show ?thesis using that(2) by blast
  next
    case before: (Inr u)
    show ?thesis
    proof (cases r1)
      case (Inl e)
      have "res = Inl e" "ps' = ps\<lparr>ps_disk := disk\<rparr>"
        using assms before w Inl by (simp_all add: publish_document_def)
      then show ?thesis using that(2) f by simp
    next
      case (Inr v)
      show ?thesis
      proof (cases "assertFence cfg (px_during env)")
        case (Inl e)
        then have "res = Inl e" "ps' = ps\<lparr>ps_disk := disk\<rparr>"
          using assms before w Inr by (simp_all add: publish_document_def)
        then show ?thesis using that(2) f by simp
      next
        case during: (Inr u)
        then have "res = Inr ()" "ps' = ps\<lparr>ps_disk := disk, ps_document := Some document\<rparr>"
          using assms before w Inr by (simp_all add: publish_document_def)
        then show ?thesis using that(1) f Inr before during by simp
      qed
    qed
  qed
qed

text \<open>The loop over the owners establishes that equivalent names have one owner.\<close>

lemma names_ok_owners:
  "names_ok cfg owners es \<Longrightarrow>
   list_all (\<lambda>(i, e). pk_validName cfg (pe_windowName e)
     \<and> pe_windowNameFold e = foldWindowName cfg (pe_windowName e)
     \<and> (\<forall>owner. js_get owners (pe_windowNameFold e) = Some owner \<longrightarrow> owner = i)
     \<and> (\<forall>(j, f) \<in> set es. pe_windowNameFold f = pe_windowNameFold e \<longrightarrow> j = i)) es"
proof (induction cfg owners es rule: names_ok.induct)
  case (2 cfg owners i e es)
  define owners' where "owners' = js_set (foldWindowName cfg (pe_windowName e)) i owners"
  have head: "pk_validName cfg (pe_windowName e)" "pe_windowNameFold e = foldWindowName cfg (pe_windowName e)"
    "\<forall>owner. js_get owners (pe_windowNameFold e) = Some owner \<longrightarrow> owner = i"
    "names_ok cfg owners' es"
    using "2.prems" by (auto simp: Let_def owners'_def split: option.splits)
  have IH: "list_all (\<lambda>(i, e). pk_validName cfg (pe_windowName e)
     \<and> pe_windowNameFold e = foldWindowName cfg (pe_windowName e)
     \<and> (\<forall>owner. js_get owners' (pe_windowNameFold e) = Some owner \<longrightarrow> owner = i)
     \<and> (\<forall>(j, f) \<in> set es. pe_windowNameFold f = pe_windowNameFold e \<longrightarrow> j = i)) es"
    using "2.IH" head(4) "2.prems" unfolding owners'_def by (auto simp: Let_def split: option.splits)
  have same: "j = i" if "(j, f) \<in> set es" "pe_windowNameFold f = pe_windowNameFold e" for j f
    using IH that head(2) by (auto simp: list_all_iff owners'_def js_map)
  have owner: "owner = j" if "(j, f) \<in> set es" "js_get owners (pe_windowNameFold f) = Some owner" for j f owner
    using IH that head(2,3) same [OF that(1)]
    by (cases "pe_windowNameFold f = pe_windowNameFold e") (auto simp: list_all_iff owners'_def js_map)
  show ?case using head(1-3) same owner IH by (auto simp: list_all_iff)
qed simp

lemma document_names_unique:
  assumes "peerPolicyDocumentSchema cfg document" "(i, e) \<in> set document" "(j, f) \<in> set document"
    "foldWindowName cfg (pe_windowName e) = foldWindowName cfg (pe_windowName f)"
  shows "i = j"
proof -
  have all: "list_all (\<lambda>(i, e). pe_windowNameFold e = foldWindowName cfg (pe_windowName e)
      \<and> (\<forall>(j, f) \<in> set document. pe_windowNameFold f = pe_windowNameFold e \<longrightarrow> j = i)) document"
    using names_ok_owners [of cfg "[]" document] assms(1)
    by (auto simp: peerPolicyDocumentSchema_def list_all_iff)
  from all assms(2) have e: "pe_windowNameFold e = foldWindowName cfg (pe_windowName e)"
    "\<forall>(j, f) \<in> set document. pe_windowNameFold f = pe_windowNameFold e \<longrightarrow> j = i"
    by (auto simp: list_all_iff)
  from all assms(3) have "pe_windowNameFold f = foldWindowName cfg (pe_windowName f)"
    by (auto simp: list_all_iff)
  with e assms(3,4) show ?thesis by auto
qed


section \<open>Histories\<close>

datatype policy_call =
    Initialize_Policies
  | Update_Policy int string "policy_entry option \<Rightarrow> (mesh_error, policy_value) result" "(string \<times> string) list"
  | Restart_Policies

text \<open>
  The queue runs the calls one by one; a call that does not return would leave everything as it
  is and no later call would run, so the step that stands still covers it.
\<close>

fun policy_step :: "policy_config \<Rightarrow> policy_env \<times> policy_call \<Rightarrow> policy_store \<Rightarrow> policy_store" where
  "policy_step cfg (env, Initialize_Policies) ps =
     (case initialize cfg env ps of None \<Rightarrow> ps | Some (_, ps') \<Rightarrow> ps')"
| "policy_step cfg (env, Update_Policy now workspaceIdentity update effectiveNames) ps =
     snd (update_policy cfg env now workspaceIdentity update effectiveNames ps)"
| "policy_step cfg (env, Restart_Policies) ps = ps\<lparr>ps_document := None\<rparr>"

definition policies_ok ::
  "policy_config \<Rightarrow> policy_json content option \<Rightarrow> policy_store \<Rightarrow> bool" where
  "policies_ok cfg original ps \<longleftrightarrow>
     (\<forall>doc. ps_document ps = Some doc \<longrightarrow> peerPolicyDocumentSchema cfg doc)
     \<and> (policy_file ps = original
        \<or> (\<exists>doc. policy_file ps = Some (Json (Policy_Json doc)) \<and> peerPolicyDocumentSchema cfg doc))"

lemma publish_ok:
  assumes "policies_ok cfg original ps" "peerPolicyDocumentSchema cfg document"
  shows "policies_ok cfg original (snd (publish_document cfg env document ps))"
proof -
  obtain res ps' where p: "publish_document cfg env document ps = (res, ps')" by fastforce
  from p show ?thesis using assms by (cases rule: publish_cases) (auto simp: policies_ok_def p)
qed

lemma initialize_policies_ok:
  assumes "policies_ok cfg original ps" "initialize cfg env ps = Some (res, ps')"
  shows "policies_ok cfg original ps'"
proof (cases "ps_document ps")
  case None
  note init = assms(2) [unfolded initialize_def, simplified None, simplified]
  show ?thesis
  proof (cases "readJson (px_readable env) PEER_POLICY_PATH (ps_disk ps)")
    case (Inl e)
    with init assms(1) show ?thesis by simp
  next
    case (Inr v)
    show ?thesis
    proof (cases v)
      case v: None
      with init Inr have "ps' = ps\<lparr>ps_document := Some []\<rparr>" by simp
      with assms(1) show ?thesis
        by (simp add: policies_ok_def peerPolicyDocumentSchema_def peerPolicyDocumentStructureSchema_def)
    next
      case v: (Some w)
      show ?thesis
      proof (cases w)
        case Foreign_Policy
        with init Inr v assms(1) show ?thesis by simp
      next
        case (Policy_Json stored)
        note init' = init [unfolded Inr v Policy_Json, simplified]
        consider "peerPolicyDocumentSchema cfg stored"
          | "\<not> peerPolicyDocumentSchema cfg stored" "\<not> peerPolicyCompatibilitySchema cfg stored"
          | "\<not> peerPolicyDocumentSchema cfg stored" "peerPolicyCompatibilitySchema cfg stored" by blast
        then show ?thesis
        proof cases
          case 1
          with init' have "ps' = ps\<lparr>ps_document := Some stored\<rparr>" by simp
          with 1 assms(1) show ?thesis by (simp add: policies_ok_def)
        next
          case 2
          with init' assms(1) show ?thesis by simp
        next
          case 3
          then obtain r where r: "migrateCompatibleDocument cfg stored = Some r"
            using init' by (cases "migrateCompatibleDocument cfg stored") simp_all
          show ?thesis
          proof (cases r)
            case (Inl e)
            with init' 3 r assms(1) show ?thesis by simp
          next
            case (Inr migrated)
            with r have "peerPolicyDocumentSchema cfg migrated"
              by (auto simp: migrateCompatibleDocument_def Let_def split: option.splits prod.splits if_splits)
            from publish_ok [OF assms(1) this, of env] init' 3 r Inr show ?thesis by simp
          qed
        qed
      qed
    qed
  qed
next
  case (Some doc)
  with assms show ?thesis by (simp add: initialize_def)
qed

text \<open>What a mutation that gets as far as publishing has checked.\<close>

lemma mutate_cases:
  assumes "mutate_policy cfg env now identity update effectiveNames ps = (res, ps')"
  obtains e where "res = Inl e" "ps' = ps"
  | current policy entry where "ps_document ps = Some current"
      "update (js_get current identity) = Inr policy"
      "entry = \<lparr>pe_windowName = pv_windowName policy,
         pe_windowNameFold = foldWindowName cfg (pv_windowName policy),
         pe_acceptsIncoming = pv_acceptsIncoming policy, pe_allowlist = pv_allowlist policy,
         pe_updatedAt = to_iso_string now\<rparr>"
      "peerPolicyDocumentSchema cfg (js_set identity entry current)"
      "bindS (publish_document cfg env (js_set identity entry current)) (\<lambda>_. liftS (Inr entry)) ps = (res, ps')"
  using assms
  by (auto simp: mutate_policy_def requireDocument_def Let_def split: option.splits sum.splits if_split_asm)


lemma policy_step_ok:
  assumes "policies_ok cfg original ps"
  shows "policies_ok cfg original (policy_step cfg ec ps)"
proof -
  obtain env call where ec: "ec = (env, call)" by (cases ec)
  show ?thesis
  proof (cases call)
    case Initialize_Policies
    then show ?thesis using assms initialize_policies_ok [OF assms] by (auto simp: ec split: option.split)
  next
    case (Update_Policy now identity update names)
    obtain res ps' where m: "mutate_policy cfg env now identity update names ps = (res, ps')" by fastforce
    from m have "policies_ok cfg original ps'"
    proof (cases rule: mutate_cases)
      case (1 e)
      with assms show ?thesis by simp
    next
      case (2 current policy entry)
      obtain r1 ps1 where p: "publish_document cfg env (js_set identity entry current) ps = (r1, ps1)" by fastforce
      from publish_ok [OF assms 2(4), of env] 2(5) show ?thesis
        by (cases r1) (simp_all add: p bindS_def liftS_def)
    qed
    with assms show ?thesis by (simp add: ec Update_Policy update_policy_def m)
  next
    case Restart_Policies
    with assms show ?thesis by (simp add: ec policies_ok_def)
  qed
qed

interpretation policy_run: state_machine "policy_step cfg" "policies_ok cfg original" for cfg original
  by unfold_locales (rule policy_step_ok)

section \<open>Properties\<close>

text \<open>
  C40. Opening the policies always returns. The migration of an old document looks for free window
  names in an unbounded loop; whatever names are in use, the loop ends after at most one attempt
  more than there are names, with a name no other workspace has, and so every initialization
  returns, with any stored document and any faults. Used of the Unicode operations is only what
  they do to ASCII text.
\<close>
theorem policy_migration_terminates:
  assumes "ascii_unicode cfg"
  shows "(\<exists>res ps'. initialize cfg env ps = Some (res, ps'))
    \<and> (workspaceIdentitySchema identity \<longrightarrow>
        (\<exists>attempt \<le> length used.
           compatibilityWindowName cfg identity index used = Some (candidate_name identity index attempt)
           \<and> foldWindowName cfg (candidate_name identity index attempt) \<notin> set used))"
proof (intro conjI impI)
  have "\<exists>r. migrateCompatibleDocument cfg stored = Some r" if "peerPolicyCompatibilitySchema cfg stored" for stored
    using migrate_returns [OF assms] that by (simp add: peerPolicyCompatibilitySchema_def)
  then show "\<exists>res ps'. initialize cfg env ps = Some (res, ps')"
    by (fastforce simp: initialize_def split: sum.split option.split policy_json.split)
qed (rule compatibilityWindowName_returns [OF assms])

text \<open>
  C16. Window names stay unique and the stored policies stay well formed. After any history of
  initializations, updates and restarts, with any failing reads, writes and ownership checks, the
  document in memory satisfies the document schema, so no two workspaces in it have equivalent
  names, and the policy file holds what it held at first or another complete document that
  satisfies the schema.
\<close>
theorem policies_stay_consistent:
  fixes cfg es disk
  defines "ps \<equiv> fold (policy_step cfg) es \<lparr>ps_document = None, ps_disk = disk\<rparr>"
  shows "(\<forall>doc. ps_document ps = Some doc \<longrightarrow> peerPolicyDocumentSchema cfg doc
      \<and> (\<forall>(i, e) \<in> set doc. \<forall>(j, f) \<in> set doc.
           foldWindowName cfg (pe_windowName e) = foldWindowName cfg (pe_windowName f) \<longrightarrow> i = j))
    \<and> (js_get (dk_files (ps_disk ps)) PEER_POLICY_PATH = js_get (dk_files disk) PEER_POLICY_PATH
       \<or> (\<exists>doc. js_get (dk_files (ps_disk ps)) PEER_POLICY_PATH = Some (Json (Policy_Json doc))
            \<and> peerPolicyDocumentSchema cfg doc))"
proof -
  have "policies_ok cfg (js_get (dk_files disk) PEER_POLICY_PATH) ps"
    unfolding ps_def by (rule policy_run.run_inv) (simp add: policies_ok_def)
  then show ?thesis using document_names_unique by (fastforce simp: policies_ok_def)
qed

section \<open>Examples\<close>

definition sample_policies :: policy_config where
  "sample_policies = \<lparr>pk_formats = sample_formats, pk_generation = ''g1'', pk_nfkc = (\<lambda>s. s),
     pk_upper = map js_upper_char, pk_lower = js_lower, pk_validName = (\<lambda>s. s \<noteq> []),
     pk_localeCompare = (\<lambda>a b. if a = b then 0 else if ord_class.lexordp a b then - 1 else 1)\<rparr>"

definition sample_workspace :: "char \<Rightarrow> string" where
  "sample_workspace c = ''sha256:'' @ replicate 43 c"

definition calm_policies :: policy_env where
  "calm_policies = \<lparr>px_readable = True,
     px_before = \<lparr>ow_isOwner = True, ow_generation = Some ''g1'', ow_assertOwner = Inr (), ow_generationAfter = Some ''g1''\<rparr>,
     px_write = calm_env,
     px_during = \<lparr>ow_isOwner = True, ow_generation = Some ''g1'', ow_assertOwner = Inr (), ow_generationAfter = Some ''g1''\<rparr>\<rparr>"

lemma sample_ascii_unicode: "ascii_unicode sample_policies"
  by (simp add: ascii_unicode_def sample_policies_def)

lemma terminates_witness:
  "\<exists>attempt \<le> 1. compatibilityWindowName sample_policies (sample_workspace (CHR ''A'')) 4 [''window aaaaaaaa-5'']
     = Some (candidate_name (sample_workspace (CHR ''A'')) 4 attempt)"
proof -
  have "workspaceIdentitySchema (sample_workspace (CHR ''A''))"
    by (simp add: workspaceIdentitySchema_def sample_workspace_def list_all_iff is_base64url_char_def is_digit_def Let_def)
  with policy_migration_terminates [OF sample_ascii_unicode, where used = "[''window aaaaaaaa-5'']"]
  show ?thesis by fastforce
qed

definition sample_entry :: policy_entry where
  "sample_entry = \<lparr>pe_windowName = ''App'', pe_windowNameFold = ''app'', pe_acceptsIncoming = True,
     pe_allowlist = [], pe_updatedAt = to_iso_string 0\<rparr>"

definition sample_history :: "(policy_env \<times> policy_call) list" where
  "sample_history = [(calm_policies, Initialize_Policies),
     (calm_policies, Update_Policy 0 (sample_workspace (CHR ''A''))
        (\<lambda>_. Inr \<lparr>pv_windowName = ''App'', pv_acceptsIncoming = True, pv_allowlist = []\<rparr>) [])]"

lemma sample_fold: "foldWindowName sample_policies ''App'' = ''app''"
  by (simp add: foldWindowName_def sample_policies_def) code_simp

lemma sample_document_ok:
  "peerPolicyDocumentSchema sample_policies [(sample_workspace (CHR ''A''), sample_entry)]"
proof -
  have "workspaceIdentitySchema (sample_workspace (CHR ''A''))"
    by (simp add: workspaceIdentitySchema_def sample_workspace_def list_all_iff is_base64url_char_def is_digit_def Let_def)
  then show ?thesis using epoch_datetime sample_fold
    by (simp add: peerPolicyDocumentSchema_def peerPolicyDocumentStructureSchema_def sample_entry_def
        peerPolicyEntrySchema_def utf8String_def MAX_PEER_POLICY_ENTRIES_def Let_def)
      (simp add: sample_policies_def)
qed

lemma sample_policy_run:
  "ps_document (fold (policy_step sample_policies) sample_history \<lparr>ps_document = None, ps_disk = empty_disk\<rparr>)
   = Some [(sample_workspace (CHR ''A''), sample_entry)]"
proof -
  let ?ps0 = "\<lparr>ps_document = None, ps_disk = empty_disk\<rparr> :: policy_store"
  let ?ps1 = "?ps0\<lparr>ps_document := Some []\<rparr>"
  let ?doc = "[(sample_workspace (CHR ''A''), sample_entry)]"
  have "initialize sample_policies calm_policies ?ps0 = Some (Inr (), ?ps1)"
    by (simp add: initialize_def readJson_def policy_path calm_policies_def empty_disk_def)
  moreover obtain disk where "publish_document sample_policies calm_policies ?doc ?ps1
      = (Inr (), \<lparr>ps_document = Some ?doc, ps_disk = disk\<rparr>)"
  proof -
    obtain disk where "writeJson calm_env (Inr ()) PEER_POLICY_PATH (Policy_Json ?doc) empty_disk = (Inr (), disk)"
      by (simp add: write_eval PEER_POLICY_PATH_def)
    moreover have "assertFence sample_policies (px_before calm_policies) = Inr ()"
      "assertFence sample_policies (px_during calm_policies) = Inr ()" "px_write calm_policies = calm_env"
      by (simp_all add: assertFence_def calm_policies_def sample_policies_def)
    ultimately show ?thesis by (intro that [of disk]) (simp add: publish_document_def)
  qed
  moreover have "workspaceIdentitySchema (sample_workspace (CHR ''A''))"
    "peerPolicyEntrySchema sample_formats sample_entry"
    using sample_document_ok
    by (simp_all add: peerPolicyDocumentSchema_def peerPolicyDocumentStructureSchema_def sample_policies_def)
  moreover have "pk_formats sample_policies = sample_formats" "pk_validName sample_policies ''App''"
    by (simp_all add: sample_policies_def)
  ultimately show ?thesis using sample_document_ok
    by (simp add: sample_history_def update_policy_def mutate_policy_def requireDocument_def
        MAX_PEER_POLICY_ENTRIES_def sample_fold sample_entry_def Let_def bindS_def liftS_def)
qed

lemma consistent_witness:
  "peerPolicyDocumentSchema sample_policies [(sample_workspace (CHR ''A''), sample_entry)]"
  using policies_stay_consistent [of sample_policies sample_history empty_disk] sample_policy_run by simp

end
