(* ===== verification/Owner_Lock.thy ===== *)
theory Owner_Lock
  imports Mesh_State Js_Text
begin

text \<open>
  The owner lock of the broker (\<open>WorkerOwnerLock\<close>, \<open>src/storage/WorkerOwnerLock.ts\<close>): several
  processes contend for one owner file, guarded by a takeover file, and the owner renews its
  heartbeat in place. Every process is a program whose position is the file operation it is about
  to make; one step performs that operation and runs the process up to its next one, so a history
  is any interleaving of single file operations of any number of processes, with crashes at any
  point. Each step is given what the operating system answers: whether the operation fails, the
  clock, which foreign processes are alive, and a fresh UUID.

  The candidate file, the moved stale file and the claimed takeover file have names only their
  process uses; of these the inode is kept in the position, and their removal is a step that can
  only succeed or fail. A file that is not a complete record reads as \<open>undefined\<close>, and so may one
  that is read while it is written (\<open>oa_garbled\<close>). The test hooks are taken to succeed, except the
  one awaited before the second look at \<open>disposed\<close>, which is a position of its own.
\<close>

section \<open>Files\<close>

type_synonym inode = nat

record owner_record =
  wr_pid :: int
  wr_instanceId :: string
  wr_token :: string
  wr_generation :: string
  wr_acquiredAt :: string
  wr_heartbeatAt :: string

record takeover_record =
  kr_pid :: int
  kr_instanceId :: string
  kr_token :: string
  kr_createdAt :: string

datatype lock_content = Incomplete | Owner_Content owner_record | Takeover_Content takeover_record

record lock_dir =
  ld_owner :: "inode option"
  ld_takeover :: "inode option"
  ld_content :: "inode \<Rightarrow> lock_content"
  ld_next :: inode

section \<open>Processes\<close>

record lock_identity =
  id_pid :: int
  id_instanceId :: string
  id_token :: string

record lock_config =
  lk_identity :: "nat \<Rightarrow> lock_identity"
  lk_ttlMs :: int

text \<open>A takeover file as \<open>readTakeoverSnapshot\<close> saw it.\<close>

type_synonym snapshot = "inode \<times> takeover_record"

text \<open>Where \<open>createOwnerFile\<close> is called: under the mutex, with a stale file moved or not, or in recovery.\<close>

datatype create_context =
    In_Mutex inode takeover_record bool
  | In_Recovery snapshot

datatype contend_pc =
    Contend_Idle
  | Observe
  | Open_Mutex "owner_record option"
  | Stat_Mutex "owner_record option" inode takeover_record
  | Write_Mutex "owner_record option" inode takeover_record
  | Await_Acquired "owner_record option" inode takeover_record
  | Read_Current "owner_record option" inode takeover_record
  | Move_Stale inode takeover_record
  | Read_Holder inode takeover_record
  | Unlink_Moved inode takeover_record
  | Close_Mutex inode takeover_record bool
  | Claim_Mutex inode takeover_record bool
  | Compare_Claimed inode takeover_record inode
  | Unlink_Claimed
  | Restore_Claimed inode "inode option"
  | Open_Candidate create_context
  | Write_Candidate create_context inode owner_record
  | Check_Recoverable create_context inode owner_record
  | Link_Candidate create_context inode owner_record
  | Linked create_context inode owner_record
  | Unlink_Unwanted create_context inode
  | Unlink_Candidate create_context inode
  | Drop_Candidate create_context bool
  | Read_Takeover
  | Stat_Owner snapshot
  | Recheck snapshot inode
  | Claim_Stale snapshot inode
  | Compare_Stale snapshot inode inode
  | Unlink_Stale_Claim inode
  | Cleanup_Read inode
  | Cleanup_Unlink inode
  | Cleanup_Lose
  | Final_Holder

datatype renew_pc =
    Renew_Idle
  | Renew_Read bool inode owner_record
  | Renew_Write bool inode owner_record
  | Renew_Lose bool

datatype dispose_pc = Dispose_Idle | Dispose_Read | Dispose_Unlink | Dispose_Close

datatype process_state = Unstarted | Running_Process | Exited

record lock_instance =
  li_state :: process_state
  li_handle :: "inode option"
  li_record :: "owner_record option"
  li_holder :: "owner_record option"
  li_disposed :: bool
  li_lockReleased :: bool
  li_disposeComplete :: bool
  li_takeoverBlocked :: bool
  li_contend :: contend_pc
  li_renew :: renew_pc
  li_dispose :: dispose_pc

record lock_world =
  lw_dir :: lock_dir
  lw_running :: "nat list"
  lw_instances :: "nat \<Rightarrow> lock_instance"

record os_answer =
  oa_ok :: bool
  oa_garbled :: bool
  oa_now :: int
  oa_otherPids :: "int \<Rightarrow> bool"
  oa_torn :: string
  oa_uuid :: string

definition new_lock :: lock_instance where
  "new_lock = \<lparr>li_state = Unstarted, li_handle = None, li_record = None, li_holder = None,
     li_disposed = False, li_lockReleased = False, li_disposeComplete = False,
     li_takeoverBlocked = False, li_contend = Contend_Idle, li_renew = Renew_Idle,
     li_dispose = Dispose_Idle\<rparr>"

section \<open>Reading\<close>

definition isOwner :: "lock_instance \<Rightarrow> bool" where
  "isOwner p \<longleftrightarrow> li_handle p \<noteq> None \<and> li_record p \<noteq> None \<and> \<not> li_disposed p"

definition currentGeneration :: "lock_instance \<Rightarrow> string option" where
  "currentGeneration p = (if isOwner p then map_option wr_generation (li_record p) else None)"

definition readRecordIfPresent ::
  "os_answer \<Rightarrow> lock_dir \<Rightarrow> (mesh_error, owner_record option) result" where
  "readRecordIfPresent ans d =
     (if \<not> oa_ok ans then Inl Plain_Error
      else Inr (case ld_owner d of
        None \<Rightarrow> None
      | Some x \<Rightarrow>
          (case ld_content d x of
             Owner_Content r \<Rightarrow> if oa_garbled ans then None else Some r
           | _ \<Rightarrow> None)))"

definition takeover_at :: "os_answer \<Rightarrow> lock_dir \<Rightarrow> inode \<Rightarrow> takeover_record option" where
  "takeover_at ans d x =
     (case ld_content d x of
        Takeover_Content t \<Rightarrow> if oa_garbled ans then None else Some t
      | _ \<Rightarrow> None)"

definition readTakeoverSnapshot :: "os_answer \<Rightarrow> lock_dir \<Rightarrow> (inode \<times> takeover_record option) option" where
  "readTakeoverSnapshot ans d = map_option (\<lambda>x. (x, takeover_at ans d x)) (ld_takeover d)"

definition pidAlive :: "lock_config \<Rightarrow> os_answer \<Rightarrow> nat list \<Rightarrow> int \<Rightarrow> bool" where
  "pidAlive cfg ans running pid \<longleftrightarrow>
     pid \<in> (\<lambda>i. id_pid (lk_identity cfg i)) ` set running \<or> oa_otherPids ans pid"

definition isLive :: "lock_config \<Rightarrow> os_answer \<Rightarrow> nat list \<Rightarrow> owner_record \<Rightarrow> bool" where
  "isLive cfg ans running r \<longleftrightarrow>
     pidAlive cfg ans running (wr_pid r)
     \<or> (case date_parse (wr_heartbeatAt r) of
          None \<Rightarrow> False | Some heartbeat \<Rightarrow> oa_now ans - heartbeat \<le> lk_ttlMs cfg)"

definition isRecoverableTakeover ::
  "lock_config \<Rightarrow> os_answer \<Rightarrow> nat list \<Rightarrow> takeover_record \<Rightarrow> bool" where
  "isRecoverableTakeover cfg ans running t \<longleftrightarrow>
     0 < kr_pid t \<and> kr_pid t \<le> 0x7fffffff \<and> kr_token t \<noteq> [] \<and> kr_instanceId t \<noteq> []
     \<and> (case date_parse (kr_createdAt t) of
          None \<Rightarrow> False | Some created \<Rightarrow> lk_ttlMs cfg < oa_now ans - created)
     \<and> \<not> pidAlive cfg ans running (kr_pid t)"

definition stillRecoverable ::
  "lock_config \<Rightarrow> os_answer \<Rightarrow> nat list \<Rightarrow> lock_dir \<Rightarrow> snapshot \<Rightarrow> bool" where
  "stillRecoverable cfg ans running d stale \<longleftrightarrow>
     readTakeoverSnapshot ans d = Some (fst stale, Some (snd stale))
     \<and> isRecoverableTakeover cfg ans running (snd stale)"

section \<open>Contending\<close>

fun after_create :: "create_context \<Rightarrow> inode \<Rightarrow> bool option \<Rightarrow> contend_pc" where
  "after_create (In_Mutex m t stale) x (Some created) =
     (if stale then if created then Unlink_Moved m t else Read_Holder m t else Close_Mutex m t True)"
| "after_create (In_Mutex m t stale) x None = Close_Mutex m t True"
| "after_create (In_Recovery stale) x (Some created) = (if created then Recheck stale x else Final_Holder)"
| "after_create (In_Recovery stale) x None = Contend_Idle"

definition enter_create :: "create_context \<Rightarrow> lock_instance \<Rightarrow> contend_pc" where
  "enter_create ctx p = (if li_disposed p then after_create ctx 0 (Some False) else Open_Candidate ctx)"

definition own_takeover :: "lock_identity \<Rightarrow> int \<Rightarrow> takeover_record" where
  "own_takeover me now = \<lparr>kr_pid = id_pid me, kr_instanceId = id_instanceId me, kr_token = id_token me,
     kr_createdAt = to_iso_string now\<rparr>"

definition own_record :: "lock_identity \<Rightarrow> string \<Rightarrow> int \<Rightarrow> owner_record" where
  "own_record me generation now = \<lparr>wr_pid = id_pid me, wr_instanceId = id_instanceId me,
     wr_token = id_token me, wr_generation = generation, wr_acquiredAt = to_iso_string now,
     wr_heartbeatAt = to_iso_string now\<rparr>"

text \<open>
  \<open>loseOwnership\<close> returns at once unless the process is owner; what it does otherwise, once the
  handle is closed. It is entered through \<open>isOwner\<close> at the step before.
\<close>

definition loseOwnership :: "lock_instance \<Rightarrow> lock_instance" where
  "loseOwnership p = p\<lparr>li_handle := None, li_record := None\<rparr>"

definition cleanup_lose :: "lock_instance \<Rightarrow> contend_pc" where
  "cleanup_lose p = (if isOwner p then Cleanup_Lose else Final_Holder)"

definition renew_lose :: "bool \<Rightarrow> lock_instance \<Rightarrow> renew_pc" where
  "renew_lose awaited p = (if isOwner p then Renew_Lose awaited else Renew_Idle)"

definition write_inode :: "inode \<Rightarrow> lock_content \<Rightarrow> lock_dir \<Rightarrow> lock_dir" where
  "write_inode x c d = d\<lparr>ld_content := (ld_content d)(x := c)\<rparr>"

definition new_inode :: "lock_dir \<Rightarrow> lock_dir" where
  "new_inode d = write_inode (ld_next d) Incomplete (d\<lparr>ld_next := ld_next d + 1\<rparr>)"

text \<open>
  One file operation of a process, and the code up to the next one, method by method: each function
  is the identity on the positions of the others.
\<close>

text \<open>In \<open>createOwnerFile\<close>.\<close>

fun createOwnerFile_step ::
  "lock_config \<Rightarrow> lock_identity \<Rightarrow> nat list \<Rightarrow> os_answer \<Rightarrow> contend_pc \<Rightarrow> lock_instance \<Rightarrow> lock_dir
     \<Rightarrow> contend_pc \<times> lock_instance \<times> lock_dir" where
  "createOwnerFile_step cfg me running ans (Open_Candidate ctx) p d =
     (if \<not> oa_ok ans then (Drop_Candidate ctx True, p, d)
      else (Write_Candidate ctx (ld_next d) (own_record me (oa_uuid ans) (oa_now ans)), p, new_inode d))"
| "createOwnerFile_step cfg me running ans (Write_Candidate ctx x r) p d =
     (if \<not> oa_ok ans then (Drop_Candidate ctx True, p, d)
      else (if li_disposed p then Drop_Candidate ctx False
            else case ctx of In_Mutex _ _ _ \<Rightarrow> Link_Candidate ctx x r | In_Recovery _ \<Rightarrow> Check_Recoverable ctx x r,
            p, write_inode x (Owner_Content r) d))"
| "createOwnerFile_step cfg me running ans (Check_Recoverable ctx x r) p d =
     (if \<not> oa_ok ans then (Drop_Candidate ctx True, p, d)
      else if (case ctx of In_Mutex _ _ _ \<Rightarrow> True | In_Recovery stale \<Rightarrow> stillRecoverable cfg ans running d stale)
      then (Link_Candidate ctx x r, p, d)
      else (Drop_Candidate ctx False, p, d))"
| "createOwnerFile_step cfg me running ans (Link_Candidate ctx x r) p d =
     (if \<not> oa_ok ans then (Drop_Candidate ctx True, p, d)
      else if ld_owner d \<noteq> None then (Drop_Candidate ctx False, p, d)
      else (Linked ctx x r, p, d\<lparr>ld_owner := Some x\<rparr>))"
| "createOwnerFile_step cfg me running ans (Linked ctx x r) p d =
     (if li_disposed p then (Unlink_Unwanted ctx x, p, d)
      else (Unlink_Candidate ctx x,
            p\<lparr>li_handle := Some x, li_record := Some r, li_holder := Some r\<rparr>, d))"
| "createOwnerFile_step cfg me running ans (Unlink_Unwanted ctx x) p d =
     (if oa_ok ans then (Drop_Candidate ctx False, p, d\<lparr>ld_owner := None\<rparr>)
      else (Drop_Candidate ctx True, p, d))"
| "createOwnerFile_step cfg me running ans (Unlink_Candidate ctx x) p d =
     (after_create ctx x (if oa_ok ans then Some True else None), p, d)"
| "createOwnerFile_step cfg me running ans (Drop_Candidate ctx threw) p d =
     (after_create ctx 0 (if oa_ok ans \<and> \<not> threw then Some False else None), p, d)"
| "createOwnerFile_step cfg me running ans pc p d = (pc, p, d)"

text \<open>In \<open>releaseTakeoverMutex\<close>, on the own mutex and on an orphan one.\<close>

fun releaseTakeoverMutex_step ::
  "lock_config \<Rightarrow> lock_identity \<Rightarrow> nat list \<Rightarrow> os_answer \<Rightarrow> contend_pc \<Rightarrow> lock_instance \<Rightarrow> lock_dir
     \<Rightarrow> contend_pc \<times> lock_instance \<times> lock_dir" where
  "releaseTakeoverMutex_step cfg me running ans (Claim_Mutex m t known) p d =
     (if \<not> oa_ok ans then (Contend_Idle, p, d)
      else if \<not> known then (Contend_Idle, p, d\<lparr>ld_takeover := None\<rparr>)
      else case ld_takeover d of
        None \<Rightarrow> (Contend_Idle, p, d)
      | Some claimed \<Rightarrow> (Compare_Claimed m t claimed, p, d\<lparr>ld_takeover := None\<rparr>))"
| "releaseTakeoverMutex_step cfg me running ans (Compare_Claimed m t claimed) p d =
     (if \<not> oa_ok ans then (Contend_Idle, p, d)
      else if claimed = m \<and> (takeover_at ans d claimed = None \<or> takeover_at ans d claimed = Some t)
      then (Unlink_Claimed, p, d)
      else (Restore_Claimed claimed None, p, d))"
| "releaseTakeoverMutex_step cfg me running ans Unlink_Claimed p d = (Contend_Idle, p, d)"
| "releaseTakeoverMutex_step cfg me running ans (Claim_Stale stale x) p d =
     (if \<not> oa_ok ans then (Cleanup_Read x, p, d)
      else case ld_takeover d of
        None \<Rightarrow> (Cleanup_Read x, p, d)
      | Some claimed \<Rightarrow> (Compare_Stale stale x claimed, p, d\<lparr>ld_takeover := None\<rparr>))"
| "releaseTakeoverMutex_step cfg me running ans (Compare_Stale stale x claimed) p d =
     (if \<not> oa_ok ans then (Cleanup_Read x, p, d)
      else if claimed = fst stale \<and> takeover_at ans d claimed = Some (snd stale)
      then (Unlink_Stale_Claim x, p, d)
      else (Restore_Claimed claimed (Some x), p, d))"
| "releaseTakeoverMutex_step cfg me running ans (Unlink_Stale_Claim x) p d =
     (if oa_ok ans then (Contend_Idle, p\<lparr>li_takeoverBlocked := False\<rparr>, d) else (Cleanup_Read x, p, d))"
| "releaseTakeoverMutex_step cfg me running ans (Restore_Claimed claimed recovering) p d =
     (case recovering of None \<Rightarrow> Contend_Idle | Some x \<Rightarrow> Cleanup_Read x, p,
      if oa_ok ans \<and> ld_takeover d = None then d\<lparr>ld_takeover := Some claimed\<rparr> else d)"
| "releaseTakeoverMutex_step cfg me running ans pc p d = (pc, p, d)"

text \<open>In \<open>recoverOwnerlessTakeover\<close>.\<close>

fun recoverOwnerlessTakeover_step ::
  "lock_config \<Rightarrow> lock_identity \<Rightarrow> nat list \<Rightarrow> os_answer \<Rightarrow> contend_pc \<Rightarrow> lock_instance \<Rightarrow> lock_dir
     \<Rightarrow> contend_pc \<times> lock_instance \<times> lock_dir" where
  "recoverOwnerlessTakeover_step cfg me running ans Read_Takeover p d =
     (if \<not> oa_ok ans then (Contend_Idle, p, d)
      else case readTakeoverSnapshot ans d of
        Some (x, Some t) \<Rightarrow>
          if isRecoverableTakeover cfg ans running t then (Stat_Owner (x, t), p, d)
          else (Contend_Idle, p, d)
      | _ \<Rightarrow> (Contend_Idle, p, d))"
| "recoverOwnerlessTakeover_step cfg me running ans (Stat_Owner stale) p d =
     (if \<not> oa_ok ans \<or> ld_owner d \<noteq> None then (Contend_Idle, p, d)
      else (enter_create (In_Recovery stale) p, p, d))"
| "recoverOwnerlessTakeover_step cfg me running ans (Recheck stale x) p d =
     (if oa_ok ans \<and> stillRecoverable cfg ans running d stale then (Claim_Stale stale x, p, d)
      else (Cleanup_Read x, p, d))"
| "recoverOwnerlessTakeover_step cfg me running ans (Cleanup_Read x) p d =
     (case readRecordIfPresent ans d of
        Inl _ \<Rightarrow> (Contend_Idle, p, d)
      | Inr current \<Rightarrow>
          (case current of
             None \<Rightarrow> (cleanup_lose p, p, d)
           | Some c \<Rightarrow>
               if wr_token c = id_token me \<and> Some (wr_generation c) = map_option wr_generation (li_record p)
               then (Cleanup_Unlink x, p, d) else (cleanup_lose p, p, d)))"
| "recoverOwnerlessTakeover_step cfg me running ans (Cleanup_Unlink x) p d =
     (if oa_ok ans then (cleanup_lose p, p, d\<lparr>ld_owner := None\<rparr>) else (Contend_Idle, p, d))"
| "recoverOwnerlessTakeover_step cfg me running ans Cleanup_Lose p d = (Final_Holder, loseOwnership p, d)"
| "recoverOwnerlessTakeover_step cfg me running ans Final_Holder p d =
     (Contend_Idle,
      case readRecordIfPresent ans d of Inl _ \<Rightarrow> p | Inr current \<Rightarrow> p\<lparr>li_holder := current\<rparr>, d)"
| "recoverOwnerlessTakeover_step cfg me running ans pc p d = (pc, p, d)"

text \<open>In \<open>contendWithMutex\<close>.\<close>

fun contendWithMutex_step ::
  "lock_config \<Rightarrow> lock_identity \<Rightarrow> nat list \<Rightarrow> os_answer \<Rightarrow> contend_pc \<Rightarrow> lock_instance \<Rightarrow> lock_dir
     \<Rightarrow> contend_pc \<times> lock_instance \<times> lock_dir" where
  "contendWithMutex_step cfg me running ans (Write_Mutex observed m t) p d =
     (if \<not> oa_ok ans
      then (Close_Mutex m t True, p,
            write_inode m (if oa_garbled ans then Incomplete else Takeover_Content t) d)
      else (if li_disposed p then Close_Mutex m t True
            else if (case observed of None \<Rightarrow> False | Some ob \<Rightarrow> \<not> isLive cfg ans running ob)
            then Await_Acquired observed m t else Read_Current observed m t,
            p, write_inode m (Takeover_Content t) d))"
| "contendWithMutex_step cfg me running ans (Await_Acquired observed m t) p d =
     (if \<not> oa_ok ans \<or> li_disposed p then (Close_Mutex m t True, p, d)
      else (Read_Current observed m t, p, d))"
| "contendWithMutex_step cfg me running ans (Read_Current observed m t) p d =
     (case readRecordIfPresent ans d of
        Inl _ \<Rightarrow> (Close_Mutex m t True, p, d)
      | Inr current \<Rightarrow>
          (case (current, observed) of
             (None, None) \<Rightarrow> (enter_create (In_Mutex m t False) p, p, d)
           | (Some c, Some ob) \<Rightarrow>
               if wr_token c \<noteq> wr_token ob \<or> wr_generation c \<noteq> wr_generation ob
                  \<or> isLive cfg ans running c
               then (Close_Mutex m t True, p\<lparr>li_holder := current\<rparr>, d)
               else (Move_Stale m t, p, d)
           | _ \<Rightarrow> (Close_Mutex m t True, p\<lparr>li_holder := current\<rparr>, d)))"
| "contendWithMutex_step cfg me running ans (Move_Stale m t) p d =
     (if \<not> oa_ok ans \<or> ld_owner d = None then (Close_Mutex m t True, p, d)
      else (enter_create (In_Mutex m t True) p, p, d\<lparr>ld_owner := None\<rparr>))"
| "contendWithMutex_step cfg me running ans (Read_Holder m t) p d =
     (case readRecordIfPresent ans d of
        Inl _ \<Rightarrow> (Close_Mutex m t True, p, d)
      | Inr current \<Rightarrow> (Unlink_Moved m t, p\<lparr>li_holder := current\<rparr>, d))"
| "contendWithMutex_step cfg me running ans (Unlink_Moved m t) p d = (Close_Mutex m t True, p, d)"
| "contendWithMutex_step cfg me running ans pc p d = (pc, p, d)"

text \<open>In \<open>tryAcquire\<close> or \<open>contend\<close>, down to the file operation in progress.\<close>

fun contend_step ::
  "lock_config \<Rightarrow> lock_identity \<Rightarrow> nat list \<Rightarrow> os_answer \<Rightarrow> contend_pc \<Rightarrow> lock_instance \<Rightarrow> lock_dir
     \<Rightarrow> contend_pc \<times> lock_instance \<times> lock_dir" where
  "contend_step cfg me running ans Contend_Idle p d = (Contend_Idle, p, d)"
| "contend_step cfg me running ans Observe p d =
     (case readRecordIfPresent ans d of
        Inl _ \<Rightarrow> (Contend_Idle, p, d)
      | Inr observed \<Rightarrow> (Open_Mutex observed, p\<lparr>li_takeoverBlocked := False\<rparr>, d))"
| "contend_step cfg me running ans (Open_Mutex observed) p d =
     (if \<not> oa_ok ans then (Contend_Idle, p, d)
      else if ld_takeover d \<noteq> None
      then (Read_Takeover, p\<lparr>li_holder := observed, li_takeoverBlocked := True\<rparr>, d)
      else (Stat_Mutex observed (ld_next d) (own_takeover me (oa_now ans)), p,
            new_inode d\<lparr>ld_takeover := Some (ld_next d)\<rparr>))"
| "contend_step cfg me running ans (Stat_Mutex observed m t) p d =
     (if oa_ok ans then (Write_Mutex observed m t, p, d) else (Close_Mutex m t False, p, d))"
| "contend_step cfg me running ans (Write_Mutex observed m t) p d =
     contendWithMutex_step cfg me running ans (Write_Mutex observed m t) p d"
| "contend_step cfg me running ans (Await_Acquired observed m t) p d =
     contendWithMutex_step cfg me running ans (Await_Acquired observed m t) p d"
| "contend_step cfg me running ans (Read_Current observed m t) p d =
     contendWithMutex_step cfg me running ans (Read_Current observed m t) p d"
| "contend_step cfg me running ans (Move_Stale m t) p d =
     contendWithMutex_step cfg me running ans (Move_Stale m t) p d"
| "contend_step cfg me running ans (Read_Holder m t) p d =
     contendWithMutex_step cfg me running ans (Read_Holder m t) p d"
| "contend_step cfg me running ans (Unlink_Moved m t) p d =
     contendWithMutex_step cfg me running ans (Unlink_Moved m t) p d"
| "contend_step cfg me running ans (Close_Mutex m t known) p d = (Claim_Mutex m t known, p, d)"
| "contend_step cfg me running ans (Claim_Mutex m t known) p d =
     releaseTakeoverMutex_step cfg me running ans (Claim_Mutex m t known) p d"
| "contend_step cfg me running ans (Compare_Claimed m t claimed) p d =
     releaseTakeoverMutex_step cfg me running ans (Compare_Claimed m t claimed) p d"
| "contend_step cfg me running ans Unlink_Claimed p d =
     releaseTakeoverMutex_step cfg me running ans Unlink_Claimed p d"
| "contend_step cfg me running ans (Restore_Claimed claimed recovering) p d =
     releaseTakeoverMutex_step cfg me running ans (Restore_Claimed claimed recovering) p d"
| "contend_step cfg me running ans (Open_Candidate ctx) p d =
     createOwnerFile_step cfg me running ans (Open_Candidate ctx) p d"
| "contend_step cfg me running ans (Write_Candidate ctx x r) p d =
     createOwnerFile_step cfg me running ans (Write_Candidate ctx x r) p d"
| "contend_step cfg me running ans (Check_Recoverable ctx x r) p d =
     createOwnerFile_step cfg me running ans (Check_Recoverable ctx x r) p d"
| "contend_step cfg me running ans (Link_Candidate ctx x r) p d =
     createOwnerFile_step cfg me running ans (Link_Candidate ctx x r) p d"
| "contend_step cfg me running ans (Linked ctx x r) p d =
     createOwnerFile_step cfg me running ans (Linked ctx x r) p d"
| "contend_step cfg me running ans (Unlink_Unwanted ctx x) p d =
     createOwnerFile_step cfg me running ans (Unlink_Unwanted ctx x) p d"
| "contend_step cfg me running ans (Unlink_Candidate ctx x) p d =
     createOwnerFile_step cfg me running ans (Unlink_Candidate ctx x) p d"
| "contend_step cfg me running ans (Drop_Candidate ctx threw) p d =
     createOwnerFile_step cfg me running ans (Drop_Candidate ctx threw) p d"
| "contend_step cfg me running ans Read_Takeover p d =
     recoverOwnerlessTakeover_step cfg me running ans Read_Takeover p d"
| "contend_step cfg me running ans (Stat_Owner stale) p d =
     recoverOwnerlessTakeover_step cfg me running ans (Stat_Owner stale) p d"
| "contend_step cfg me running ans (Recheck stale x) p d =
     recoverOwnerlessTakeover_step cfg me running ans (Recheck stale x) p d"
| "contend_step cfg me running ans (Claim_Stale stale x) p d =
     releaseTakeoverMutex_step cfg me running ans (Claim_Stale stale x) p d"
| "contend_step cfg me running ans (Compare_Stale stale x claimed) p d =
     releaseTakeoverMutex_step cfg me running ans (Compare_Stale stale x claimed) p d"
| "contend_step cfg me running ans (Unlink_Stale_Claim x) p d =
     releaseTakeoverMutex_step cfg me running ans (Unlink_Stale_Claim x) p d"
| "contend_step cfg me running ans (Cleanup_Read x) p d =
     recoverOwnerlessTakeover_step cfg me running ans (Cleanup_Read x) p d"
| "contend_step cfg me running ans (Cleanup_Unlink x) p d =
     recoverOwnerlessTakeover_step cfg me running ans (Cleanup_Unlink x) p d"
| "contend_step cfg me running ans Cleanup_Lose p d =
     recoverOwnerlessTakeover_step cfg me running ans Cleanup_Lose p d"
| "contend_step cfg me running ans Final_Holder p d =
     recoverOwnerlessTakeover_step cfg me running ans Final_Holder p d"

section \<open>Renewing and disposing\<close>

text \<open>
  The flag says whether the heartbeat timer made the call; the timer gives up ownership on any
  error, after the renewal has ended, so a disposal does not wait for that (\<open>Renew_Lose False\<close>).
  A renewal overwrites a record of the same length in place: when the write fails, the heartbeat
  the file is left with is any text.
\<close>

fun renew_step ::
  "lock_identity \<Rightarrow> os_answer \<Rightarrow> renew_pc \<Rightarrow> lock_instance \<Rightarrow> lock_dir \<Rightarrow> renew_pc \<times> lock_instance \<times> lock_dir" where
  "renew_step me ans Renew_Idle p d = (Renew_Idle, p, d)"
| "renew_step me ans (Renew_Read timer h r) p d =
     (case readRecordIfPresent ans d of
        Inl _ \<Rightarrow> (if timer then renew_lose False p else Renew_Idle, p, d)
      | Inr current \<Rightarrow>
          if (case current of
                None \<Rightarrow> True
              | Some c \<Rightarrow> wr_token c \<noteq> id_token me \<or> wr_instanceId c \<noteq> id_instanceId me
                         \<or> wr_pid c \<noteq> id_pid me \<or> wr_generation c \<noteq> wr_generation r)
          then (renew_lose True p, p, d)
          else (Renew_Write timer h (r\<lparr>wr_heartbeatAt := to_iso_string (oa_now ans)\<rparr>), p, d))"
| "renew_step me ans (Renew_Write timer h r) p d =
     (if oa_ok ans
      then (Renew_Idle, p\<lparr>li_record := Some r, li_holder := Some r\<rparr>, write_inode h (Owner_Content r) d)
      else (if timer then renew_lose False p else Renew_Idle, p,
            write_inode h (if oa_garbled ans then Incomplete
                           else Owner_Content (r\<lparr>wr_heartbeatAt := oa_torn ans\<rparr>)) d))"
| "renew_step me ans (Renew_Lose awaited) p d = (Renew_Idle, loseOwnership p, d)"

fun dispose_step ::
  "lock_identity \<Rightarrow> os_answer \<Rightarrow> dispose_pc \<Rightarrow> lock_instance \<Rightarrow> lock_dir \<Rightarrow> dispose_pc \<times> lock_instance \<times> lock_dir" where
  "dispose_step me ans Dispose_Idle p d = (Dispose_Idle, p, d)"
| "dispose_step me ans Dispose_Read p d =
     (if li_contend p \<noteq> Contend_Idle \<or> li_renew p \<notin> {Renew_Idle, Renew_Lose False} then (Dispose_Read, p, d)
      else case readRecordIfPresent ans d of
        Inl _ \<Rightarrow> (Dispose_Idle, p, d)
      | Inr current \<Rightarrow>
          (case current of
             None \<Rightarrow> (Dispose_Close, p\<lparr>li_lockReleased := True\<rparr>, d)
           | Some c \<Rightarrow>
               if wr_token c = id_token me \<and> wr_instanceId c = id_instanceId me
                  \<and> Some (wr_generation c) = map_option wr_generation (li_record p)
               then (Dispose_Unlink, p, d)
               else (Dispose_Close, p\<lparr>li_lockReleased := True\<rparr>, d)))"
| "dispose_step me ans Dispose_Unlink p d =
     (if oa_ok ans then (Dispose_Close, p\<lparr>li_lockReleased := True\<rparr>, d\<lparr>ld_owner := None\<rparr>)
      else (Dispose_Idle, p, d))"
| "dispose_step me ans Dispose_Close p d =
     (if li_handle p \<noteq> None \<and> \<not> oa_ok ans then (Dispose_Idle, p, d)
      else (Dispose_Idle, p\<lparr>li_handle := None, li_record := None, li_disposeComplete := True\<rparr>, d))"

section \<open>Histories\<close>

datatype lock_event =
    Start_Process nat
  | Crash_Process nat
  | Call_Contend nat
  | Step_Contend nat os_answer
  | Call_Renew nat bool
  | Step_Renew nat os_answer
  | Call_Dispose nat
  | Step_Dispose nat os_answer

definition put_instance :: "nat \<Rightarrow> lock_instance \<Rightarrow> lock_dir \<Rightarrow> lock_world \<Rightarrow> lock_world" where
  "put_instance i p d w = w\<lparr>lw_dir := d, lw_instances := (lw_instances w)(i := p)\<rparr>"

fun lock_step :: "lock_config \<Rightarrow> lock_event \<Rightarrow> lock_world \<Rightarrow> lock_world" where
  "lock_step cfg (Start_Process i) w =
     (if li_state (lw_instances w i) \<noteq> Unstarted then w
      else put_instance i ((lw_instances w i)\<lparr>li_state := Running_Process, li_contend := Observe\<rparr>)
             (lw_dir w) (w\<lparr>lw_running := i # lw_running w\<rparr>))"
| "lock_step cfg (Crash_Process i) w =
     (if li_state (lw_instances w i) \<noteq> Running_Process then w
      else put_instance i ((lw_instances w i)\<lparr>li_state := Exited\<rparr>) (lw_dir w)
             (w\<lparr>lw_running := removeAll i (lw_running w)\<rparr>))"
| "lock_step cfg (Call_Contend i) w =
     (let p = lw_instances w i in
      if li_state p \<noteq> Running_Process \<or> li_contend p \<noteq> Contend_Idle \<or> li_disposed p \<or> isOwner p then w
      else put_instance i (p\<lparr>li_contend := Observe\<rparr>) (lw_dir w) w)"
| "lock_step cfg (Step_Contend i ans) w =
     (let p = lw_instances w i in
      if li_state p \<noteq> Running_Process then w
      else let (pc, p', d) = contend_step cfg (lk_identity cfg i) (lw_running w) ans (li_contend p) p (lw_dir w)
        in put_instance i (p'\<lparr>li_contend := pc\<rparr>) d w)"
| "lock_step cfg (Call_Renew i timer) w =
     (let p = lw_instances w i in
      if li_state p \<noteq> Running_Process \<or> li_renew p \<noteq> Renew_Idle \<or> li_disposed p then w
      else case (li_handle p, li_record p) of
        (Some h, Some r) \<Rightarrow> put_instance i (p\<lparr>li_renew := Renew_Read timer h r\<rparr>) (lw_dir w) w
      | _ \<Rightarrow> w)"
| "lock_step cfg (Step_Renew i ans) w =
     (let p = lw_instances w i in
      if li_state p \<noteq> Running_Process then w
      else let (pc, p', d) = renew_step (lk_identity cfg i) ans (li_renew p) p (lw_dir w)
        in put_instance i (p'\<lparr>li_renew := pc\<rparr>) d w)"
| "lock_step cfg (Call_Dispose i) w =
     (let p = lw_instances w i in
      if li_state p \<noteq> Running_Process \<or> li_dispose p \<noteq> Dispose_Idle \<or> li_disposeComplete p then w
      else put_instance i (p\<lparr>li_disposed := True,
             li_dispose := (if li_lockReleased p then Dispose_Close else Dispose_Read)\<rparr>) (lw_dir w) w)"
| "lock_step cfg (Step_Dispose i ans) w =
     (let p = lw_instances w i in
      if li_state p \<noteq> Running_Process then w
      else let (pc, p', d) = dispose_step (lk_identity cfg i) ans (li_dispose p) p (lw_dir w)
        in put_instance i (p'\<lparr>li_dispose := pc\<rparr>) d w)"

definition initial_world :: "lock_dir \<Rightarrow> lock_world" where
  "initial_world d = \<lparr>lw_dir = d, lw_running = [], lw_instances = (\<lambda>_. new_lock)\<rparr>"

section \<open>Writing under the lock\<close>

text \<open>
  \<open>FencedStateStore.update\<close>: the fence is the generation the store was made with; the ownership
  is asked before the write, and again after it, each time with \<open>assertOwner\<close> between.
\<close>

record fence_answers =
  fa_before :: "string option"
  fa_assertBefore :: "(mesh_error, unit) result"
  fa_checked :: "string option"
  fa_assertAfter :: "(mesh_error, unit) result"
  fa_after :: "string option"

definition generationChangedError :: mesh_error where
  "generationChangedError = Mesh_Domain_Error WORKER_DRAINING True"

definition fenced_update ::
  "string option \<Rightarrow> fence_answers \<Rightarrow> ('s, unit) stateful \<Rightarrow> ('s, unit) stateful" where
  "fenced_update generation ans write =
     (if generation = None \<or> fa_before ans \<noteq> generation then liftS (Inl generationChangedError)
      else bindS (liftS (fa_assertBefore ans)) (\<lambda>_.
        if fa_checked ans \<noteq> generation then liftS (Inl generationChangedError)
        else bindS write (\<lambda>_. bindS (liftS (fa_assertAfter ans)) (\<lambda>_.
          if fa_after ans \<noteq> generation then liftS (Inl generationChangedError)
          else liftS (Inr ())))))"

text \<open>A store that is written was fenced right before, and an update that returns was fenced after.\<close>

lemma fenced_update_fenced:
  "snd (fenced_update generation ans write s) \<noteq> s \<Longrightarrow> generation \<noteq> None \<and> fa_checked ans = generation"
  "fst (fenced_update generation ans write s) = Inr () \<Longrightarrow> generation \<noteq> None \<and> fa_after ans = generation"
  by (auto simp: fenced_update_def bindS_def liftS_def split: if_splits sum.splits prod.splits)

end
