(* ===== verification/Owner_Lock_Safety.thy ===== *)
theory Owner_Lock_Safety
  imports Owner_Lock
begin

text \<open>
  The owner lock is safe: no two processes own the broker's storage directory at the same time.
  Every process relies on files nobody else removes; a step of one process leaves what the others
  rely on.
\<close>

section \<open>What a process relies on\<close>

fun context_inodes :: "create_context \<Rightarrow> inode set" where
  "context_inodes (In_Mutex m t stale) = {m}"
| "context_inodes (In_Recovery stale) = {}"

text \<open>The takeover file a process holds.\<close>

fun mutex_inodes :: "contend_pc \<Rightarrow> inode set" where
  "mutex_inodes (Stat_Mutex ob m t) = {m}"
| "mutex_inodes (Write_Mutex ob m t) = {m}"
| "mutex_inodes (Await_Acquired ob m t) = {m}"
| "mutex_inodes (Read_Current ob m t) = {m}"
| "mutex_inodes (Move_Stale m t) = {m}"
| "mutex_inodes (Read_Holder m t) = {m}"
| "mutex_inodes (Unlink_Moved m t) = {m}"
| "mutex_inodes (Close_Mutex m t known) = {m}"
| "mutex_inodes (Claim_Mutex m t known) = {m}"
| "mutex_inodes (Open_Candidate ctx) = context_inodes ctx"
| "mutex_inodes (Write_Candidate ctx x r) = context_inodes ctx"
| "mutex_inodes (Check_Recoverable ctx x r) = context_inodes ctx"
| "mutex_inodes (Link_Candidate ctx x r) = context_inodes ctx"
| "mutex_inodes (Linked ctx x r) = context_inodes ctx"
| "mutex_inodes (Unlink_Unwanted ctx x) = context_inodes ctx"
| "mutex_inodes (Unlink_Candidate ctx x) = context_inodes ctx"
| "mutex_inodes (Drop_Candidate ctx threw) = context_inodes ctx"
| "mutex_inodes _ = {}"

text \<open>The owner file a process has published in this contention.\<close>

fun linked_inodes :: "contend_pc \<Rightarrow> inode set" where
  "linked_inodes (Linked ctx x r) = {x}"
| "linked_inodes (Unlink_Unwanted ctx x) = {x}"
| "linked_inodes (Unlink_Candidate ctx x) = {x}"
| "linked_inodes (Recheck stale x) = {x}"
| "linked_inodes (Claim_Stale stale x) = {x}"
| "linked_inodes (Compare_Stale stale x claimed) = {x}"
| "linked_inodes (Unlink_Stale_Claim x) = {x}"
| "linked_inodes (Restore_Claimed claimed recovering) = set_option recovering"
| "linked_inodes (Cleanup_Read x) = {x}"
| "linked_inodes (Cleanup_Unlink x) = {x}"
| "linked_inodes _ = {}"

fun candidate_inodes :: "contend_pc \<Rightarrow> inode set" where
  "candidate_inodes (Write_Candidate ctx x r) = {x}"
| "candidate_inodes (Check_Recoverable ctx x r) = {x}"
| "candidate_inodes (Link_Candidate ctx x r) = {x}"
| "candidate_inodes _ = {}"

fun renew_inodes :: "renew_pc \<Rightarrow> inode set" where
  "renew_inodes (Renew_Read timer h r) = {h}"
| "renew_inodes (Renew_Write timer h r) = {h}"
| "renew_inodes _ = {}"

text \<open>A takeover file that may be put back.\<close>

fun claimed_inodes :: "contend_pc \<Rightarrow> inode set" where
  "claimed_inodes (Compare_Claimed m t claimed) = {claimed}"
| "claimed_inodes (Compare_Stale stale x claimed) = {claimed}"
| "claimed_inodes (Restore_Claimed claimed recovering) = {claimed}"
| "claimed_inodes _ = {}"

fun contend_owner_records :: "contend_pc \<Rightarrow> owner_record set" where
  "contend_owner_records (Write_Candidate ctx x r) = {r}"
| "contend_owner_records (Check_Recoverable ctx x r) = {r}"
| "contend_owner_records (Link_Candidate ctx x r) = {r}"
| "contend_owner_records (Linked ctx x r) = {r}"
| "contend_owner_records _ = {}"

fun renew_records :: "renew_pc \<Rightarrow> owner_record set" where
  "renew_records (Renew_Read timer h r) = {r}"
| "renew_records (Renew_Write timer h r) = {r}"
| "renew_records _ = {}"

fun takeover_records :: "contend_pc \<Rightarrow> takeover_record set" where
  "takeover_records (Stat_Mutex ob m t) = {t}"
| "takeover_records (Write_Mutex ob m t) = {t}"
| "takeover_records _ = {}"

definition held_inodes :: "lock_instance \<Rightarrow> inode set" where
  "held_inodes p = (if li_disposed p \<or> li_contend p = Cleanup_Lose then {} else set_option (li_handle p))"

definition own_inodes :: "lock_instance \<Rightarrow> inode set" where
  "own_inodes p = mutex_inodes (li_contend p) \<union> linked_inodes (li_contend p)
     \<union> candidate_inodes (li_contend p) \<union> set_option (li_handle p) \<union> renew_inodes (li_renew p)"

definition own_records :: "lock_instance \<Rightarrow> owner_record set" where
  "own_records p = contend_owner_records (li_contend p) \<union> set_option (li_record p) \<union> renew_records (li_renew p)"

definition my_record :: "lock_identity \<Rightarrow> owner_record \<Rightarrow> bool" where
  "my_record me r \<longleftrightarrow> wr_token r = id_token me \<and> wr_pid r = id_pid me"

definition my_takeover :: "lock_identity \<Rightarrow> takeover_record \<Rightarrow> bool" where
  "my_takeover me t \<longleftrightarrow> kr_token t = id_token me \<and> kr_pid t = id_pid me"

fun my_content :: "lock_identity \<Rightarrow> lock_content \<Rightarrow> bool" where
  "my_content me Incomplete = True"
| "my_content me (Owner_Content r) = my_record me r"
| "my_content me (Takeover_Content t) = my_takeover me t"

definition dead_token :: "lock_config \<Rightarrow> (nat \<Rightarrow> process_state) \<Rightarrow> string \<Rightarrow> bool" where
  "dead_token cfg st token \<longleftrightarrow> (\<forall>j. token = id_token (lk_identity cfg j) \<longrightarrow> st j = Exited)"

definition dead_owner :: "lock_config \<Rightarrow> (nat \<Rightarrow> process_state) \<Rightarrow> lock_dir \<Rightarrow> bool" where
  "dead_owner cfg st d \<longleftrightarrow>
     (\<exists>y r. ld_owner d = Some y \<and> ld_content d y = Owner_Content r \<and> dead_token cfg st (wr_token r))"

definition dead_takeover :: "lock_config \<Rightarrow> (nat \<Rightarrow> process_state) \<Rightarrow> lock_dir \<Rightarrow> snapshot \<Rightarrow> bool" where
  "dead_takeover cfg st d stale \<longleftrightarrow>
     ld_takeover d = Some (fst stale) \<and> ld_content d (fst stale) = Takeover_Content (snd stale)
     \<and> dead_token cfg st (kr_token (snd stale))"

definition own_owner_file :: "lock_identity \<Rightarrow> lock_dir \<Rightarrow> bool" where
  "own_owner_file me d \<longleftrightarrow> (\<exists>y r. ld_owner d = Some y \<and> ld_content d y = Owner_Content r \<and> my_record me r)"

fun is_move_stale :: "contend_pc \<Rightarrow> bool" where
  "is_move_stale (Move_Stale m t) = True"
| "is_move_stale _ = False"

fun is_unlink_unwanted :: "contend_pc \<Rightarrow> bool" where
  "is_unlink_unwanted (Unlink_Unwanted ctx x) = True"
| "is_unlink_unwanted _ = False"

fun claim_stale_of :: "contend_pc \<Rightarrow> snapshot option" where
  "claim_stale_of (Claim_Stale stale x) = Some stale"
| "claim_stale_of _ = None"

definition process_ok ::
  "lock_config \<Rightarrow> (nat \<Rightarrow> process_state) \<Rightarrow> lock_dir \<Rightarrow> nat \<Rightarrow> lock_instance \<Rightarrow> bool" where
  "process_ok cfg st d i p \<longleftrightarrow>
     (\<forall>x \<in> own_inodes p. x < ld_next d \<and> my_content (lk_identity cfg i) (ld_content d x))
     \<and> (\<forall>x \<in> claimed_inodes (li_contend p). x < ld_next d)
     \<and> (\<forall>r \<in> own_records p. my_record (lk_identity cfg i) r)
     \<and> (\<forall>t \<in> takeover_records (li_contend p). my_takeover (lk_identity cfg i) t)
     \<and> (\<forall>x \<in> linked_inodes (li_contend p) \<union> held_inodes p. ld_owner d = Some x)
     \<and> (\<forall>m \<in> mutex_inodes (li_contend p). ld_takeover d = Some m)
     \<and> (is_move_stale (li_contend p) \<longrightarrow> dead_owner cfg st d)
     \<and> (\<forall>stale. claim_stale_of (li_contend p) = Some stale \<longrightarrow> dead_takeover cfg st d stale)
     \<and> (li_dispose p = Dispose_Unlink \<longrightarrow>
          li_contend p = Contend_Idle \<and> renew_inodes (li_renew p) = {} \<and> li_disposed p
          \<and> own_owner_file (lk_identity cfg i) d)
     \<and> (li_dispose p \<noteq> Dispose_Idle \<or> is_unlink_unwanted (li_contend p) \<longrightarrow> li_disposed p)
     \<and> (li_handle p \<noteq> None \<longrightarrow> li_record p \<noteq> None)"

definition files_ok :: "lock_config \<Rightarrow> (nat \<Rightarrow> process_state) \<Rightarrow> lock_dir \<Rightarrow> bool" where
  "files_ok cfg st d \<longleftrightarrow>
     (\<forall>x. ld_owner d = Some x \<longrightarrow> x < ld_next d) \<and> (\<forall>x. ld_takeover d = Some x \<longrightarrow> x < ld_next d)
     \<and> (\<forall>x r j. ld_content d x = Owner_Content r \<longrightarrow> wr_token r = id_token (lk_identity cfg j) \<longrightarrow>
          st j \<noteq> Unstarted \<and> wr_pid r = id_pid (lk_identity cfg j))
     \<and> (\<forall>x t j. ld_content d x = Takeover_Content t \<longrightarrow> kr_token t = id_token (lk_identity cfg j) \<longrightarrow>
          st j \<noteq> Unstarted \<and> kr_pid t = id_pid (lk_identity cfg j))"

definition states :: "lock_world \<Rightarrow> nat \<Rightarrow> process_state" where
  "states w i = li_state (lw_instances w i)"

definition world_ok :: "lock_config \<Rightarrow> lock_world \<Rightarrow> bool" where
  "world_ok cfg w \<longleftrightarrow>
     set (lw_running w) = {i. states w i = Running_Process}
     \<and> (\<forall>i. states w i = Unstarted \<longrightarrow> lw_instances w i = new_lock)
     \<and> files_ok cfg (states w) (lw_dir w)
     \<and> (\<forall>i. states w i = Running_Process \<longrightarrow> process_ok cfg (states w) (lw_dir w) i (lw_instances w i))
     \<and> (\<forall>i j. states w i = Running_Process \<longrightarrow> states w j = Running_Process \<longrightarrow> i \<noteq> j \<longrightarrow>
          own_inodes (lw_instances w i) \<inter> own_inodes (lw_instances w j) = {})"

definition distinct_tokens :: "lock_config \<Rightarrow> bool" where
  "distinct_tokens cfg \<longleftrightarrow>
     (\<forall>i j. id_token (lk_identity cfg i) = id_token (lk_identity cfg j) \<longrightarrow> i = j)"

section \<open>Nobody else relies on a file\<close>

definition relies_on_owner :: "lock_instance \<Rightarrow> bool" where
  "relies_on_owner p \<longleftrightarrow> linked_inodes (li_contend p) \<union> held_inodes p \<noteq> {}
     \<or> is_move_stale (li_contend p) \<or> li_dispose p = Dispose_Unlink"

definition relies_on_takeover :: "lock_instance \<Rightarrow> bool" where
  "relies_on_takeover p \<longleftrightarrow> mutex_inodes (li_contend p) \<noteq> {} \<or> claim_stale_of (li_contend p) \<noteq> None"


lemma dead_not_mine:
  "st i = Running_Process \<Longrightarrow> my_record (lk_identity cfg i) r \<Longrightarrow> \<not> dead_token cfg st (wr_token r)"
  "st i = Running_Process \<Longrightarrow> my_takeover (lk_identity cfg i) t \<Longrightarrow> \<not> dead_token cfg st (kr_token t)"
  by (auto simp: dead_token_def my_record_def my_takeover_def)

lemma mine_unique:
  "distinct_tokens cfg \<Longrightarrow> my_record (lk_identity cfg i) r \<Longrightarrow> my_record (lk_identity cfg j) r \<Longrightarrow> i = j"
  by (auto simp: distinct_tokens_def my_record_def)

lemma my_token: "distinct_tokens cfg \<Longrightarrow> my_record (lk_identity cfg i) r \<Longrightarrow> wr_token r = id_token (lk_identity cfg j) \<longleftrightarrow> j = i"
  "distinct_tokens cfg \<Longrightarrow> my_takeover (lk_identity cfg i) t \<Longrightarrow> kr_token t = id_token (lk_identity cfg j) \<longleftrightarrow> j = i"
  by (auto simp: distinct_tokens_def my_record_def my_takeover_def)

lemma claim_stale_linked: "claim_stale_of pc = Some stale \<Longrightarrow> linked_inodes pc \<noteq> {}"
  by (cases pc) simp_all

lemma move_stale_mutex: "is_move_stale pc \<Longrightarrow> mutex_inodes pc \<noteq> {}"
  by (cases pc) simp_all

lemma published_own: "linked_inodes (li_contend p) \<union> held_inodes p \<subseteq> own_inodes p"
  by (auto simp: held_inodes_def own_inodes_def split: if_splits)

lemma mutex_own: "mutex_inodes (li_contend p) \<subseteq> own_inodes p"
  by (auto simp: own_inodes_def)

text \<open>What a process that relies on the owner file knows about it.\<close>

lemma relies_on_owner_cases:
  assumes "process_ok cfg st d i p" "relies_on_owner p"
  obtains (own) x where "ld_owner d = Some x" "x \<in> own_inodes p"
  | (stale) m where "dead_owner cfg st d" "ld_takeover d = Some m" "m \<in> own_inodes p"
  | (mine) "own_owner_file (lk_identity cfg i) d"
proof -
  consider x where "x \<in> linked_inodes (li_contend p) \<union> held_inodes p"
    | "is_move_stale (li_contend p)" | "li_dispose p = Dispose_Unlink"
    using assms(2) unfolding relies_on_owner_def by blast
  then show thesis
  proof cases
    case (1 x)
    moreover from 1 have "ld_owner d = Some x"
      using assms(1) by (simp add: process_ok_def)
    ultimately show thesis
      using own published_own by blast
  next
    case 2
    then obtain m where m: "m \<in> mutex_inodes (li_contend p)"
      using move_stale_mutex by blast
    then have "ld_takeover d = Some m" "dead_owner cfg st d"
      using assms(1) 2 by (simp_all add: process_ok_def)
    with m show thesis
      using stale mutex_own by blast
  next
    case 3
    then show thesis
      using assms(1) mine by (simp add: process_ok_def)
  qed
qed

lemma own_content: "process_ok cfg st d i p \<Longrightarrow> x \<in> own_inodes p \<Longrightarrow> my_content (lk_identity cfg i) (ld_content d x)"
  by (simp add: process_ok_def)

lemma own_not_dead:
  "process_ok cfg st d i p \<Longrightarrow> st i = Running_Process \<Longrightarrow> x \<in> own_inodes p \<Longrightarrow> ld_owner d = Some x
     \<Longrightarrow> \<not> dead_owner cfg st d"
  using own_content [of cfg st d i p x] dead_not_mine(1) [of st i cfg] by (auto simp: dead_owner_def)

lemma mine_not_dead:
  "st i = Running_Process \<Longrightarrow> own_owner_file (lk_identity cfg i) d \<Longrightarrow> \<not> dead_owner cfg st d"
  using dead_not_mine(1) [of st i cfg] by (auto simp: dead_owner_def own_owner_file_def)

lemma own_not_mine:
  "distinct_tokens cfg \<Longrightarrow> process_ok cfg st d i p \<Longrightarrow> x \<in> own_inodes p \<Longrightarrow> ld_owner d = Some x
     \<Longrightarrow> own_owner_file (lk_identity cfg j) d \<Longrightarrow> i = j"
  using own_content [of cfg st d i p x] mine_unique [of cfg i _ j] by (auto simp: own_owner_file_def)

lemma mine_not_mine:
  "distinct_tokens cfg \<Longrightarrow> own_owner_file (lk_identity cfg i) d \<Longrightarrow> own_owner_file (lk_identity cfg j) d \<Longrightarrow> i = j"
  using mine_unique [of cfg i _ j] by (auto simp: own_owner_file_def)

lemma relies_on_owner_unique:
  assumes "distinct_tokens cfg" "st i = Running_Process" "st j = Running_Process"
    and "process_ok cfg st d i p" "process_ok cfg st d j q"
    and "own_inodes p \<inter> own_inodes q = {}"
    and "relies_on_owner p" "relies_on_owner q"
  shows "i = j"
  using assms(4,7)
proof (cases rule: relies_on_owner_cases)
  case (own x)
  from assms(5,8) show ?thesis
    by (cases rule: relies_on_owner_cases)
      (use own assms own_not_dead [OF assms(4,2)] own_not_mine [OF assms(1,4)] in \<open>auto\<close>)
next
  case (stale m)
  from assms(5,8) show ?thesis
    by (cases rule: relies_on_owner_cases)
      (use stale assms own_not_dead [OF assms(5,3)] mine_not_dead [of st j cfg d] in \<open>auto\<close>)
next
  case mine
  from assms(5,8) show ?thesis
    by (cases rule: relies_on_owner_cases)
      (use mine assms own_not_mine [OF assms(1,5)] mine_not_dead [of st i cfg d] mine_not_mine [OF assms(1)] in \<open>auto\<close>)
qed

lemma relies_on_takeover_cases:
  assumes "process_ok cfg st d i p" "relies_on_takeover p"
  obtains (own) m where "ld_takeover d = Some m" "m \<in> own_inodes p"
  | (stale) stale where "dead_takeover cfg st d stale" "relies_on_owner p"
proof -
  consider m where "m \<in> mutex_inodes (li_contend p)" | stale where "claim_stale_of (li_contend p) = Some stale"
    using assms(2) unfolding relies_on_takeover_def by blast
  then show thesis
  proof cases
    case (1 m)
    then have "ld_takeover d = Some m"
      using assms(1) by (simp add: process_ok_def)
    with 1 show thesis
      using own mutex_own by blast
  next
    case (2 s)
    then have "dead_takeover cfg st d s" "relies_on_owner p"
      using assms(1) claim_stale_linked [OF 2] by (simp_all add: process_ok_def relies_on_owner_def)
    then show thesis by (rule stale)
  qed
qed

lemma own_not_dead_takeover:
  "process_ok cfg st d i p \<Longrightarrow> st i = Running_Process \<Longrightarrow> m \<in> own_inodes p \<Longrightarrow> ld_takeover d = Some m
     \<Longrightarrow> \<not> dead_takeover cfg st d stale"
  using own_content [of cfg st d i p m] dead_not_mine(2) [of st i cfg] by (auto simp: dead_takeover_def)

lemma relies_on_takeover_unique:
  assumes "distinct_tokens cfg" "st i = Running_Process" "st j = Running_Process"
    and "process_ok cfg st d i p" "process_ok cfg st d j q"
    and "own_inodes p \<inter> own_inodes q = {}"
    and "relies_on_takeover p" "relies_on_takeover q"
  shows "i = j"
  using assms(4,7)
proof (cases rule: relies_on_takeover_cases)
  case (own m)
  from assms(5,8) show ?thesis
    by (cases rule: relies_on_takeover_cases)
      (use own assms(6) own_not_dead_takeover [OF assms(4,2)] in \<open>auto\<close>)
next
  case (stale s)
  from assms(5,8) show ?thesis
    by (cases rule: relies_on_takeover_cases)
      (use stale assms own_not_dead_takeover [OF assms(5,3)] relies_on_owner_unique [OF assms(1-6)] in \<open>auto\<close>)
qed

section \<open>One step of a process\<close>

definition step_ok ::
  "lock_config \<Rightarrow> (nat \<Rightarrow> process_state) \<Rightarrow> nat \<Rightarrow> lock_instance \<Rightarrow> lock_dir \<Rightarrow> lock_instance \<Rightarrow> lock_dir \<Rightarrow> bool" where
  "step_ok cfg st i p d p' d' \<longleftrightarrow>
     ld_next d \<le> ld_next d'
     \<and> (\<forall>x. x < ld_next d \<longrightarrow> x \<notin> own_inodes p \<longrightarrow> ld_content d' x = ld_content d x)
     \<and> (ld_owner d' = ld_owner d \<or> ld_owner d = None \<or> relies_on_owner p)
     \<and> (ld_takeover d' = ld_takeover d \<or> ld_takeover d = None \<or> relies_on_takeover p)
     \<and> files_ok cfg st d' \<and> process_ok cfg st d' i p'
     \<and> own_inodes p' \<subseteq> own_inodes p \<union> {ld_next d ..} \<and> li_state p' = li_state p"

lemma others_unaffected:
  assumes "distinct_tokens cfg" "i \<noteq> j" "st i = Running_Process" "st j = Running_Process"
    and "process_ok cfg st d i p" "process_ok cfg st d j q" "files_ok cfg st d"
    and "own_inodes p \<inter> own_inodes q = {}" "step_ok cfg st i p d p' d'"
  shows "process_ok cfg st d' j q"
proof -
  have next_mono: "ld_next d \<le> ld_next d'"
    and frame: "\<And>x. x < ld_next d \<Longrightarrow> x \<notin> own_inodes p \<Longrightarrow> ld_content d' x = ld_content d x"
    using assms(9) by (simp_all add: step_ok_def)
  have owner: "ld_owner d' = ld_owner d" if "relies_on_owner q"
    using that assms relies_on_owner_unique [OF assms(1,3,4,5,6,8)]
    by (cases rule: relies_on_owner_cases [OF assms(6) that])
      (auto simp: step_ok_def dead_owner_def own_owner_file_def)
  have takeover: "ld_takeover d' = ld_takeover d" if "relies_on_takeover q"
    using that assms relies_on_takeover_unique [OF assms(1,3,4,5,6,8)]
    by (cases rule: relies_on_takeover_cases [OF assms(6) that]) (auto simp: step_ok_def dead_takeover_def)
  have own: "x < ld_next d' \<and> my_content (lk_identity cfg j) (ld_content d' x)" if "x \<in> own_inodes q" for x
  proof -
    have "x < ld_next d" "x \<notin> own_inodes p"
      using that assms(6,8) unfolding process_ok_def by blast+
    with own_content [OF assms(6) that] frame [of x] next_mono show ?thesis by simp
  qed
  have moved: "dead_owner cfg st d'" if "is_move_stale (li_contend q)"
  proof -
    have "relies_on_owner q" "dead_owner cfg st d"
      using that assms(6) by (simp_all add: relies_on_owner_def process_ok_def)
    with owner frame own_not_dead [OF assms(5,3)] show ?thesis
      using assms(7) by (fastforce simp: dead_owner_def files_ok_def)
  qed
  have stale: "dead_takeover cfg st d' stale" if "claim_stale_of (li_contend q) = Some stale" for stale
  proof -
    have "relies_on_takeover q" "dead_takeover cfg st d stale"
      using that assms(6) by (simp_all add: relies_on_takeover_def process_ok_def)
    with takeover frame own_not_dead_takeover [OF assms(5,3)] show ?thesis
      using assms(7) by (fastforce simp: dead_takeover_def files_ok_def)
  qed
  have mine: "own_owner_file (lk_identity cfg j) d'" if "li_dispose q = Dispose_Unlink"
  proof -
    have "relies_on_owner q" "own_owner_file (lk_identity cfg j) d"
      using that assms(6) by (simp_all add: relies_on_owner_def process_ok_def)
    with owner frame own_not_mine [OF assms(1,5)] show ?thesis
      using assms(2,7) by (fastforce simp: own_owner_file_def files_ok_def)
  qed
  have published: "ld_owner d' = Some x" if "x \<in> linked_inodes (li_contend q) \<union> held_inodes q" for x
    using that owner assms(6) unfolding relies_on_owner_def process_ok_def by auto
  have mutex: "ld_takeover d' = Some m" if "m \<in> mutex_inodes (li_contend q)" for m
    using that takeover assms(6) unfolding relies_on_takeover_def process_ok_def by auto
  have claimed: "x < ld_next d'" if "x \<in> claimed_inodes (li_contend q)" for x
    using that assms(6) next_mono unfolding process_ok_def by fastforce
  have rest: "\<forall>r \<in> own_records q. my_record (lk_identity cfg j) r"
    "\<forall>t \<in> takeover_records (li_contend q). my_takeover (lk_identity cfg j) t"
    "li_dispose q = Dispose_Unlink \<Longrightarrow> li_contend q = Contend_Idle"
    "li_dispose q = Dispose_Unlink \<Longrightarrow> renew_inodes (li_renew q) = {}"
    "li_dispose q = Dispose_Unlink \<Longrightarrow> li_disposed q"
    "li_dispose q \<noteq> Dispose_Idle \<or> is_unlink_unwanted (li_contend q) \<Longrightarrow> li_disposed q"
    "li_handle q \<noteq> None \<Longrightarrow> li_record q \<noteq> None"
    using assms(6) by (simp_all add: process_ok_def)
  show ?thesis
    unfolding process_ok_def
    by (intro conjI ballI allI impI)
      (erule own [THEN conjunct1] own [THEN conjunct2] claimed moved published mutex mine stale
        rest(3) rest(4) rest(5) rest(1) [rule_format] rest(2) [rule_format] rest(7) rest(6))+
qed


section \<open>Contending\<close>

definition contend_inodes :: "contend_pc \<Rightarrow> inode set" where
  "contend_inodes pc = mutex_inodes pc \<union> linked_inodes pc \<union> candidate_inodes pc"

definition contend_ok ::
  "lock_config \<Rightarrow> (nat \<Rightarrow> process_state) \<Rightarrow> lock_dir \<Rightarrow> nat \<Rightarrow> contend_pc \<Rightarrow> bool" where
  "contend_ok cfg st d i pc \<longleftrightarrow>
     (\<forall>x \<in> contend_inodes pc. x < ld_next d \<and> my_content (lk_identity cfg i) (ld_content d x))
     \<and> (\<forall>x \<in> claimed_inodes pc. x < ld_next d)
     \<and> (\<forall>r \<in> contend_owner_records pc. my_record (lk_identity cfg i) r)
     \<and> (\<forall>t \<in> takeover_records pc. my_takeover (lk_identity cfg i) t)
     \<and> (\<forall>x \<in> linked_inodes pc. ld_owner d = Some x)
     \<and> (\<forall>m \<in> mutex_inodes pc. ld_takeover d = Some m)
     \<and> (is_move_stale pc \<longrightarrow> dead_owner cfg st d)
     \<and> (\<forall>stale. claim_stale_of pc = Some stale \<longrightarrow> dead_takeover cfg st d stale)"

lemma contend_of_process: "process_ok cfg st d i p \<Longrightarrow> contend_ok cfg st d i (li_contend p)"
  by (simp add: process_ok_def contend_ok_def contend_inodes_def own_inodes_def own_records_def)

text \<open>What a contention step leaves of the process: all but its position and what it reports.\<close>

definition same_claims :: "lock_instance \<Rightarrow> lock_instance \<Rightarrow> bool" where
  "same_claims p q \<longleftrightarrow> li_state q = li_state p \<and> li_handle q = li_handle p \<and> li_record q = li_record p
     \<and> li_disposed q = li_disposed p \<and> li_renew q = li_renew p \<and> li_dispose q = li_dispose p"

lemma contend_move:
  assumes "process_ok cfg st d i p" "same_claims p q"
    and "li_contend p \<noteq> Contend_Idle" "li_contend p \<noteq> Cleanup_Lose"
    and "files_ok cfg st d'" "contend_ok cfg st d' i (li_contend q)"
    and "is_unlink_unwanted (li_contend q) \<Longrightarrow> li_disposed p"
    and "contend_inodes (li_contend q) \<subseteq> own_inodes p \<union> {ld_next d ..}"
    and "ld_next d \<le> ld_next d'"
    and "\<And>x. x < ld_next d \<Longrightarrow> x \<in> own_inodes p \<Longrightarrow> my_content (lk_identity cfg i) (ld_content d' x)"
    and "\<And>x. x < ld_next d \<Longrightarrow> x \<notin> own_inodes p \<Longrightarrow> ld_content d' x = ld_content d x"
    and "ld_owner d' = ld_owner d \<or> ld_owner d = None \<or> relies_on_owner p"
    and "ld_takeover d' = ld_takeover d \<or> ld_takeover d = None \<or> relies_on_takeover p"
    and "li_contend q \<noteq> Cleanup_Lose \<Longrightarrow> held_inodes p \<noteq> {} \<Longrightarrow> ld_owner d' = ld_owner d"
  shows "step_ok cfg st i p d q d'"
proof -
  have fields: "li_state q = li_state p" "li_handle q = li_handle p" "li_record q = li_record p"
    "li_disposed q = li_disposed p" "li_renew q = li_renew p" "li_dispose q = li_dispose p"
    using assms(2) by (simp_all add: same_claims_def)
  have old: "x < ld_next d" if "x \<in> own_inodes p" for x
    using that assms(1) by (simp add: process_ok_def)
  have own: "own_inodes q \<subseteq> own_inodes p \<union> {ld_next d ..}"
    using assms(8) fields by (auto simp: own_inodes_def contend_inodes_def)
  have mine: "x < ld_next d' \<and> my_content (lk_identity cfg i) (ld_content d' x)" if "x \<in> own_inodes q" for x
  proof (cases "x \<in> contend_inodes (li_contend q)")
    case True
    then show ?thesis using assms(6) by (simp add: contend_ok_def)
  next
    case False
    then have "x \<in> own_inodes p"
      using that fields by (auto simp: own_inodes_def contend_inodes_def)
    with old assms(9,10) show ?thesis by force
  qed
  have held: "held_inodes q \<subseteq> held_inodes p" "li_contend q = Cleanup_Lose \<Longrightarrow> held_inodes q = {}"
    using fields assms(4) by (auto simp: held_inodes_def)
  have published: "ld_owner d' = Some x" if "x \<in> held_inodes q" for x
  proof -
    have "x \<in> held_inodes p" "ld_owner d = Some x"
      using that held(1) assms(1) by (auto simp: process_ok_def)
    then show ?thesis
      using that held(2) assms(14) by fastforce
  qed
  have records: "\<forall>r \<in> own_records q. my_record (lk_identity cfg i) r"
    using assms(1,6) fields by (auto simp: process_ok_def contend_ok_def own_records_def)
  have dispose: "li_dispose p \<noteq> Dispose_Unlink" "li_dispose p \<noteq> Dispose_Idle \<longrightarrow> li_disposed p"
    "li_handle p \<noteq> None \<longrightarrow> li_record p \<noteq> None"
    using assms(1,3) by (auto simp: process_ok_def)
  have "process_ok cfg st d' i q"
    using assms(6,7) dispose
    unfolding process_ok_def fields
    by (intro conjI ballI allI impI)
      (auto simp: contend_ok_def mine published records)
  with own assms(5,9,11,12,13) fields show ?thesis
    by (simp add: step_ok_def)
qed









text \<open>The directory changes.\<close>

lemma files_ok_names:
  "files_ok cfg st d \<Longrightarrow> files_ok cfg st (d\<lparr>ld_owner := None\<rparr>)"
  "files_ok cfg st d \<Longrightarrow> files_ok cfg st (d\<lparr>ld_takeover := None\<rparr>)"
  "files_ok cfg st d \<Longrightarrow> x < ld_next d \<Longrightarrow> files_ok cfg st (d\<lparr>ld_owner := Some x\<rparr>)"
  "files_ok cfg st d \<Longrightarrow> x < ld_next d \<Longrightarrow> files_ok cfg st (d\<lparr>ld_takeover := Some x\<rparr>)"
  by (auto simp: files_ok_def)

lemma files_ok_write:
  assumes "files_ok cfg st d" "distinct_tokens cfg" "st i = Running_Process" "my_content (lk_identity cfg i) c"
  shows "files_ok cfg st (write_inode x c d)"
proof -
  have "wr_token r = id_token (lk_identity cfg j) \<Longrightarrow> st j \<noteq> Unstarted \<and> wr_pid r = id_pid (lk_identity cfg j)"
    if "c = Owner_Content r" for r j
    using that assms(3,4) my_token(1) [OF assms(2), of i r j] by (auto simp: my_record_def)
  moreover have "kr_token t = id_token (lk_identity cfg j) \<Longrightarrow> st j \<noteq> Unstarted \<and> kr_pid t = id_pid (lk_identity cfg j)"
    if "c = Takeover_Content t" for t j
    using that assms(3,4) my_token(2) [OF assms(2), of i t j] by (auto simp: my_takeover_def)
  ultimately show ?thesis
    using assms(1) by (simp add: files_ok_def write_inode_def)
qed

lemma files_ok_new: "files_ok cfg st d \<Longrightarrow> files_ok cfg st (new_inode d)"
  by (auto simp: files_ok_def new_inode_def write_inode_def less_Suc_eq)

lemma new_inode_simps [simp]:
  "ld_owner (new_inode d) = ld_owner d" "ld_takeover (new_inode d) = ld_takeover d"
  "ld_next (new_inode d) = Suc (ld_next d)"
  "ld_content (new_inode d) = (ld_content d)(ld_next d := Incomplete)"
  by (simp_all add: new_inode_def write_inode_def)

lemma write_inode_simps [simp]:
  "ld_owner (write_inode x c d) = ld_owner d" "ld_takeover (write_inode x c d) = ld_takeover d"
  "ld_next (write_inode x c d) = ld_next d"
  "ld_content (write_inode x c d) = (ld_content d)(x := c)"
  by (simp_all add: write_inode_def)

lemma own_made [simp]: "my_takeover me (own_takeover me now)" "my_record me (own_record me g now)"
  by (simp_all add: my_takeover_def own_takeover_def my_record_def own_record_def)

definition step_pre ::
  "lock_config \<Rightarrow> (nat \<Rightarrow> process_state) \<Rightarrow> nat list \<Rightarrow> lock_dir \<Rightarrow> nat \<Rightarrow> lock_instance \<Rightarrow> bool" where
  "step_pre cfg st running d i p \<longleftrightarrow> distinct_tokens cfg \<and> st i = Running_Process
     \<and> set running = {j. st j = Running_Process} \<and> files_ok cfg st d \<and> process_ok cfg st d i p"

definition contend_preserves ::
  "lock_config \<Rightarrow> (nat \<Rightarrow> process_state) \<Rightarrow> nat list \<Rightarrow> os_answer \<Rightarrow> lock_dir \<Rightarrow> nat \<Rightarrow> lock_instance \<Rightarrow> bool" where
  "contend_preserves cfg st running ans d i p \<longleftrightarrow>
     (case contend_step cfg (lk_identity cfg i) running ans (li_contend p) p d of
        (pc, q, d') \<Rightarrow> step_ok cfg st i p d (q\<lparr>li_contend := pc\<rparr>) d')"

lemma own_contend: "contend_inodes (li_contend p) \<subseteq> own_inodes p"
  by (auto simp: own_inodes_def contend_inodes_def)

lemma after_create_sets [simp]:
  "mutex_inodes (after_create ctx x made) = context_inodes ctx"
  "linked_inodes (after_create ctx x made) = (if made = Some True \<and> context_inodes ctx = {} then {x} else {})"
  "candidate_inodes (after_create ctx x made) = {}" "claimed_inodes (after_create ctx x made) = {}"
  "contend_owner_records (after_create ctx x made) = {}" "takeover_records (after_create ctx x made) = {}"
  "\<not> is_move_stale (after_create ctx x made)" "claim_stale_of (after_create ctx x made) = None"
  "\<not> is_unlink_unwanted (after_create ctx x made)"
  by (cases "(ctx, x, made)" rule: after_create.cases; simp)+

lemma files_bound: "files_ok cfg st d \<Longrightarrow> ld_takeover d = Some x \<Longrightarrow> x < ld_next d"
  by (simp add: files_ok_def)

lemma held_owner: "process_ok cfg st d i p \<Longrightarrow> x \<in> held_inodes p \<Longrightarrow> ld_owner d = Some x"
  by (simp add: process_ok_def)

lemma held_none:
  assumes "process_ok cfg st d i p" "st i = Running_Process"
  shows "dead_owner cfg st d \<Longrightarrow> held_inodes p = {}" "ld_owner d = None \<Longrightarrow> held_inodes p = {}"
    "is_unlink_unwanted (li_contend p) \<Longrightarrow> held_inodes p = {}" "\<not> isOwner p \<Longrightarrow> held_inodes p = {}"
proof -
  show "held_inodes p = {}" if "\<not> isOwner p"
    using that assms(1) by (auto simp: process_ok_def held_inodes_def isOwner_def)
  show "held_inodes p = {}" if "dead_owner cfg st d"
    using that held_owner [OF assms(1)] own_not_dead [OF assms] published_own [of p] by blast
  show "held_inodes p = {}" if "ld_owner d = None"
    using that held_owner [OF assms(1)] by fastforce
  show "held_inodes p = {}" if "is_unlink_unwanted (li_contend p)"
    using that assms(1) by (simp add: process_ok_def held_inodes_def)
qed

lemma not_live_dead:
  assumes "step_pre cfg st running d i p" "readRecordIfPresent ans d = Inr (Some c)" "\<not> isLive cfg ans running c"
  shows "dead_owner cfg st d"
proof -
  obtain x where x: "ld_owner d = Some x" "ld_content d x = Owner_Content c"
    using assms(2) by (auto simp: readRecordIfPresent_def split: if_splits option.splits lock_content.splits)
  have "st j = Exited" if "wr_token c = id_token (lk_identity cfg j)" for j
  proof -
    have "st j \<noteq> Unstarted" "wr_pid c = id_pid (lk_identity cfg j)"
      using that x(2) assms(1) by (simp_all add: step_pre_def files_ok_def)
    moreover have "st j \<noteq> Running_Process"
      using assms(1,3) calculation(2) by (auto simp: step_pre_def isLive_def pidAlive_def)
    ultimately show ?thesis by (cases "st j") simp_all
  qed
  with x show ?thesis by (auto simp: dead_owner_def dead_token_def)
qed

lemma recoverable_dead:
  assumes "step_pre cfg st running d i p" "stillRecoverable cfg ans running d stale"
  shows "dead_takeover cfg st d stale"
proof -
  have x: "ld_takeover d = Some (fst stale)" "ld_content d (fst stale) = Takeover_Content (snd stale)"
    using assms(2)
    by (auto simp: stillRecoverable_def readTakeoverSnapshot_def takeover_at_def
        split: lock_content.splits if_splits)
  have "st j = Exited" if "kr_token (snd stale) = id_token (lk_identity cfg j)" for j
  proof -
    have "st j \<noteq> Unstarted" "kr_pid (snd stale) = id_pid (lk_identity cfg j)"
      using that x(2) assms(1) by (simp_all add: step_pre_def files_ok_def)
    moreover have "st j \<noteq> Running_Process"
      using assms calculation(2)
      by (auto simp: step_pre_def stillRecoverable_def isRecoverableTakeover_def pidAlive_def)
    ultimately show ?thesis by (cases "st j") simp_all
  qed
  with x show ?thesis by (auto simp: dead_takeover_def dead_token_def)
qed

lemma cleanup_lose_sets [simp]:
  "mutex_inodes (cleanup_lose p) = {}" "linked_inodes (cleanup_lose p) = {}"
  "candidate_inodes (cleanup_lose p) = {}" "claimed_inodes (cleanup_lose p) = {}"
  "contend_owner_records (cleanup_lose p) = {}" "takeover_records (cleanup_lose p) = {}"
  "\<not> is_move_stale (cleanup_lose p)" "claim_stale_of (cleanup_lose p) = None"
  "\<not> is_unlink_unwanted (cleanup_lose p)" "cleanup_lose p = Cleanup_Lose \<longleftrightarrow> isOwner p"
  by (simp_all add: cleanup_lose_def)

lemma enter_create_sets [simp]:
  "mutex_inodes (enter_create ctx p) = context_inodes ctx" "linked_inodes (enter_create ctx p) = {}"
  "candidate_inodes (enter_create ctx p) = {}" "claimed_inodes (enter_create ctx p) = {}"
  "contend_owner_records (enter_create ctx p) = {}" "takeover_records (enter_create ctx p) = {}"
  "\<not> is_move_stale (enter_create ctx p)" "claim_stale_of (enter_create ctx p) = None"
  "\<not> is_unlink_unwanted (enter_create ctx p)"
  by (simp_all add: enter_create_def)

lemmas contend_cases = contend_preserves_def same_claims_def contend_inodes_def contend_ok_def
  relies_on_owner_def relies_on_takeover_def files_ok_names files_ok_new files_bound less_Suc_eq

lemmas contend_splits = if_splits option.splits sum.splits create_context.splits

text \<open>The phases of a contention: taking the mutex, releasing it, publishing a candidate, recovering
  an orphan mutex, and the moves that change what the process itself owns.\<close>

datatype contend_phase = Ownership_Phase | Mutex_Phase | Release_Phase | Candidate_Phase | Recovery_Phase

fun phase_of :: "contend_pc \<Rightarrow> contend_phase" where
  "phase_of Contend_Idle = Ownership_Phase"
| "phase_of Observe = Mutex_Phase"
| "phase_of (Open_Mutex ob) = Mutex_Phase"
| "phase_of (Stat_Mutex ob m t) = Mutex_Phase"
| "phase_of (Write_Mutex ob m t) = Mutex_Phase"
| "phase_of (Await_Acquired ob m t) = Mutex_Phase"
| "phase_of (Read_Current ob m t) = Mutex_Phase"
| "phase_of (Move_Stale m t) = Mutex_Phase"
| "phase_of (Read_Holder m t) = Release_Phase"
| "phase_of (Unlink_Moved m t) = Release_Phase"
| "phase_of (Close_Mutex m t known) = Release_Phase"
| "phase_of (Claim_Mutex m t known) = Release_Phase"
| "phase_of (Compare_Claimed m t claimed) = Release_Phase"
| "phase_of Unlink_Claimed = Release_Phase"
| "phase_of (Restore_Claimed claimed recovering) = Release_Phase"
| "phase_of (Open_Candidate ctx) = Candidate_Phase"
| "phase_of (Write_Candidate ctx x r) = Candidate_Phase"
| "phase_of (Check_Recoverable ctx x r) = Candidate_Phase"
| "phase_of (Link_Candidate ctx x r) = Candidate_Phase"
| "phase_of (Linked ctx x r) = Ownership_Phase"
| "phase_of (Unlink_Unwanted ctx x) = Candidate_Phase"
| "phase_of (Unlink_Candidate ctx x) = Candidate_Phase"
| "phase_of (Drop_Candidate ctx threw) = Candidate_Phase"
| "phase_of Read_Takeover = Recovery_Phase"
| "phase_of (Stat_Owner stale) = Recovery_Phase"
| "phase_of (Recheck stale x) = Recovery_Phase"
| "phase_of (Claim_Stale stale x) = Recovery_Phase"
| "phase_of (Compare_Stale stale x claimed) = Recovery_Phase"
| "phase_of (Unlink_Stale_Claim x) = Recovery_Phase"
| "phase_of (Cleanup_Read x) = Recovery_Phase"
| "phase_of (Cleanup_Unlink x) = Recovery_Phase"
| "phase_of Cleanup_Lose = Ownership_Phase"
| "phase_of Final_Holder = Recovery_Phase"

lemma contend_mutex_phase:
  assumes "step_pre cfg st running d i p" "phase_of (li_contend p) = Mutex_Phase"
  shows "contend_preserves cfg st running ans d i p"
proof -
  have pre: "process_ok cfg st d i p" "files_ok cfg st d" "distinct_tokens cfg" "st i = Running_Process"
    using assms(1) by (simp_all add: step_pre_def)
  note facts = own_content [OF pre(1)] held_none [OF pre(1,4)] not_live_dead [OF assms(1)]
    recoverable_dead [OF assms(1)] files_ok_write [where i = i] pre(3,4)
  show ?thesis
    using contend_of_process [OF pre(1)] own_contend [of p] pre(2) assms(2)
    by (cases "li_contend p")
      (auto simp: contend_cases facts intro!: contend_move [OF pre(1)] split: contend_splits)
qed

lemma contend_release_phase:
  assumes "step_pre cfg st running d i p" "phase_of (li_contend p) = Release_Phase"
  shows "contend_preserves cfg st running ans d i p"
proof -
  have pre: "process_ok cfg st d i p" "files_ok cfg st d" "distinct_tokens cfg" "st i = Running_Process"
    using assms(1) by (simp_all add: step_pre_def)
  note facts = own_content [OF pre(1)] held_none [OF pre(1,4)] not_live_dead [OF assms(1)]
    recoverable_dead [OF assms(1)] files_ok_write [where i = i] pre(3,4)
  show ?thesis
    using contend_of_process [OF pre(1)] own_contend [of p] pre(2) assms(2)
    by (cases "li_contend p")
      (auto simp: contend_cases facts intro!: contend_move [OF pre(1)] split: contend_splits)
qed

lemma contend_candidate_phase:
  assumes "step_pre cfg st running d i p" "phase_of (li_contend p) = Candidate_Phase"
  shows "contend_preserves cfg st running ans d i p"
proof -
  have pre: "process_ok cfg st d i p" "files_ok cfg st d" "distinct_tokens cfg" "st i = Running_Process"
    using assms(1) by (simp_all add: step_pre_def)
  note facts = own_content [OF pre(1)] held_none [OF pre(1,4)] not_live_dead [OF assms(1)]
    recoverable_dead [OF assms(1)] files_ok_write [where i = i] pre(3,4)
  show ?thesis
    using contend_of_process [OF pre(1)] own_contend [of p] pre(2) assms(2)
    by (cases "li_contend p")
      (auto simp: contend_cases facts intro!: contend_move [OF pre(1)] split: contend_splits)
qed

lemma contend_recovery_phase:
  assumes "step_pre cfg st running d i p" "phase_of (li_contend p) = Recovery_Phase"
  shows "contend_preserves cfg st running ans d i p"
proof -
  have pre: "process_ok cfg st d i p" "files_ok cfg st d" "distinct_tokens cfg" "st i = Running_Process"
    using assms(1) by (simp_all add: step_pre_def)
  note facts = own_content [OF pre(1)] held_none [OF pre(1,4)] not_live_dead [OF assms(1)]
    recoverable_dead [OF assms(1)] files_ok_write [where i = i] pre(3,4)
  show ?thesis
    using contend_of_process [OF pre(1)] own_contend [of p] pre(2) assms(2)
    by (cases "li_contend p")
      (auto simp: contend_cases facts intro!: contend_move [OF pre(1)] split: contend_splits)
qed

lemma step_ok_same_files:
  assumes "step_pre cfg st running d i p" "process_ok cfg st d i q" "own_inodes q \<subseteq> own_inodes p"
    "li_state q = li_state p"
  shows "step_ok cfg st i p d q d"
  using assms by (auto simp: step_ok_def step_pre_def)

lemma lose_ok:
  assumes "process_ok cfg st d i p" "li_contend p = Cleanup_Lose"
  shows "process_ok cfg st d i (loseOwnership p\<lparr>li_contend := Final_Holder\<rparr>)"
proof (cases "isOwner p \<or> li_disposed p")
  case True
  then show ?thesis
    using assms by (auto simp: process_ok_def loseOwnership_def own_inodes_def own_records_def held_inodes_def isOwner_def)
next
  case False
  then have "li_handle p = None"
    using assms by (auto simp: process_ok_def isOwner_def)
  with False show ?thesis
    using assms by (auto simp: process_ok_def loseOwnership_def own_inodes_def own_records_def held_inodes_def)
qed

lemma contend_ownership_phase:
  assumes "step_pre cfg st running d i p" "phase_of (li_contend p) = Ownership_Phase"
  shows "contend_preserves cfg st running ans d i p"
proof -
  have pre: "process_ok cfg st d i p"
    using assms(1) by (simp add: step_pre_def)
  consider (idle) "li_contend p = Contend_Idle" | (linked) ctx x r where "li_contend p = Linked ctx x r"
    | (lose) "li_contend p = Cleanup_Lose"
    using assms(2) by (cases "li_contend p") simp_all
  then show ?thesis
  proof cases
    case idle
    have "p\<lparr>li_contend := li_contend p\<rparr> = p" by (cases p) simp
    with pre have "process_ok cfg st d i (p\<lparr>li_contend := Contend_Idle\<rparr>)" using idle by metis
    with idle show ?thesis
      by (simp add: contend_preserves_def own_inodes_def step_ok_same_files [OF assms(1)])
  next
    case (linked ctx x r)
    have "process_ok cfg st d i (p\<lparr>li_contend := Unlink_Unwanted ctx x\<rparr>)" if "li_disposed p"
      using that pre linked by (auto simp: process_ok_def own_inodes_def own_records_def held_inodes_def)
    moreover have "process_ok cfg st d i (p\<lparr>li_handle := Some x, li_record := Some r, li_holder := Some r,
        li_contend := Unlink_Candidate ctx x\<rparr>)" if "\<not> li_disposed p"
      using that pre linked by (auto simp: process_ok_def own_inodes_def own_records_def held_inodes_def)
    ultimately show ?thesis
      using linked
      by (auto simp: contend_preserves_def own_inodes_def intro!: step_ok_same_files [OF assms(1)])
  next
    case lose
    then show ?thesis
      using lose_ok [OF pre lose]
      by (auto simp: contend_preserves_def own_inodes_def loseOwnership_def intro!: step_ok_same_files [OF assms(1)])
  qed
qed

lemma contend_step_ok:
  assumes "step_pre cfg st running d i p"
  shows "contend_preserves cfg st running ans d i p"
  by (cases "phase_of (li_contend p)")
    (simp_all add: assms contend_ownership_phase contend_mutex_phase contend_release_phase
      contend_candidate_phase contend_recovery_phase)

section \<open>Renewing and disposing\<close>

lemma my_record_heartbeat [simp]: "my_record me (r\<lparr>wr_heartbeatAt := t\<rparr>) \<longleftrightarrow> my_record me r"
  by (simp add: my_record_def)

lemma process_ok_write:
  assumes "process_ok cfg st d i q" "st i = Running_Process" "li_dispose q \<noteq> Dispose_Unlink"
    and "my_content (lk_identity cfg i) c" "my_content (lk_identity cfg i) (ld_content d x)"
  shows "process_ok cfg st (write_inode x c d) i q"
proof -
  have dead: "dead_owner cfg st (write_inode x c d)" if "dead_owner cfg st d"
    using that assms(5) dead_not_mine(1) [of st i cfg] assms(2) by (fastforce simp: dead_owner_def)
  have stale: "dead_takeover cfg st (write_inode x c d) stale" if "dead_takeover cfg st d stale" for stale
    using that assms(5) dead_not_mine(2) [of st i cfg] assms(2) by (auto simp: dead_takeover_def)
  show ?thesis
    using assms(1,3,4) dead stale unfolding process_ok_def by simp
qed

lemma step_ok_write:
  assumes "step_pre cfg st running d i p" "x \<in> own_inodes p" "my_content (lk_identity cfg i) c"
    and "process_ok cfg st d i q" "li_dispose q \<noteq> Dispose_Unlink" "own_inodes q \<subseteq> own_inodes p"
    and "li_state q = li_state p"
  shows "step_ok cfg st i p d q (write_inode x c d)"
proof -
  have pre: "process_ok cfg st d i p" "files_ok cfg st d" "distinct_tokens cfg" "st i = Running_Process"
    using assms(1) by (simp_all add: step_pre_def)
  have "process_ok cfg st (write_inode x c d) i q"
    using process_ok_write [OF assms(4) pre(4) assms(5,3)] own_content [OF pre(1) assms(2)] by blast
  then show ?thesis
    using files_ok_write [OF pre(2,3,4) assms(3)] assms(2,6,7) by (auto simp: step_ok_def)
qed

lemma renew_lose_sets [simp]:
  "renew_inodes (renew_lose awaited p) = {}" "renew_records (renew_lose awaited p) = {}"
  by (simp_all add: renew_lose_def)

lemma renew_step_ok:
  assumes "step_pre cfg st running d i p"
  shows "case renew_step (lk_identity cfg i) ans (li_renew p) p d of
      (pc, q, d') \<Rightarrow> step_ok cfg st i p d (q\<lparr>li_renew := pc\<rparr>) d'"
proof -
  have pre: "process_ok cfg st d i p" "files_ok cfg st d" "distinct_tokens cfg" "st i = Running_Process"
    using assms by (simp_all add: step_pre_def)
  show ?thesis
  proof (cases "li_renew p")
    case Renew_Idle
    have "p\<lparr>li_renew := li_renew p\<rparr> = p" by (cases p) simp
    with pre(1) have "process_ok cfg st d i (p\<lparr>li_renew := Renew_Idle\<rparr>)" using Renew_Idle by metis
    with Renew_Idle show ?thesis
      by (simp add: own_inodes_def step_ok_same_files [OF assms])
  next
    case (Renew_Read timer h r)
    have "process_ok cfg st d i (p\<lparr>li_renew := renew_lose awaited p\<rparr>)"
      "process_ok cfg st d i (p\<lparr>li_renew := Renew_Idle\<rparr>)"
      "process_ok cfg st d i (p\<lparr>li_renew := Renew_Write timer h (r\<lparr>wr_heartbeatAt := t\<rparr>)\<rparr>)" for t awaited
      using pre(1) Renew_Read
      by (auto simp: process_ok_def own_inodes_def own_records_def held_inodes_def my_record_def)
    with Renew_Read show ?thesis
      by (auto simp: own_inodes_def intro!: step_ok_same_files [OF assms] split: sum.splits option.splits)
  next
    case (Renew_Lose awaited)
    have "process_ok cfg st d i (loseOwnership p\<lparr>li_renew := Renew_Idle\<rparr>)"
      using pre(1) Renew_Lose
      by (auto simp: process_ok_def own_inodes_def own_records_def held_inodes_def loseOwnership_def)
    with Renew_Lose show ?thesis
      by (auto simp: own_inodes_def loseOwnership_def intro!: step_ok_same_files [OF assms])
  next
    case (Renew_Write timer h r)
    have h: "h \<in> own_inodes p" "my_record (lk_identity cfg i) r" "li_dispose p \<noteq> Dispose_Unlink"
      using pre(1) Renew_Write by (auto simp: process_ok_def own_inodes_def own_records_def)
    have "process_ok cfg st d i (p\<lparr>li_record := Some r, li_holder := Some r, li_renew := Renew_Idle\<rparr>)"
      "process_ok cfg st d i (p\<lparr>li_renew := renew_lose False p\<rparr>)" "process_ok cfg st d i (p\<lparr>li_renew := Renew_Idle\<rparr>)"
      using pre(1) Renew_Write h
      by (auto simp: process_ok_def own_inodes_def own_records_def held_inodes_def)
    with Renew_Write h show ?thesis
      by (auto simp: own_inodes_def intro!: step_ok_write [OF assms h(1)])
  qed
qed

lemma dispose_step_ok:
  assumes "step_pre cfg st running d i p"
  shows "case dispose_step (lk_identity cfg i) ans (li_dispose p) p d of
      (pc, q, d') \<Rightarrow> step_ok cfg st i p d (q\<lparr>li_dispose := pc\<rparr>) d'"
proof -
  have pre: "process_ok cfg st d i p" "files_ok cfg st d" "distinct_tokens cfg" "st i = Running_Process"
    using assms by (simp_all add: step_pre_def)
  have moved: "process_ok cfg st d i (p\<lparr>li_dispose := pc\<rparr>)"
    if "li_dispose p \<noteq> Dispose_Idle \<or> pc = Dispose_Idle" "pc \<noteq> Dispose_Unlink" for pc
    using pre(1) that by (simp add: process_ok_def own_inodes_def own_records_def held_inodes_def)
  show ?thesis
  proof (cases "li_dispose p")
    case Dispose_Idle
    with moved [of Dispose_Idle] show ?thesis
      by (simp add: own_inodes_def step_ok_same_files [OF assms])
  next
    case Dispose_Read
    have "process_ok cfg st d i (p\<lparr>li_dispose := Dispose_Unlink\<rparr>)"
      if "li_contend p = Contend_Idle" "renew_inodes (li_renew p) = {}" "readRecordIfPresent ans d = Inr (Some c)"
        "wr_token c = id_token (lk_identity cfg i)" for c
    proof -
      have "own_owner_file (lk_identity cfg i) d"
        using that(3,4) pre(2)
        by (auto simp: readRecordIfPresent_def own_owner_file_def my_record_def files_ok_def
            split: if_splits option.splits lock_content.splits)
      with that Dispose_Read pre(1) show ?thesis
        by (simp add: process_ok_def own_inodes_def own_records_def held_inodes_def)
    qed
    moreover have "process_ok cfg st d i (p\<lparr>li_lockReleased := True, li_dispose := Dispose_Close\<rparr>)"
      using moved [of Dispose_Close] Dispose_Read
      by (simp add: process_ok_def own_inodes_def own_records_def held_inodes_def)
    ultimately show ?thesis
      using Dispose_Read moved [of Dispose_Read] moved [of Dispose_Idle]
      by (auto simp: own_inodes_def intro!: step_ok_same_files [OF assms] split: sum.splits option.splits)
  next
    case Dispose_Unlink
    have "process_ok cfg st (d\<lparr>ld_owner := None\<rparr>) i (p\<lparr>li_lockReleased := True, li_dispose := Dispose_Close\<rparr>)"
      using pre(1) Dispose_Unlink by (simp add: process_ok_def own_inodes_def own_records_def held_inodes_def)
    then have "step_ok cfg st i p d (p\<lparr>li_lockReleased := True, li_dispose := Dispose_Close\<rparr>) (d\<lparr>ld_owner := None\<rparr>)"
      using Dispose_Unlink files_ok_names(1) [OF pre(2)] by (simp add: step_ok_def relies_on_owner_def own_inodes_def)
    with Dispose_Unlink moved [of Dispose_Idle] show ?thesis
      by (simp add: own_inodes_def step_ok_same_files [OF assms])
  next
    case Dispose_Close
    have "process_ok cfg st d i (p\<lparr>li_handle := None, li_record := None, li_disposeComplete := True,
        li_dispose := Dispose_Idle\<rparr>)"
      using pre(1) Dispose_Close by (auto simp: process_ok_def own_inodes_def own_records_def held_inodes_def)
    with Dispose_Close moved [of Dispose_Idle] show ?thesis
      by (auto simp: own_inodes_def intro!: step_ok_same_files [OF assms])
  qed
qed

section \<open>The world\<close>

lemma put_instance_simps [simp]:
  "lw_dir (put_instance i q d w) = d" "lw_running (put_instance i q d w) = lw_running w"
  "lw_instances (put_instance i q d w) = (lw_instances w)(i := q)"
  "states (put_instance i q d w) = (states w)(i := li_state q)"
  by (simp_all add: put_instance_def states_def fun_eq_iff)

lemma pre_of_world:
  "world_ok cfg w \<Longrightarrow> distinct_tokens cfg \<Longrightarrow> states w i = Running_Process
     \<Longrightarrow> step_pre cfg (states w) (lw_running w) (lw_dir w) i (lw_instances w i)"
  by (simp add: step_pre_def world_ok_def)

lemma world_ok_step:
  assumes "world_ok cfg w" "distinct_tokens cfg" "states w i = Running_Process"
    and "step_ok cfg (states w) i (lw_instances w i) (lw_dir w) q d'"
  shows "world_ok cfg (put_instance i q d' w)"
proof -
  let ?p = "lw_instances w" and ?d = "lw_dir w" and ?st = "states w"
  have same: "?st(i := li_state q) = ?st"
    using assms(4) by (simp add: step_ok_def fun_eq_iff states_def)
  have ok: "process_ok cfg ?st ?d j (?p j)" if "?st j = Running_Process" for j
    using assms(1) that by (simp add: world_ok_def)
  have apart: "own_inodes (?p j) \<inter> own_inodes (?p k) = {}"
    if "?st j = Running_Process" "?st k = Running_Process" "j \<noteq> k" for j k
    using assms(1) that by (simp add: world_ok_def)
  have others: "process_ok cfg ?st d' j (?p j)" if "?st j = Running_Process" "j \<noteq> i" for j
    using others_unaffected [OF assms(2) _ assms(3) that(1) ok [OF assms(3)] ok [OF that(1)] _
        apart [OF assms(3) that(1)] assms(4)] that(2) assms(1)
    by (simp add: world_ok_def)
  have fresh: "own_inodes q \<inter> own_inodes (?p j) = {}" if "?st j = Running_Process" "j \<noteq> i" for j
  proof -
    have "own_inodes q \<subseteq> own_inodes (?p i) \<union> {ld_next ?d ..}"
      using assms(4) by (simp add: step_ok_def)
    moreover have "x < ld_next ?d" if "x \<in> own_inodes (?p j)" for x
      using ok [OF \<open>?st j = Running_Process\<close>] that by (simp add: process_ok_def)
    ultimately show ?thesis
      using apart [OF assms(3) that(1)] that(2) by fastforce
  qed
  have mine: "process_ok cfg ?st d' i q" "files_ok cfg ?st d'"
    using assms(4) by (simp_all add: step_ok_def)
  have rest: "set (lw_running w) = {j. ?st j = Running_Process}"
    "\<And>j. ?st j = Unstarted \<Longrightarrow> ?p j = new_lock"
    using assms(1) by (simp_all add: world_ok_def)
  show ?thesis
    unfolding world_ok_def put_instance_simps same
    using others mine rest fresh apart assms(3) by (auto simp: Int_commute)
qed

lemma step_process_ok:
  assumes "world_ok cfg w" "distinct_tokens cfg" "states w i = Running_Process"
  shows "world_ok cfg (lock_step cfg (Step_Contend i ans) w)"
    "world_ok cfg (lock_step cfg (Step_Renew i ans) w)"
    "world_ok cfg (lock_step cfg (Step_Dispose i ans) w)"
  using world_ok_step [OF assms] contend_step_ok [OF pre_of_world [OF assms], of ans]
    renew_step_ok [OF pre_of_world [OF assms], of ans] dispose_step_ok [OF pre_of_world [OF assms], of ans] assms(3)
  by (auto simp: states_def contend_preserves_def Let_def split: prod.splits)

lemma call_process_ok:
  assumes "world_ok cfg w" "distinct_tokens cfg" "states w i = Running_Process"
    and "process_ok cfg (states w) (lw_dir w) i q" "own_inodes q \<subseteq> own_inodes (lw_instances w i)"
    and "li_state q = li_state (lw_instances w i)"
  shows "world_ok cfg (put_instance i q (lw_dir w) w)"
  using world_ok_step [OF assms(1-3)] step_ok_same_files [OF pre_of_world [OF assms(1-3)] assms(4-6)]
  by simp

lemma calls_ok:
  assumes "world_ok cfg w" "distinct_tokens cfg"
  shows "world_ok cfg (lock_step cfg (Call_Contend i) w)"
    "world_ok cfg (lock_step cfg (Call_Renew i timer) w)"
    "world_ok cfg (lock_step cfg (Call_Dispose i) w)"
proof -
  let ?p = "lw_instances w i"
  have ok: "process_ok cfg (states w) (lw_dir w) i ?p" if "li_state ?p = Running_Process"
    using assms(1) that by (simp add: world_ok_def states_def)
  note unfold = process_ok_def own_inodes_def own_records_def held_inodes_def
  show "world_ok cfg (lock_step cfg (Call_Contend i) w)"
    using ok assms
    by (auto simp: Let_def states_def own_inodes_def intro!: call_process_ok)
      (auto simp: unfold states_def)
  show "world_ok cfg (lock_step cfg (Call_Renew i timer) w)"
    using ok assms
    by (auto simp: Let_def states_def own_inodes_def intro!: call_process_ok split: option.splits)
      (auto simp: unfold states_def)
  show "world_ok cfg (lock_step cfg (Call_Dispose i) w)"
    using ok assms
    by (auto simp: Let_def states_def own_inodes_def intro!: call_process_ok)
      (auto simp: unfold states_def)
qed

lemma process_ok_states:
  assumes "process_ok cfg st d j p" "\<And>k. st k = Exited \<Longrightarrow> st' k = Exited"
  shows "process_ok cfg st' d j p"
proof -
  have "dead_token cfg st' token" if "dead_token cfg st token" for token
    using that assms(2) by (auto simp: dead_token_def)
  then have "dead_owner cfg st d \<longrightarrow> dead_owner cfg st' d"
    "\<And>stale. dead_takeover cfg st d stale \<longrightarrow> dead_takeover cfg st' d stale"
    by (auto simp: dead_owner_def dead_takeover_def)
  with assms(1) show ?thesis
    unfolding process_ok_def by blast
qed

lemma world_okI:
  assumes "set (lw_running w) = {i. states w i = Running_Process}"
    and "\<And>i. states w i = Unstarted \<Longrightarrow> lw_instances w i = new_lock"
    and "files_ok cfg (states w) (lw_dir w)"
    and "\<And>i. states w i = Running_Process \<Longrightarrow> process_ok cfg (states w) (lw_dir w) i (lw_instances w i)"
    and "\<And>i j. states w i = Running_Process \<Longrightarrow> states w j = Running_Process \<Longrightarrow> i \<noteq> j \<Longrightarrow>
           own_inodes (lw_instances w i) \<inter> own_inodes (lw_instances w j) = {}"
  shows "world_ok cfg w"
  unfolding world_ok_def using assms by blast

lemma world_apart:
  "world_ok cfg w \<Longrightarrow> states w i = Running_Process \<Longrightarrow> states w j = Running_Process \<Longrightarrow> i \<noteq> j
     \<Longrightarrow> own_inodes (lw_instances w i) \<inter> own_inodes (lw_instances w j) = {}"
  unfolding world_ok_def by blast

lemma world_process:
  "world_ok cfg w \<Longrightarrow> states w i = Running_Process \<Longrightarrow> process_ok cfg (states w) (lw_dir w) i (lw_instances w i)"
  unfolding world_ok_def by blast

lemma start_ok:
  assumes "world_ok cfg w"
  shows "world_ok cfg (lock_step cfg (Start_Process i) w)"
proof (cases "states w i = Unstarted")
  case False
  then show ?thesis using assms by (simp add: states_def)
next
  case True
  let ?st = "(states w)(i := Running_Process)" and ?q = "new_lock\<lparr>li_state := Running_Process, li_contend := Observe\<rparr>"
  have new: "lw_instances w i = new_lock" and running: "set (lw_running w) = {j. states w j = Running_Process}"
    and rest: "\<And>j. states w j = Unstarted \<Longrightarrow> lw_instances w j = new_lock"
    and files: "files_ok cfg (states w) (lw_dir w)"
    using assms True by (simp_all add: world_ok_def)
  have st: "states (put_instance i ?q (lw_dir w) (w\<lparr>lw_running := i # lw_running w\<rparr>)) = ?st"
    by (simp add: fun_eq_iff states_def)
  have own: "own_inodes ?q = {}"
    by (simp add: own_inodes_def new_lock_def)
  have "process_ok cfg ?st (lw_dir w) i ?q"
    by (simp add: process_ok_def own_inodes_def own_records_def held_inodes_def new_lock_def)
  moreover have "process_ok cfg ?st (lw_dir w) j (lw_instances w j)" if "states w j = Running_Process" for j
    by (rule process_ok_states [OF world_process [OF assms that]]) (use True in auto)
  moreover have "files_ok cfg ?st (lw_dir w)"
    using files by (auto simp: files_ok_def)
  ultimately have "world_ok cfg (put_instance i ?q (lw_dir w) (w\<lparr>lw_running := i # lw_running w\<rparr>))"
  proof (intro world_okI, unfold st)
    show "set (lw_running (put_instance i ?q (lw_dir w) (w\<lparr>lw_running := i # lw_running w\<rparr>)))
        = {j. ?st j = Running_Process}"
      using running by auto
  qed (use rest world_apart [OF assms] own in \<open>auto split: if_splits\<close>)
  with True new show ?thesis
    by (simp add: states_def)
qed

lemma crash_ok:
  assumes "world_ok cfg w"
  shows "world_ok cfg (lock_step cfg (Crash_Process i) w)"
proof (cases "states w i = Running_Process")
  case False
  then show ?thesis using assms by (simp add: states_def)
next
  case True
  let ?st = "(states w)(i := Exited)" and ?q = "(lw_instances w i)\<lparr>li_state := Exited\<rparr>"
  let ?w = "w\<lparr>lw_running := removeAll i (lw_running w)\<rparr>"
  have running: "set (lw_running w) = {j. states w j = Running_Process}"
    and rest: "\<And>j. states w j = Unstarted \<Longrightarrow> lw_instances w j = new_lock"
    and files: "files_ok cfg (states w) (lw_dir w)"
    using assms by (simp_all add: world_ok_def)
  have st: "states (put_instance i ?q (lw_dir w) ?w) = ?st"
    by (simp add: fun_eq_iff states_def)
  have "process_ok cfg ?st (lw_dir w) j (lw_instances w j)" if "states w j = Running_Process" for j
    by (rule process_ok_states [OF world_process [OF assms that]]) auto
  moreover have "files_ok cfg ?st (lw_dir w)"
    using files by (auto simp: files_ok_def)
  ultimately have "world_ok cfg (put_instance i ?q (lw_dir w) ?w)"
  proof (intro world_okI, unfold st)
    show "set (lw_running (put_instance i ?q (lw_dir w) ?w)) = {j. ?st j = Running_Process}"
      using running by auto
  qed (use rest world_apart [OF assms] in \<open>auto split: if_splits\<close>)
  with True show ?thesis
    by (simp add: states_def)
qed

lemma lock_step_ok:
  assumes "distinct_tokens cfg \<and> world_ok cfg w"
  shows "distinct_tokens cfg \<and> world_ok cfg (lock_step cfg ev w)"
proof (cases ev)
  case (Step_Contend i ans)
  with assms show ?thesis
    using step_process_ok(1) [of cfg w i ans] by (cases "states w i = Running_Process") (auto simp: states_def)
next
  case (Step_Renew i ans)
  with assms show ?thesis
    using step_process_ok(2) [of cfg w i ans] by (cases "states w i = Running_Process") (auto simp: states_def)
next
  case (Step_Dispose i ans)
  with assms show ?thesis
    using step_process_ok(3) [of cfg w i ans] by (cases "states w i = Running_Process") (auto simp: states_def)
qed (use assms start_ok crash_ok calls_ok in \<open>simp_all del: lock_step.simps\<close>)

interpretation lock_run: state_machine "lock_step cfg" "\<lambda>w. distinct_tokens cfg \<and> world_ok cfg w" for cfg
  by unfold_locales (rule lock_step_ok)

text \<open>Files left by processes that no longer run.\<close>

definition leftover_files :: "lock_config \<Rightarrow> lock_dir \<Rightarrow> bool" where
  "leftover_files cfg d \<longleftrightarrow>
     (\<forall>x. ld_owner d = Some x \<or> ld_takeover d = Some x \<longrightarrow> x < ld_next d)
     \<and> (\<forall>x i. (\<forall>r. ld_content d x = Owner_Content r \<longrightarrow> wr_token r \<noteq> id_token (lk_identity cfg i))
           \<and> (\<forall>t. ld_content d x = Takeover_Content t \<longrightarrow> kr_token t \<noteq> id_token (lk_identity cfg i)))"

lemma initial_world_ok: "leftover_files cfg d \<Longrightarrow> world_ok cfg (initial_world d)"
  by (simp add: world_ok_def initial_world_def states_def new_lock_def files_ok_def leftover_files_def)

lemma history_ok:
  "distinct_tokens cfg \<Longrightarrow> leftover_files cfg d \<Longrightarrow> world_ok cfg (fold (lock_step cfg) evs (initial_world d))"
  using lock_run.run_inv [of cfg "initial_world d" evs] initial_world_ok by simp

section \<open>Owners\<close>

lemma held_owns: "isOwner p \<Longrightarrow> li_contend p \<noteq> Cleanup_Lose \<Longrightarrow> held_inodes p = set_option (li_handle p) \<and> li_handle p \<noteq> None"
  by (simp add: isOwner_def held_inodes_def)

lemma owner_relies: "isOwner p \<Longrightarrow> li_contend p \<noteq> Cleanup_Lose \<Longrightarrow> relies_on_owner p"
  using held_owns [of p] by (auto simp: relies_on_owner_def)

lemma owner_file: 
  "process_ok cfg st d i p \<Longrightarrow> isOwner p \<Longrightarrow> li_contend p \<noteq> Cleanup_Lose \<Longrightarrow> ld_owner d = li_handle p"
  using held_owns [of p] by (auto simp: process_ok_def)

text \<open>
  An owner file that names a running process which no longer owns it: no process relies on it, and
  no process ever takes it away.
\<close>

definition abandoned :: "lock_config \<Rightarrow> nat \<Rightarrow> inode \<Rightarrow> owner_record \<Rightarrow> lock_world \<Rightarrow> bool" where
  "abandoned cfg i x r w \<longleftrightarrow>
     states w i = Running_Process \<and> ld_owner (lw_dir w) = Some x
     \<and> ld_content (lw_dir w) x = Owner_Content r \<and> my_record (lk_identity cfg i) r
     \<and> li_record (lw_instances w i) = None \<and> li_handle (lw_instances w i) = None
     \<and> li_renew (lw_instances w i) = Renew_Idle \<and> li_dispose (lw_instances w i) \<noteq> Dispose_Unlink
     \<and> li_contend (lw_instances w i) \<noteq> Cleanup_Lose \<and> x \<notin> own_inodes (lw_instances w i)"

lemma abandoned_apart:
  assumes "world_ok cfg w" "distinct_tokens cfg" "abandoned cfg i x r w" "states w j = Running_Process"
  shows "x \<notin> own_inodes (lw_instances w j)" "\<not> relies_on_owner (lw_instances w j)"
proof -
  have ok: "process_ok cfg (states w) (lw_dir w) k (lw_instances w k)" if "states w k = Running_Process" for k
    using world_process [OF assms(1) that] .
  have mine: "own_owner_file (lk_identity cfg i) (lw_dir w)"
    using assms(3) by (auto simp: abandoned_def own_owner_file_def)
  show apart: "x \<notin> own_inodes (lw_instances w j)"
    using assms own_not_mine [OF assms(2) ok [OF assms(4)] _ _ mine] by (auto simp: abandoned_def)
  show "\<not> relies_on_owner (lw_instances w j)"
  proof
    assume "relies_on_owner (lw_instances w j)"
    with ok [OF assms(4)] show False
    proof (cases rule: relies_on_owner_cases)
      case (own y)
      with apart assms(3) show False by (simp add: abandoned_def)
    next
      case (stale m)
      with mine assms(3) show False using mine_not_dead [of "states w" i cfg] by (simp add: abandoned_def)
    next
      case mine': mine
      have "j = i" using mine_not_mine [OF assms(2) mine' mine] .
      then have "li_dispose (lw_instances w j) \<noteq> Dispose_Unlink"
        using assms(3) by (simp add: abandoned_def)
      moreover have "\<not> is_move_stale (li_contend (lw_instances w j))"
        using ok [OF assms(4)] mine_not_dead [of "states w", OF assms(4) mine'] by (simp add: process_ok_def)
      moreover have "y = x" if "y \<in> linked_inodes (li_contend (lw_instances w j)) \<union> held_inodes (lw_instances w j)" for y
        using that ok [OF assms(4)] assms(3) by (auto simp: process_ok_def abandoned_def)
      ultimately show False
        using \<open>relies_on_owner (lw_instances w j)\<close> apart published_own [of "lw_instances w j"]
        unfolding relies_on_owner_def by blast
    qed
  qed
qed

lemma abandoned_step:
  assumes "world_ok cfg w" "distinct_tokens cfg" "abandoned cfg i x r w" "states w j = Running_Process"
    and "step_ok cfg (states w) j (lw_instances w j) (lw_dir w) q d'"
    and "j = i \<Longrightarrow> li_record q = None \<and> li_handle q = None \<and> li_renew q = Renew_Idle
           \<and> li_dispose q \<noteq> Dispose_Unlink \<and> li_contend q \<noteq> Cleanup_Lose"
  shows "abandoned cfg i x r (put_instance j q d' w)"
proof -
  have bound: "x < ld_next (lw_dir w)"
    using assms(1,3) by (simp add: world_ok_def files_ok_def abandoned_def)
  have kept: "ld_owner d' = Some x" "ld_content d' x = Owner_Content r"
    using assms(3,5) bound abandoned_apart [OF assms(1-4)] by (auto simp: step_ok_def abandoned_def)
  have own: "x \<notin> own_inodes q" "li_state q = Running_Process"
    using assms(4,5) bound abandoned_apart(1) [OF assms(1-4)] by (auto simp: step_ok_def states_def)
  show ?thesis
    using assms(3,6) kept own by (cases "j = i") (auto simp: abandoned_def)
qed

lemma not_cleanup_lose [simp]:
  "after_create ctx x made \<noteq> Cleanup_Lose" "enter_create ctx p \<noteq> Cleanup_Lose"
  by (cases "(ctx, x, made)" rule: after_create.cases; simp)
    (cases "(ctx, 0 :: nat, Some False)" rule: after_create.cases; simp add: enter_create_def)

lemma contend_abandoned:
  assumes "contend_step cfg me running ans pc p d = (pc', q, d')" "linked_inodes pc = {}"
    and "li_record p = None" "li_handle p = None" "pc \<noteq> Cleanup_Lose"
  shows "li_record q = None \<and> li_handle q = None \<and> li_renew q = li_renew p \<and> li_dispose q = li_dispose p \<and> pc' \<noteq> Cleanup_Lose"
  using assms
  by (cases pc)
    (auto split: if_splits option.splits sum.splits create_context.splits)

lemma dispose_abandoned:
  assumes "dispose_step me ans pc p d = (pc', q, d')" "li_record p = None" "li_handle p = None" "pc \<noteq> Dispose_Unlink"
  shows "li_record q = None \<and> li_handle q = None \<and> li_renew q = li_renew p \<and> li_contend q = li_contend p
    \<and> pc' \<noteq> Dispose_Unlink"
  using assms by (cases pc) (auto split: if_splits option.splits sum.splits)

lemma abandoned_linked:
  assumes "world_ok cfg w" "distinct_tokens cfg" "abandoned cfg i x r w"
  shows "linked_inodes (li_contend (lw_instances w i)) = {}"
proof -
  have "\<not> relies_on_owner (lw_instances w i)"
    using abandoned_apart(2) [OF assms] assms(3) by (simp add: abandoned_def)
  then show ?thesis by (simp add: relies_on_owner_def)
qed

lemma abandoned_event:
  assumes "world_ok cfg w" "distinct_tokens cfg" "abandoned cfg i x r w" "ev \<noteq> Crash_Process i"
  shows "abandoned cfg i x r (lock_step cfg ev w)"
proof -
  let ?p = "lw_instances w"
  have idle: "li_record (?p i) = None" "li_handle (?p i) = None" "li_renew (?p i) = Renew_Idle"
    "li_dispose (?p i) \<noteq> Dispose_Unlink" "li_contend (?p i) \<noteq> Cleanup_Lose"
    using assms(3) by (simp_all add: abandoned_def)
  note linked = abandoned_linked [OF assms(1-3)]
  note step = abandoned_step [OF assms(1-3)]
  show ?thesis
  proof (cases ev)
    case (Step_Contend j ans)
    show ?thesis
    proof (cases "states w j = Running_Process")
      case True
      obtain pc q d' where c: "contend_step cfg (lk_identity cfg j) (lw_running w) ans (li_contend (?p j)) (?p j) (lw_dir w) = (pc, q, d')"
        by (metis prod_cases3)
      have "step_ok cfg (states w) j (?p j) (lw_dir w) (q\<lparr>li_contend := pc\<rparr>) d'"
        using contend_step_ok [OF pre_of_world [OF assms(1,2) True], of ans] c by (simp add: contend_preserves_def)
      then show ?thesis
        using step [OF True, of "q\<lparr>li_contend := pc\<rparr>" d'] contend_abandoned [OF c] linked idle c True Step_Contend
        by (simp add: states_def)
    qed (use assms(3) Step_Contend in \<open>simp add: states_def\<close>)
  next
    case (Step_Renew j ans)
    show ?thesis
    proof (cases "states w j = Running_Process")
      case True
      obtain pc q d' where c: "renew_step (lk_identity cfg j) ans (li_renew (?p j)) (?p j) (lw_dir w) = (pc, q, d')"
        by (metis prod_cases3)
      have "step_ok cfg (states w) j (?p j) (lw_dir w) (q\<lparr>li_renew := pc\<rparr>) d'"
        using renew_step_ok [OF pre_of_world [OF assms(1,2) True], of ans] c by simp
      then show ?thesis
        using step [OF True, of "q\<lparr>li_renew := pc\<rparr>" d'] linked idle c True Step_Renew
        by (cases "j = i") (auto simp add: states_def)
    qed (use assms(3) Step_Renew in \<open>simp add: states_def\<close>)
  next
    case (Step_Dispose j ans)
    show ?thesis
    proof (cases "states w j = Running_Process")
      case True
      obtain pc q d' where c: "dispose_step (lk_identity cfg j) ans (li_dispose (?p j)) (?p j) (lw_dir w) = (pc, q, d')"
        by (metis prod_cases3)
      have "step_ok cfg (states w) j (?p j) (lw_dir w) (q\<lparr>li_dispose := pc\<rparr>) d'"
        using dispose_step_ok [OF pre_of_world [OF assms(1,2) True], of ans] c by simp
      then show ?thesis
        using step [OF True, of "q\<lparr>li_dispose := pc\<rparr>" d'] dispose_abandoned [OF c] idle c True Step_Dispose
        by (simp add: states_def)
    qed (use assms(3) Step_Dispose in \<open>simp add: states_def\<close>)
  qed (use assms(3,4) idle in \<open>auto simp: abandoned_def states_def put_instance_def own_inodes_def Let_def split: option.splits\<close>)
qed

lemma abandoned_run:
  assumes "world_ok cfg w" "distinct_tokens cfg" "abandoned cfg i x r w" "Crash_Process i \<notin> set evs"
  shows "world_ok cfg (fold (lock_step cfg) evs w) \<and> abandoned cfg i x r (fold (lock_step cfg) evs w)"
  using assms
proof (induction evs arbitrary: w)
  case (Cons ev evs)
  then show ?case
    using lock_step_ok [of cfg w ev] abandoned_event [of cfg w i x r ev] by auto
qed simp

section \<open>A contender alone\<close>

text \<open>The same steps without the rest of the world.\<close>

definition alone_step ::
  "lock_config \<Rightarrow> lock_identity \<Rightarrow> nat list \<Rightarrow> os_answer \<Rightarrow> lock_instance \<times> lock_dir \<Rightarrow> lock_instance \<times> lock_dir" where
  "alone_step cfg me running ans s =
     (case contend_step cfg me running ans (li_contend (fst s)) (fst s) (snd s) of
        (pc, q, d) \<Rightarrow> (q\<lparr>li_contend := pc\<rparr>, d))"

lemma contend_step_state:
  "contend_step cfg me running ans pc p d = (pc', q, d') \<Longrightarrow> li_state q = li_state p"
  by (cases pc) (auto simp: loseOwnership_def split: if_splits option.splits sum.splits)

lemma put_instance_twice [simp]:
  "put_instance i q d' (put_instance i p d w) = put_instance i q d' w"
  by (simp add: put_instance_def)

lemma alone_fold:
  assumes "li_state p = Running_Process"
  shows "fold (lock_step cfg) (map (Step_Contend i) answers) (put_instance i p d w)
    = (case fold (alone_step cfg (lk_identity cfg i) (lw_running w)) answers (p, d) of
         (q, d') \<Rightarrow> put_instance i q d' w)"
  using assms
proof (induction answers arbitrary: p d)
  case (Cons ans answers)
  obtain pc q d' where c: "contend_step cfg (lk_identity cfg i) (lw_running w) ans (li_contend p) p d = (pc, q, d')"
    by (metis prod_cases3)
  have "li_state q = Running_Process"
    using contend_step_state [OF c] Cons.prems by simp
  with Cons.IH [of "q\<lparr>li_contend := pc\<rparr>" d'] show ?case
    by (simp add: c Cons.prems alone_step_def)
qed simp

lemma put_instance_same: "put_instance i (lw_instances w i) (lw_dir w) w = w"
  by (simp add: put_instance_def)

definition won :: "lock_identity \<Rightarrow> lock_instance \<times> lock_dir \<Rightarrow> bool" where
  "won me s \<longleftrightarrow> (case s of (p, d) \<Rightarrow> isOwner p \<and> li_contend p = Contend_Idle \<and> ld_takeover d = None
     \<and> (\<exists>h r. ld_owner d = Some h \<and> li_handle p = Some h \<and> li_record p = Some r
          \<and> ld_content d h = Owner_Content r \<and> wr_token r = id_token me))"

lemmas alone_defs = alone_step_def readRecordIfPresent_def enter_create_def takeover_at_def

lemma alone_vacant:
  assumes "li_contend p = Observe" "\<not> li_disposed p" "ld_takeover d = None" "ld_owner d = None"
    and "\<And>n. oa_ok (ans n) \<and> \<not> oa_garbled (ans n)"
  shows "won me (fold (alone_step cfg me running) (map ans [0, 1, 2, 3, 4, 5, 6, 7, 8, 9, 10, 11, 12, 13, 14, 15, 16]) (p, d))"
  using assms by (simp add: alone_defs) (simp add: won_def isOwner_def own_record_def)

lemma alone_stale:
  assumes "li_contend p = Observe" "\<not> li_disposed p" "ld_takeover d = None" "ld_owner d = Some x" "x \<noteq> ld_next d"
    and "ld_content d x = Owner_Content c" "\<And>n. \<not> isLive cfg (ans n) running c"
    and "\<And>n. oa_ok (ans n) \<and> \<not> oa_garbled (ans n)"
  shows "won me (fold (alone_step cfg me running) (map ans [0, 1, 2, 3, 4, 5, 6, 7, 8, 9, 10, 11, 12, 13, 14, 15, 16]) (p, d))"
  using assms by (simp add: alone_defs) (simp add: won_def isOwner_def own_record_def)

section \<open>A history\<close>

definition example_lock :: lock_config where
  "example_lock = \<lparr>lk_identity = (\<lambda>i. \<lparr>id_pid = int i + 1, id_instanceId = ''w'', id_token = replicate (Suc i) (CHR ''t'')\<rparr>),
     lk_ttlMs = 30000\<rparr>"

definition example_answer :: "bool \<Rightarrow> os_answer" where
  "example_answer ok = \<lparr>oa_ok = ok, oa_garbled = False, oa_now = 0, oa_otherPids = (\<lambda>_. False), oa_torn = [],
     oa_uuid = ''g''\<rparr>"

definition empty_lock_dir :: lock_dir where
  "empty_lock_dir = \<lparr>ld_owner = None, ld_takeover = None, ld_content = (\<lambda>_. Incomplete), ld_next = 0\<rparr>"

definition win_history :: "lock_event list" where
  "win_history = Start_Process 0 # replicate 14 (Step_Contend 0 (example_answer True))"

definition failed_renewal :: "lock_event list" where
  "failed_renewal = [Call_Renew 0 True, Step_Renew 0 (example_answer False), Step_Renew 0 (example_answer True)]"

definition example_world :: "lock_event list \<Rightarrow> lock_world" where
  "example_world evs = fold (lock_step example_lock) evs (initial_world empty_lock_dir)"

lemmas example_defs = example_world_def win_history_def failed_renewal_def example_answer_def empty_lock_dir_def
  initial_world_def new_lock_def put_instance_def readRecordIfPresent_def enter_create_def takeover_at_def
  renew_lose_def loseOwnership_def new_inode_def write_inode_def isOwner_def numeral_eq_Suc

lemma example_ok: "distinct_tokens example_lock" "leftover_files example_lock empty_lock_dir"
  by (simp_all add: distinct_tokens_def example_lock_def leftover_files_def empty_lock_dir_def)

abbreviation example_record :: owner_record where
  "example_record \<equiv> own_record (lk_identity example_lock 0) ''g'' 0"

lemma example_won:
  "lw_instances (example_world win_history) 0
    = new_lock\<lparr>li_state := Running_Process, li_handle := Some 1, li_record := Some example_record,
        li_holder := Some example_record\<rparr>"
  "lw_running (example_world win_history) = [0]" 
  "lw_dir (example_world win_history)
    = \<lparr>ld_owner = Some 1, ld_takeover = None, 
       ld_content = (\<lambda>_. Incomplete)(0 := Takeover_Content (own_takeover (lk_identity example_lock 0) 0),
         1 := Owner_Content example_record), ld_next = 2\<rparr>"
  by (simp_all add: example_defs Let_def)

lemma example_lost:
  "lw_instances (example_world (win_history @ failed_renewal)) 0
    = new_lock\<lparr>li_state := Running_Process, li_holder := Some example_record\<rparr>"
  "lw_dir (example_world (win_history @ failed_renewal)) = lw_dir (example_world win_history)"
  "lw_running (example_world (win_history @ failed_renewal)) = [0]"
  "lw_instances (example_world (win_history @ failed_renewal)) 1 = new_lock"
proof -
  have split: "example_world (win_history @ failed_renewal) = fold (lock_step example_lock) failed_renewal (example_world win_history)"
    by (simp add: example_world_def)
  have "lw_instances (example_world win_history) 1 = new_lock"
    by (simp add: example_defs Let_def)
  then show "lw_instances (example_world (win_history @ failed_renewal)) 0
      = new_lock\<lparr>li_state := Running_Process, li_holder := Some example_record\<rparr>"
    "lw_dir (example_world (win_history @ failed_renewal)) = lw_dir (example_world win_history)"
    "lw_running (example_world (win_history @ failed_renewal)) = [0]"
    "lw_instances (example_world (win_history @ failed_renewal)) 1 = new_lock"
    unfolding split using example_won
    by (simp_all add: failed_renewal_def example_answer_def put_instance_def readRecordIfPresent_def
        renew_lose_def loseOwnership_def isOwner_def new_lock_def)
qed

section \<open>Properties\<close>

text \<open>
  C1. At most one process owns the broker. Whatever files earlier processes left, and however the
  file operations of any number of processes interleave, fail and are cut off by crashes, two
  running processes that both hold ownership are the same, and the owner file is the one that
  process published. Excluded is only a process that is closing the file it has already removed
  after a recovery failed. Process ids may be reused; tokens are distinct, as UUIDs are.
\<close>
theorem one_owner_at_a_time:
  assumes "distinct_tokens cfg" "leftover_files cfg d"
    and "w = fold (lock_step cfg) evs (initial_world d)"
    and "p = lw_instances w i" "li_state p = Running_Process" "isOwner p" "li_contend p \<noteq> Cleanup_Lose"
    and "q = lw_instances w j" "li_state q = Running_Process" "isOwner q" "li_contend q \<noteq> Cleanup_Lose"
  shows "i = j \<and> ld_owner (lw_dir w) = li_handle p"
proof -
  have ok: "world_ok cfg w"
    unfolding assms(3) by (rule history_ok [OF assms(1,2)])
  have run: "states w i = Running_Process" "states w j = Running_Process"
    using assms by (simp_all add: states_def)
  note pi = world_process [OF ok run(1), folded assms(4)] and pj = world_process [OF ok run(2), folded assms(8)]
  have "i = j"
    using relies_on_owner_unique [OF assms(1) run pi pj] world_apart [OF ok run] owner_relies assms
    by metis
  with owner_file [OF pi assms(6,7)] show ?thesis by simp
qed

lemma one_owner_witness:
  "ld_owner (lw_dir (example_world win_history)) = li_handle (lw_instances (example_world win_history) 0)
     \<and> isOwner (lw_instances (example_world win_history) 0)"
  using one_owner_at_a_time [OF example_ok example_world_def [of win_history] refl _ _ _ refl, of 0 0]
  by (simp add: example_won isOwner_def new_lock_def)

text \<open>
  C9. A process that loses ownership through a failed renewal blocks the broker. The owner file
  still names it, and neither a new contention nor its disposal removes the file, because the one
  finds a live process id and the other compares with a record that is gone. As long as the process
  runs, no process owns the broker again, itself included.
\<close>
theorem abandoned_owner_file_blocks:
  assumes "distinct_tokens cfg" "leftover_files cfg d"
    and "w = fold (lock_step cfg) evs (initial_world d)"
    and "p = lw_instances w i" "li_state p = Running_Process" "li_record p = None"
    and "li_contend p = Contend_Idle" "li_renew p = Renew_Idle" "li_dispose p = Dispose_Idle"
    and "ld_owner (lw_dir w) = Some x" "ld_content (lw_dir w) x = Owner_Content r"
    and "wr_token r = id_token (lk_identity cfg i)"
    and "Crash_Process i \<notin> set later"
    and "q = lw_instances (fold (lock_step cfg) later w) j" "li_state q = Running_Process" "li_contend q \<noteq> Cleanup_Lose"
  shows "\<not> isOwner q"
proof
  assume owner: "isOwner q"
  have ok: "world_ok cfg w"
    unfolding assms(3) by (rule history_ok [OF assms(1,2)])
  have run: "states w i = Running_Process"
    using assms by (simp add: states_def)
  have "my_record (lk_identity cfg i) r"
    using ok assms(11,12) by (auto simp: world_ok_def files_ok_def my_record_def)
  moreover have "li_handle p = None"
    using world_process [OF ok run] assms(4,6) by (auto simp: process_ok_def)
  ultimately have "abandoned cfg i x r w"
    using assms by (auto simp: abandoned_def states_def own_inodes_def)
  then have "world_ok cfg (fold (lock_step cfg) later w)" "abandoned cfg i x r (fold (lock_step cfg) later w)"
    using abandoned_run [OF ok assms(1) _ assms(13)] by blast+
  then have "\<not> relies_on_owner q"
    using abandoned_apart(2) [OF _ assms(1)] assms(14,15) by (simp add: states_def)
  with owner_relies [OF owner assms(16)] show False by simp
qed

definition second_window :: "lock_event list" where
  "second_window = Start_Process 1 # replicate 10 (Step_Contend 1 (example_answer True))"

lemma second_window_runs:
  "li_state (lw_instances (fold (lock_step example_lock) second_window (example_world (win_history @ failed_renewal))) 1)
     = Running_Process"
  "li_contend (lw_instances (fold (lock_step example_lock) second_window (example_world (win_history @ failed_renewal))) 1)
     = Contend_Idle"
  using example_lost example_won
  by (simp_all add: second_window_def example_answer_def put_instance_def readRecordIfPresent_def new_lock_def
      isLive_def pidAlive_def takeover_at_def new_inode_def write_inode_def own_record_def numeral_eq_Suc Let_def)

lemma no_crash: "Crash_Process 0 \<notin> set second_window"
  by (simp add: second_window_def)

lemma abandoned_witness:
  "\<not> isOwner (lw_instances (fold (lock_step example_lock) second_window (example_world (win_history @ failed_renewal))) 1)"
  using abandoned_owner_file_blocks [OF example_ok example_world_def [of "win_history @ failed_renewal"] refl, of 0 1 example_record
      second_window _ 1, OF _ _ _ _ _ _ _ _ _ refl]
    second_window_runs
  by (simp add: example_lost example_won new_lock_def own_record_def no_crash del: One_nat_def)

text \<open>
  C11. A process that contends alone gets the broker. When there is no owner file, or one whose
  process has exited and whose heartbeat has expired, and no takeover file, a process whose file
  operations succeed and that nobody disturbs is owner after 17 of them: the owner file is its own,
  with its record, the takeover file is gone, and it is idle again.
\<close>
theorem lone_contender_becomes_owner:
  assumes "p = lw_instances w i" "li_state p = Running_Process" "li_contend p = Observe" "\<not> li_disposed p"
    and "ld_takeover (lw_dir w) = None"
    and "ld_owner (lw_dir w) = None
         \<or> (\<exists>x c. ld_owner (lw_dir w) = Some x \<and> x < ld_next (lw_dir w) \<and> ld_content (lw_dir w) x = Owner_Content c
              \<and> (\<forall>n. \<not> isLive cfg (ans n) (lw_running w) c))"
    and "\<And>n. oa_ok (ans n) \<and> \<not> oa_garbled (ans n)"
    and "w' = fold (lock_step cfg) (map (\<lambda>n. Step_Contend i (ans n)) [0..<17]) w"
  shows "isOwner (lw_instances w' i) \<and> li_contend (lw_instances w' i) = Contend_Idle
    \<and> ld_takeover (lw_dir w') = None
    \<and> (\<exists>h r. ld_owner (lw_dir w') = Some h \<and> li_handle (lw_instances w' i) = Some h
         \<and> li_record (lw_instances w' i) = Some r \<and> ld_content (lw_dir w') h = Owner_Content r
         \<and> wr_token r = id_token (lk_identity cfg i))"
proof -
  let ?q = "lw_instances w i" and ?d = "lw_dir w"
  have upt: "[0..<17] = [0, 1, 2, 3, 4, 5, 6, 7, 8, 9, 10, 11, 12, 13, 14, 15, 16 :: nat]"
    by (simp add: upt_rec)
  obtain q' d' where q': "fold (alone_step cfg (lk_identity cfg i) (lw_running w)) (map ans [0..<17]) (?q, ?d) = (q', d')"
    by fastforce
  have "won (lk_identity cfg i) (q', d')"
    using assms(2-7) alone_vacant [of ?q ?d ans "lk_identity cfg i" cfg "lw_running w"]
      alone_stale [of ?q ?d _ _ cfg ans "lw_running w" "lk_identity cfg i"]
    unfolding assms(1) q' [symmetric] upt by blast
  moreover have "w' = put_instance i q' d' w"
    using alone_fold [of ?q cfg i "map ans [0..<17]" ?d w] assms(1,2) q'
    unfolding assms(8) put_instance_same by (simp add: comp_def)
  ultimately show ?thesis
    by (simp add: won_def)
qed

lemma lone_contender_witness:
  "isOwner (lw_instances (fold (lock_step example_lock) (map (\<lambda>n. Step_Contend 0 (example_answer True)) [0..<17])
     (example_world [Start_Process 0])) 0)"
  using lone_contender_becomes_owner [of _ "example_world [Start_Process 0]" 0 example_lock "\<lambda>_. example_answer True", OF refl _ _ _ _ _ _ refl]
  by (simp add: example_world_def initial_world_def put_instance_def new_lock_def empty_lock_dir_def example_answer_def)

end
