(* ===== verification/Spec2Isabelle.thy ===== *)
theory Spec2Isabelle
  imports Task_Store Workspace_Leases Registry_Claims Broker_Lifecycle Task_Routes Peer_Policy
    Owner_Lock_Safety
begin

text \<open>
  Copilot agent mesh: a formal model of its task core.

  The program lets the agents of several VS Code windows, on one device and on paired devices,
  delegate tasks to each other. One window per device runs the device broker. The broker knows the
  windows and the workspaces they hold (node registry), the tasks and their life cycle (task
  reducer, task store), which request each task id belongs to and where the task was sent (task
  route catalogue), which task may work in which workspace (leases), and what each workspace
  allows its peers (peer policies). A delegation arrives as a start request; its identity is the
  hash of its normalised fields; the route catalogue binds the task id to it, the registry checks
  that the target window is live and the caller authorised and takes the lease, the task store
  creates the record, and everything that happens to the task afterwards is an event the reducer
  applies to the stored record. Every write goes through a store that refuses it when the window
  is no longer the owner of the broker.

  Theories, and the code each one models (paths under \<open>src/\<close> of the repository):

  \<^item> \<open>Mesh_Prelude\<close>: results as sums, JavaScript maps as association lists in insertion order,
    decimal printing, the locale \<open>state_machine\<close> (an operation keeps an invariant, so every history does),
    which each component with a history interprets, and the locale \<open>self_delimiting\<close> (what a
    hash needs of the encoding of its fields).
  \<^item> \<open>Mesh_Errors\<close>: \<open>shared/protocol/errors.ts\<close> and \<open>src/domain/errors.ts\<close>; the error
    reasons with their codes and the values modelled code throws.
  \<^item> \<open>Mesh_State\<close>: operations that change state and may throw after changing it, with a Hoare
    triple that has a postcondition for each outcome.
  \<^item> \<open>Js_Text\<close>: \<open>JSON.stringify\<close>, \<open>Date.parse\<close>, \<open>toISOString\<close> and \<open>toLowerCase\<close>, as
    far as the program measures and compares their results.
  \<^item> \<open>Task_Protocol\<close>, \<open>Node_Protocol\<close>: \<open>shared/protocol/{models,methods,nodes,limits}.ts\<close>;
    records and the checks of their schemas, with the serialised size of a directory answer and
    \<open>Array.prototype.sort\<close>.
  \<^item> \<open>Task_Journal\<close>: \<open>src/domain/taskEvents.ts\<close>, the compaction of the event journal by age
    and by bytes.
  \<^item> \<open>Task_Reducer\<close>: \<open>src/domain/taskReducer.ts\<close>, every event on every state, and the abstract
    life cycle of a task (\<open>lifecycle_step\<close>, an inductive relation) that it refines.
  \<^item> \<open>Task_Requests\<close>: \<open>src/domain/task.ts\<close>, normalisation, hashing, creation, idempotent
    retries, migration and ownership of tasks. Its length prefix interprets \<open>self_delimiting\<close>.
  \<^item> \<open>Workspace_Leases\<close>: \<open>src/tasks/WorkspaceLeaseManager.ts\<close>, with the locale
    \<open>lease_table\<close> for what the lease operations promise.
  \<^item> \<open>Atomic_Files\<close>: \<open>src/storage/AtomicFileStore.ts\<close> over a file map whose every call may fail.
  \<^item> \<open>Task_Store\<close>: \<open>src/tasks/FileTaskStore.ts\<close>, the operations on task files with their
    fences, and the abstraction of a disk to a map from peer and task id to records (\<open>tasks\<close>).
  \<^item> \<open>Node_Registry\<close>, \<open>Registry_Safety\<close>, \<open>Registry_Claims\<close>:
    \<open>src/broker/NodeRegistry.ts\<close>: the operations; the invariant of the registry and its proof,
    call by call; the properties and a worked example.
  \<^item> \<open>Broker_Lifecycle\<close>: \<open>src/broker/BrokerLifecycle.ts\<close>, the contention of a window for the
    broker, its runtime and its disposal, as an inductive step relation.
  \<^item> \<open>Task_Routes\<close>: \<open>src/broker/TaskRouteCatalog.ts\<close>, reservations of task ids, attempts that
    may have dispatched a task, and the bounded stored catalogue.
  \<^item> \<open>Peer_Policy\<close>: \<open>src/broker/PeerPolicyStore.ts\<close>, the policies of the workspaces with their
    unique window names, and the migration of old documents.
  \<^item> \<open>Owner_Lock\<close>, \<open>Owner_Lock_Safety\<close>: \<open>src/storage/WorkerOwnerLock.ts\<close>, the owner file and
    the takeover file several processes contend for, one file operation at a time; what each
    process relies on, and that no step of another takes it away.

  How the model corresponds to the code. A class is a record of its fields, a method a function on
  that record with the method's name; every early return, throw and rejected promise is a branch.
  Identifiers that clash with Isabelle names carry a suffix. What a class awaits is an argument:
  the clock, random ids and the answers of the disk, the state store and the ownership lock are
  given to each call, in the order in which the code asks, and a theorem over all of them covers
  every fault. Promise queues serialise the calls of the stores, so their histories are lists of
  calls. Where other calls can run during an await that is not serialised (the registry waiting
  for the state store, the broker lifecycle everywhere) the operation is split at the await and
  the interleaved calls are explicit. The owner lock runs in several processes at once: a process
  is a program position, a step is one file operation with the code up to the next, and a history
  is any interleaving of such steps with crashes.

  Parameters that stand for code outside the repository, with what is assumed of them: the formats
  of UUIDs and date-times (\<open>uuids_regular\<close>, \<open>datetimes_parse\<close>), the SHA-256 digest (no
  collision on the two inputs a theorem compares), \<open>localeCompare\<close> (nothing), the Unicode
  operations on strings (their effect on ASCII text), VS Code's memento (an update it rejects is
  either stored or not, and nothing is assumed of later ones), the tokens of the processes that
  contend for the owner file (distinct). Each assumption is satisfied by a concrete instance in the
  examples.

  What the groups of lemmas show. Task core: records stay valid and only move along the life
  cycle, cancellation is final, the journal keeps the longest suffix that fits. Identity: a
  retried request finds its task and a different one with its ids is refused, in the requests, in
  the store and in the route catalogue, across restarts and faults. Disk: writes are atomic and
  durable, the store refines an abstract map of tasks, and a fenced host writes nothing. Registry:
  claims and leases are exclusive, tables agree and stay bounded, routes are handed out only to
  authorised callers, events come from one session. Owner lock: one owner at a time, a lone
  contender wins, and an owner that gives up after a failed renewal blocks the others while it
  runs (a finding). Lifecycle: one rightful runtime, a started broker has its timer armed or holds
  a runtime it reports as running (which, after a clean-up that failed, may never have started: a
  finding), disposal final. Routes: a dispatch that may have happened is never forgotten, and the
  catalogue in memory and the stored one differ only after a write that was stored and yet refused.
  Policies: names stay unique and the migration returns.

  Bounds. All recursion is structural or proved to terminate, except the search for a window name,
  which is a partial function of type option and proved to return. No fuel is used. The limits of
  the code (a thousand routes, 128 nodes, 32 workspaces, 640 KiB of journal, frames of 1 MiB) are
  those of the source; numbers the code keeps as safe integers are naturals or integers.

  Not modelled: the agent host runtime, the tunnel, gateway, peer and IPC transports, which drive
  external processes, sockets and cryptography; the tool and dashboard front ends, which produce
  texts and views; the wiring to VS Code; the broker task service and the device broker, which
  compose the modelled components; the services above the policy store and the window side of the
  broker protocol. The manifest lists them with reasons.
\<close>

end
